(* ===== verification/Kraft_Prelude.thy ===== *)
theory Kraft_Prelude
  imports Main "HOL-Library.Word" "HOL-Library.Sublist"
begin

text \<open>
  The shared vocabulary of the development: the machine integer types of the
  program, panics as values, loops that may panic, bounds-checked list access,
  and the generic facts on words, lists and maps that the component theories
  use.
\<close>

named_theorems u64_simps \<open>arithmetic on unsigned 64-bit counters that do not wrap\<close>
named_theorems frame_simps \<open>what an operation leaves unchanged\<close>

section \<open>Machine integers\<close>

text \<open>
  \<open>usize\<close> is a natural number: it only counts elements of lists that are in
  memory. A cast \<open>x as usize\<close> is \<^const>\<open>unat\<close> and a cast \<open>n as u64\<close> is
  \<^const>\<open>of_nat\<close>. Arithmetic on words wraps, as it does in a release build.
\<close>

type_synonym u8 = "8 word"
type_synonym u32 = "32 word"
type_synonym u64 = "64 word"
type_synonym u128 = "128 word"
type_synonym i32 = int
type_synonym usize = nat

abbreviation u64_max :: u64 where
  "u64_max \<equiv> - 1"

section \<open>Panics\<close>

text \<open>A Rust panic ends the thread that raises it; here it is an error value.\<close>

datatype panic =
    CallbackReceiverDropped
  | IndexOutOfBounds
  | DivisionByZero
  | SliceOutOfRange
  | ExpectFailed

type_synonym 'a result = "panic + 'a"

definition bind_res :: "'a result \<Rightarrow> ('a \<Rightarrow> 'b result) \<Rightarrow> 'b result" where
  "bind_res r f = (case r of Inl e \<Rightarrow> Inl e | Inr x \<Rightarrow> f x)"

fun fold_res :: "('a \<Rightarrow> 's \<Rightarrow> 's result) \<Rightarrow> 'a list \<Rightarrow> 's \<Rightarrow> 's result" where
  "fold_res f [] s = Inr s"
| "fold_res f (x # xs) s = bind_res (f x s) (fold_res f xs)"

section \<open>Bounds-checked access\<close>

text \<open>The slice method \<open>get\<close>: \<^const>\<open>None\<close> out of range.\<close>

definition get_opt :: "'a list \<Rightarrow> nat \<Rightarrow> 'a option" where
  "get_opt xs i = (if i < length xs then Some (xs ! i) else None)"

text \<open>The slice expression \<open>xs[a..b]\<close>, which panics on a bad range.\<close>

definition slice_range :: "'a list \<Rightarrow> nat \<Rightarrow> nat \<Rightarrow> 'a list result" where
  "slice_range xs a b =
     (if a \<le> b \<and> b \<le> length xs then Inr (take (b - a) (drop a xs)) else Inl SliceOutOfRange)"

text \<open>The index expression \<open>xs[i]\<close>, which panics out of range.\<close>

definition index_checked :: "'a list \<Rightarrow> nat \<Rightarrow> 'a result" where
  "index_checked xs i = (if i < length xs then Inr (xs ! i) else Inl IndexOutOfBounds)"

section \<open>Lemmas on results\<close>

lemma bind_res_simps [simp]:
  "bind_res (Inl e) f = Inl e"
  "bind_res (Inr x) f = f x"
  by (simp_all add: bind_res_def)

lemma bind_res_Inr_iff:
  "bind_res r f = Inr y \<longleftrightarrow> (\<exists>x. r = Inr x \<and> f x = Inr y)"
  by (cases r) simp_all

lemma bind_res_InrE [elim!]:
  assumes "bind_res r f = Inr y"
  obtains x where "r = Inr x" "f x = Inr y"
  using assms by (auto simp: bind_res_Inr_iff)

lemma fold_res_invariant:
  assumes "\<And>x t t'. x \<in> set xs \<Longrightarrow> P t \<Longrightarrow> f x t = Inr t' \<Longrightarrow> P t'"
    and "P s" and "fold_res f xs s = Inr s'"
  shows "P s'"
  using assms
proof (induction xs arbitrary: s)
  case (Cons x xs)
  from Cons.prems(3) obtain t where "f x s = Inr t" "fold_res f xs t = Inr s'"
    by auto
  with Cons show ?case
    by (metis list.set_intros(1) list.set_intros(2))
qed simp

lemma fold_res_total:
  assumes "\<And>x t. x \<in> set xs \<Longrightarrow> P t \<Longrightarrow> \<exists>t'. f x t = Inr t' \<and> P t'"
    and "P s"
  shows "\<exists>s'. fold_res f xs s = Inr s' \<and> P s'"
  using assms
proof (induction xs arbitrary: s)
  case (Cons x xs)
  then obtain t where "f x s = Inr t" "P t"
    by (meson list.set_intros(1))
  with Cons show ?case
    by (metis bind_res_simps(2) fold_res.simps(2) list.set_intros(2))
qed simp

section \<open>Lemmas on bounds-checked access\<close>

lemma get_opt_Some [simp]: "i < length xs \<Longrightarrow> get_opt xs i = Some (xs ! i)"
  by (simp add: get_opt_def)

lemma get_opt_None [simp]: "length xs \<le> i \<Longrightarrow> get_opt xs i = None"
  by (simp add: get_opt_def)

lemma get_opt_eq_Some_iff: "get_opt xs i = Some x \<longleftrightarrow> i < length xs \<and> xs ! i = x"
  by (simp add: get_opt_def)

lemma slice_range_to_end [simp]:
  "a \<le> length xs \<Longrightarrow> slice_range xs a (length xs) = Inr (drop a xs)"
  by (simp add: slice_range_def)

lemma take_Suc_nth: "i < length xs \<Longrightarrow> take (Suc i) xs = take i xs @ [xs ! i]"
  by (rule take_Suc_conv_app_nth)

section \<open>Lemmas on words\<close>

lemma unat_inc [u64_simps]:
  fixes x :: u64
  assumes "x \<noteq> u64_max"
  shows "unat (x + 1) = Suc (unat x)"
proof -
  from assms have "1 + x \<noteq> 0"
    by (metis add.commute add_eq_0_iff)
  then show ?thesis
    by (metis add.commute unatSuc)
qed

lemma unat_of_nat_u64 [u64_simps]: "n < 2 ^ 64 \<Longrightarrow> unat (of_nat n :: u64) = n"
  by (simp add: unat_of_nat)

lemma of_nat_u64_inj: "i < 2 ^ 64 \<Longrightarrow> j < 2 ^ 64 \<Longrightarrow> (of_nat i :: u64) = of_nat j \<longleftrightarrow> i = j"
  by (metis unat_of_nat_u64)

lemma unat_u64_less: "unat (x :: u64) < 2 ^ 64"
  using unsigned_less [of x] by simp

lemma of_nat_unat_u64 [simp]: "of_nat (unat (x :: u64)) = x"
  by simp

lemma u64_not_max: "unat (x :: u64) < 2 ^ 64 - 1 \<Longrightarrow> x \<noteq> u64_max"
  by (auto simp: unsigned_minus_1_eq_mask mask_eq_exp_minus_1)

lemma unat_of_nat_below: "i \<le> unat (x :: u64) \<Longrightarrow> unat (of_nat i :: u64) = i"
  using unat_u64_less [of x] by (intro unat_of_nat_u64) simp

end
