(* ===== verification/Capnp_Messages.thy ===== *)
theory Capnp_Messages
  imports Kraft_Prelude
begin

text \<open>
  The serialised messages of \<open>transport/capnp\<close>. The Cap'n Proto library and
  the code it generates from \<open>raft.capnp\<close> are a parameter: a record \<open>capnp\<close>
  of the library calls the program makes. \<open>OwnedLogEntry\<close>, \<open>OwnedWriteBatch\<close>
  and \<open>OwnedWriteBatchResponse\<close> own their bytes and parse them on demand
  (\<open>internal_message.rs\<close>); \<open>capnp_law\<close> is the documented round trip of the
  library, for every message whose re-parse succeeds.
\<close>

section \<open>The views of the messages\<close>

text \<open>
  A field of pointer type (text, data, list) is read by a fallible accessor:
  \<^const>\<open>None\<close> is a decoding error. Text is a sequence of bytes until
  \<open>to_str\<close> has checked it.
\<close>

type_synonym text_bytes = "u8 list"

record InternalPutRequest =
  put_id :: "text_bytes option"
  put_payload :: "u8 list option"
  put_node_id :: u32

record InternalWriteBatch =
  iwb_batch_id :: "text_bytes option"
  iwb_requests :: "InternalPutRequest list option"

record InternalLogEntry =
  ile_index :: u64
  ile_term :: u64
  ile_prev_log_index :: u64
  ile_prev_log_term :: u64
  ile_message_id :: u64
  ile_timestamp :: u64
  ile_commands :: "InternalPutRequest list option"
  ile_data :: "u8 list option"

datatype RemoteResponseType = Unspecified | Ok | Invalid

record InternalPutResponse =
  ipr_id :: "text_bytes option"
  ipr_response_type :: "RemoteResponseType option"
  ipr_message :: "text_bytes option"
  ipr_node_id :: u32
  ipr_batch_id :: "text_bytes option"

record InternalWriteBatchResponse =
  iwr_responses :: "InternalPutResponse list option"
  iwr_batch_id :: "text_bytes option"

section \<open>The library\<close>

text \<open>
  \<open>read_flat\<close> is \<open>read_message_from_flat_slice\<close>: the number of bytes it
  consumes, or an error. The \<open>get_\<close> functions are \<open>get_root\<close> on the message
  at the head of the slice; the \<open>write_\<close> functions are \<open>init_root\<close>, the
  setters and \<open>write_message\<close>.
\<close>

record capnp =
  read_flat :: "u8 list \<Rightarrow> nat option"
  get_log_entry :: "u8 list \<Rightarrow> InternalLogEntry option"
  get_write_batch :: "u8 list \<Rightarrow> InternalWriteBatch option"
  get_write_batch_response :: "u8 list \<Rightarrow> InternalWriteBatchResponse option"
  write_log_entry :: "InternalLogEntry \<Rightarrow> u8 list"
  write_write_batch :: "InternalWriteBatch \<Rightarrow> u8 list"
  write_write_batch_response :: "InternalWriteBatchResponse \<Rightarrow> u8 list"

section \<open>UTF-8 text\<close>

definition utf8_cont :: "u8 \<Rightarrow> bool" where
  "utf8_cont b \<longleftrightarrow> 0x80 \<le> b \<and> b \<le> 0xBF"

text \<open>The second byte of a three or four byte sequence, which excludes overlong forms and surrogates.\<close>

definition utf8_second :: "u8 \<Rightarrow> u8 \<Rightarrow> bool" where
  "utf8_second b0 b1 \<longleftrightarrow>
     (if b0 = 0xE0 then 0xA0 \<le> b1 \<and> b1 \<le> 0xBF
      else if b0 = 0xED then 0x80 \<le> b1 \<and> b1 \<le> 0x9F
      else if b0 = 0xF0 then 0x90 \<le> b1 \<and> b1 \<le> 0xBF
      else if b0 = 0xF4 then 0x80 \<le> b1 \<and> b1 \<le> 0x8F
      else utf8_cont b1)"

fun utf8_valid :: "u8 list \<Rightarrow> bool" where
  "utf8_valid [] = True"
| "utf8_valid (b0 # bs) =
     (if b0 < 0x80 then utf8_valid bs
      else if 0xC2 \<le> b0 \<and> b0 \<le> 0xDF then
        (case bs of b1 # r \<Rightarrow> utf8_cont b1 \<and> utf8_valid r | _ \<Rightarrow> False)
      else if 0xE0 \<le> b0 \<and> b0 \<le> 0xEF then
        (case bs of b1 # b2 # r \<Rightarrow> utf8_second b0 b1 \<and> utf8_cont b2 \<and> utf8_valid r | _ \<Rightarrow> False)
      else if 0xF0 \<le> b0 \<and> b0 \<le> 0xF4 then
        (case bs of b1 # b2 # b3 # r \<Rightarrow>
           utf8_second b0 b1 \<and> utf8_cont b2 \<and> utf8_cont b3 \<and> utf8_valid r | _ \<Rightarrow> False)
      else False)"

definition to_str :: "text_bytes \<Rightarrow> text_bytes option" where
  "to_str t = (if utf8_valid t then Some t else None)"

section \<open>Log entries\<close>

datatype OwnedLogEntry = OwnedLogEntry (as_bytes: "u8 list")

definition log_entry_from_bytes :: "capnp \<Rightarrow> u8 list \<Rightarrow> OwnedLogEntry option" where
  "log_entry_from_bytes cp bytes =
     (case read_flat cp bytes of None \<Rightarrow> None | Some _ \<Rightarrow> Some (OwnedLogEntry bytes))"

definition log_entry_from_bytes_unchecked :: "u8 list \<Rightarrow> OwnedLogEntry" where
  "log_entry_from_bytes_unchecked bytes = OwnedLogEntry bytes"

definition log_entry_with_message :: "capnp \<Rightarrow> OwnedLogEntry \<Rightarrow> (InternalLogEntry \<Rightarrow> 'r) \<Rightarrow> 'r option" where
  "log_entry_with_message cp e f =
     (case read_flat cp (as_bytes e) of
        None \<Rightarrow> None
      | Some _ \<Rightarrow> (case get_log_entry cp (as_bytes e) of None \<Rightarrow> None | Some msg \<Rightarrow> Some (f msg)))"

definition unwrap_or :: "'a option \<Rightarrow> 'a \<Rightarrow> 'a" where
  "unwrap_or v d = (case v of None \<Rightarrow> d | Some x \<Rightarrow> x)"

definition entry_index :: "capnp \<Rightarrow> OwnedLogEntry \<Rightarrow> u64" where
  "entry_index cp e = unwrap_or (log_entry_with_message cp e ile_index) 0"

definition entry_term :: "capnp \<Rightarrow> OwnedLogEntry \<Rightarrow> u64" where
  "entry_term cp e = unwrap_or (log_entry_with_message cp e ile_term) 0"

definition entry_prev_log_index :: "capnp \<Rightarrow> OwnedLogEntry \<Rightarrow> u64" where
  "entry_prev_log_index cp e = unwrap_or (log_entry_with_message cp e ile_prev_log_index) 0"

definition entry_prev_log_term :: "capnp \<Rightarrow> OwnedLogEntry \<Rightarrow> u64" where
  "entry_prev_log_term cp e = unwrap_or (log_entry_with_message cp e ile_prev_log_term) 0"

definition entry_message_id :: "capnp \<Rightarrow> OwnedLogEntry \<Rightarrow> u64" where
  "entry_message_id cp e = unwrap_or (log_entry_with_message cp e ile_message_id) 0"

definition entry_timestamp :: "capnp \<Rightarrow> OwnedLogEntry \<Rightarrow> u64" where
  "entry_timestamp cp e = unwrap_or (log_entry_with_message cp e ile_timestamp) 0"

definition entry_command_count :: "capnp \<Rightarrow> OwnedLogEntry \<Rightarrow> usize" where
  "entry_command_count cp e =
     unwrap_or (log_entry_with_message cp e (\<lambda>r. unwrap_or (map_option length (ile_commands r)) 0)) 0"

definition entry_data :: "capnp \<Rightarrow> OwnedLogEntry \<Rightarrow> u8 list" where
  "entry_data cp e =
     unwrap_or (log_entry_with_message cp e (\<lambda>r. unwrap_or (ile_data r) [])) []"

text \<open>What \<open>for_each_command\<close> hands to its closure, in order: key, payload and node id.\<close>

definition command_view :: "InternalPutRequest \<Rightarrow> text_bytes \<times> u8 list \<times> u32" where
  "command_view cmd =
     (unwrap_or (Option.bind (put_id cmd) to_str) [], unwrap_or (put_payload cmd) [], put_node_id cmd)"

definition for_each_command :: "capnp \<Rightarrow> OwnedLogEntry \<Rightarrow> (text_bytes \<times> u8 list \<times> u32) list option" where
  "for_each_command cp e =
     log_entry_with_message cp e
       (\<lambda>r. case ile_commands r of None \<Rightarrow> [] | Some cs \<Rightarrow> map command_view cs)"

definition build_owned_log_entry :: "capnp \<Rightarrow> InternalLogEntry \<Rightarrow> OwnedLogEntry result" where
  "build_owned_log_entry cp m =
     (case log_entry_from_bytes cp (write_log_entry cp m) of
        None \<Rightarrow> Inl ExpectFailed | Some e \<Rightarrow> Inr e)"

section \<open>Write batches\<close>

datatype OwnedWriteBatch = OwnedWriteBatch (batch_bytes: "u8 list")

definition write_batch_from_bytes :: "capnp \<Rightarrow> u8 list \<Rightarrow> OwnedWriteBatch option" where
  "write_batch_from_bytes cp bytes =
     (case read_flat cp bytes of None \<Rightarrow> None | Some _ \<Rightarrow> Some (OwnedWriteBatch bytes))"

definition write_batch_with_message :: "capnp \<Rightarrow> OwnedWriteBatch \<Rightarrow> (InternalWriteBatch \<Rightarrow> 'r) \<Rightarrow> 'r option" where
  "write_batch_with_message cp b f =
     (case read_flat cp (batch_bytes b) of
        None \<Rightarrow> None
      | Some _ \<Rightarrow> (case get_write_batch cp (batch_bytes b) of None \<Rightarrow> None | Some msg \<Rightarrow> Some (f msg)))"

definition batch_request_count :: "capnp \<Rightarrow> OwnedWriteBatch \<Rightarrow> usize option" where
  "batch_request_count cp b =
     Option.bind (write_batch_with_message cp b (\<lambda>r. map_option length (iwb_requests r))) id"

definition payload_size :: "InternalPutRequest \<Rightarrow> u64" where
  "payload_size req = unwrap_or (map_option (\<lambda>p. of_nat (length p)) (put_payload req)) 0"

definition batch_size :: "capnp \<Rightarrow> OwnedWriteBatch \<Rightarrow> u64" where
  "batch_size cp b =
     unwrap_or (write_batch_with_message cp b
       (\<lambda>r. unwrap_or (map_option (\<lambda>reqs. sum_list (map payload_size reqs)) (iwb_requests r)) 0)) 0"

definition batch_is_empty :: "capnp \<Rightarrow> OwnedWriteBatch \<Rightarrow> bool" where
  "batch_is_empty cp b =
     unwrap_or (write_batch_with_message cp b
       (\<lambda>r. unwrap_or (map_option (\<lambda>reqs. reqs = []) (iwb_requests r)) True)) True"

definition batch_len :: "capnp \<Rightarrow> OwnedWriteBatch \<Rightarrow> usize" where
  "batch_len cp b = unwrap_or (batch_request_count cp b) 0"

definition build_owned_write_batch :: "capnp \<Rightarrow> InternalWriteBatch \<Rightarrow> OwnedWriteBatch result" where
  "build_owned_write_batch cp m =
     (case write_batch_from_bytes cp (write_write_batch cp m) of
        None \<Rightarrow> Inl ExpectFailed | Some b \<Rightarrow> Inr b)"

section \<open>Write batch responses\<close>

datatype OwnedWriteBatchResponse = OwnedWriteBatchResponse (response_bytes: "u8 list")

definition write_batch_response_from_bytes :: "capnp \<Rightarrow> u8 list \<Rightarrow> OwnedWriteBatchResponse option" where
  "write_batch_response_from_bytes cp bytes =
     (case read_flat cp bytes of None \<Rightarrow> None | Some _ \<Rightarrow> Some (OwnedWriteBatchResponse bytes))"

definition build_owned_write_batch_response ::
  "capnp \<Rightarrow> InternalWriteBatchResponse \<Rightarrow> OwnedWriteBatchResponse result" where
  "build_owned_write_batch_response cp m =
     (case write_batch_response_from_bytes cp (write_write_batch_response cp m) of
        None \<Rightarrow> Inl ExpectFailed | Some b \<Rightarrow> Inr b)"

text \<open>The message of \<open>build_owned_write_batch_response(|_| {})\<close>: no field set, so each reads as its default.\<close>

definition empty_write_batch_response :: InternalWriteBatchResponse where
  "empty_write_batch_response = \<lparr> iwr_responses = Some [], iwr_batch_id = Some [] \<rparr>"

section \<open>What the program relies on\<close>

text \<open>A message that a builder can hold: no pointer field is in error.\<close>

definition built_put_request :: "InternalPutRequest \<Rightarrow> bool" where
  "built_put_request r \<longleftrightarrow> put_id r \<noteq> None \<and> put_payload r \<noteq> None"

definition built_log_entry :: "InternalLogEntry \<Rightarrow> bool" where
  "built_log_entry m \<longleftrightarrow>
     ile_data m \<noteq> None \<and> (case ile_commands m of None \<Rightarrow> False | Some cs \<Rightarrow> list_all built_put_request cs)"

text \<open>
  Bytes that read back as one message whatever follows them, and of which no
  proper part can be read.
\<close>

definition readable :: "capnp \<Rightarrow> u8 list \<Rightarrow> bool" where
  "readable cp e \<longleftrightarrow>
     e \<noteq> [] \<and> (\<forall>rest. read_flat cp (e @ rest) = Some (length e)) \<and>
     (\<forall>k. 0 < k \<longrightarrow> k < length e \<longrightarrow> read_flat cp (take k e) = None)"

text \<open>
  The documented behaviour of the library: a log entry that it has written and
  can read (a message above the reader's size limit it cannot) is readable in
  this sense and holds the values that were set. An empty slice is an error.
\<close>

definition capnp_law :: "capnp \<Rightarrow> bool" where
  "capnp_law cp \<longleftrightarrow>
     read_flat cp [] = None \<and>
     (\<forall>m. built_log_entry m \<longrightarrow> read_flat cp (write_log_entry cp m) \<noteq> None \<longrightarrow>
        readable cp (write_log_entry cp m) \<and>
        (\<forall>rest. get_log_entry cp (write_log_entry cp m @ rest) = Some m))"

text \<open>The same for write batches.\<close>

definition built_write_batch :: "InternalWriteBatch \<Rightarrow> bool" where
  "built_write_batch m \<longleftrightarrow>
     iwb_batch_id m \<noteq> None \<and> (case iwb_requests m of None \<Rightarrow> False | Some rs \<Rightarrow> list_all built_put_request rs)"

definition write_batch_law :: "capnp \<Rightarrow> bool" where
  "write_batch_law cp \<longleftrightarrow>
     (\<forall>m. built_write_batch m \<longrightarrow> read_flat cp (write_write_batch cp m) \<noteq> None \<longrightarrow>
        get_write_batch cp (write_write_batch cp m) = Some m)"

section \<open>Lemmas\<close>

lemma unwrap_or_simps [simp]:
  "unwrap_or None d = d"
  "unwrap_or (Some x) d = x"
  by (simp_all add: unwrap_or_def)

lemma log_entry_from_bytes_Some:
  "log_entry_from_bytes cp bytes = Some e \<Longrightarrow> e = OwnedLogEntry bytes \<and> read_flat cp bytes \<noteq> None"
  by (auto simp: log_entry_from_bytes_def split: option.splits)

text \<open>An entry that the builder returned reads back as the message it was built from.\<close>

lemma build_owned_log_entryD:
  assumes "capnp_law cp" "built_log_entry m" "build_owned_log_entry cp m = Inr e"
  shows "as_bytes e = write_log_entry cp m"
    and "readable cp (as_bytes e)"
    and "log_entry_with_message cp e f = Some (f m)"
proof -
  from assms(3) have e: "e = OwnedLogEntry (write_log_entry cp m)"
    and r: "read_flat cp (write_log_entry cp m) \<noteq> None"
    by (auto simp: build_owned_log_entry_def log_entry_from_bytes_def split: option.splits)
  have law: "readable cp (write_log_entry cp m)"
    "get_log_entry cp (write_log_entry cp m @ rest') = Some m" for rest'
    using assms(1,2) r unfolding capnp_law_def by blast+
  show "as_bytes e = write_log_entry cp m" "readable cp (as_bytes e)"
    using e law by simp_all
  show "log_entry_with_message cp e f = Some (f m)"
    using e r law(2) [of "[]"] by (auto simp: log_entry_with_message_def)
qed

lemma entry_fields_of_built:
  assumes "capnp_law cp" "built_log_entry m" "build_owned_log_entry cp m = Inr e"
  shows "entry_index cp e = ile_index m" "entry_term cp e = ile_term m"
    "entry_prev_log_index cp e = ile_prev_log_index m"
    "entry_prev_log_term cp e = ile_prev_log_term m"
    "entry_message_id cp e = ile_message_id m"
  by (simp_all add: entry_index_def entry_term_def entry_prev_log_index_def
      entry_prev_log_term_def entry_message_id_def build_owned_log_entryD(3) [OF assms])

lemma build_owned_write_batchD:
  assumes "write_batch_law cp" "built_write_batch m" "build_owned_write_batch cp m = Inr b"
  shows "write_batch_with_message cp b f = Some (f m)"
  using assms
  by (auto simp: build_owned_write_batch_def write_batch_from_bytes_def write_batch_with_message_def write_batch_law_def
      split: option.splits)

end
