(* ===== verification/Raft_State.thy ===== *)
theory Raft_State
  imports Capnp_Messages
begin

text \<open>
  The data of the Raft state machine (\<open>raft/raft_sm.rs\<close>, \<open>quorum/types.rs\<close>,
  the task types of \<open>persistence/worker.rs\<close>), the shared state on which every
  handler works, the vote check of the \<open>RaftProtocol\<close> trait, and the three
  operations that hand committed entries to the query workers' bus.

  The parts of the environment the shared state holds are modelled by what the
  program can observe of them. A oneshot callback is a name; \<open>receiver_alive\<close>
  says whether its receiver still exists and \<open>responses\<close> lists what was sent.
  The bus answers each \<open>try_broadcast\<close> from an arbitrary stream \<open>answers\<close> and
  lists what it accepted. The persistence channel accepts a task exactly while
  its receiver exists. Tracing spans, log lines, metrics and the start time of
  a write batch, which only feeds a metric, are left out.
\<close>

section \<open>Requests and responses\<close>

type_synonym callback = nat

record LocalRequestVoteRequest =
  rv_term :: u64
  rv_candidate_id :: u32
  rv_last_log_index :: u64
  rv_last_log_term :: u64

record LogEntry =
  le_index :: u64
  le_data :: "u8 list"
  le_batch_index :: u64
  le_term :: u64
  le_prev_log_term :: u64
  le_prev_log_index :: u64
  le_message_id :: u64

record LocalAppendEntries =
  ae_term :: u64
  ae_leader_id :: u32
  ae_prev_index :: u64
  ae_prev_term :: u64
  ae_request_id :: u64
  ae_entry :: "LogEntry option"
  ae_commit_index :: u64

datatype LocalAppendEntriesCallbackResponse =
    AE_Ok
  | AE_UnrecognizedLeader
  | AE_WantedPreviousEntry (wp_last_term: u64) (wp_last_index: u64)
  | AE_TruncateLog u64 u64

record LocalRaftWriteBatchResponse =
  wr_message :: OwnedWriteBatchResponse
  wr_err :: "string option"

datatype LocalRaftResponsePayload =
    Resp_None
  | Resp_RequestVote bool
  | Resp_AppendEntries LocalAppendEntriesCallbackResponse
  | Resp_RaftState u32
  | Resp_WriteBatch LocalRaftWriteBatchResponse

datatype LocalRaftMessagePayload =
    Msg_RequestVote LocalRequestVoteRequest
  | Msg_AppendEntries LocalAppendEntries
  | Msg_GetRaftState
  | Msg_WriteBatch OwnedWriteBatch

section \<open>Outstanding messages\<close>

datatype OutstandingMessageType =
    OM_RequestVote callback
  | OM_CandidateElection (election_persistence_done: bool) (quorum_votes: u32)
  | OM_AppendLog callback
  | OM_WriteBatch bool u32 callback u64 usize
  | OM_NoOp bool u32 u64

record OutstandingMessage =
  om_id :: u64
  outstanding_responses :: i32
  message_type :: OutstandingMessageType

section \<open>Tasks and task responses of the workers\<close>

datatype PersistenceTaskType =
    PT_AppendVote u64 u64 u32
  | PT_AppendLog u64 "u8 list" u64
  | PT_TruncateLog usize

datatype PersistenceResponseType =
    PR_VotePersisted u64 u64 u32
  | PR_LogPersisted u64

record WriteBatch =
  wb_batch_id :: text_bytes
  wb_message :: OwnedWriteBatch
  wb_callback :: callback

datatype LocalQuorumWorkerTaskType =
    QT_StartHeartbeats u64 u64 u64 u64 u64
  | QT_StopHeartbeats u64
  | QT_RequestVote u64 u64 u64 u64
  | QT_AppendEntries u64 OwnedLogEntry u64
  | QT_BackfillLog "OwnedLogEntry list"
  | QT_WriteBatch WriteBatch
  | QT_TruncateLog u64 u64 u64
  | QT_UpdateCommitIndex u64

datatype LocalQuorumTaskResponseType =
    QR_RequestVoteResponse u64 u64 bool
  | QR_AppendEntries u64 bool
  | QR_BackfillLog u64 u64 u64
  | QR_TruncateLog u64 u64 u64
  | QR_TruncateLogResponse u64 bool

section \<open>The shared state\<close>

record RaftServerState =
  current_term :: u64
  leader_id :: u32

record CommitState =
  cs_commit_index :: u64
  cs_version :: u64

record RaftVolatileState =
  commit_index :: u64
  last_applied :: u64
  last_log_index :: u64
  last_log_term :: u64
  next_term :: u64
  next_log_index :: u64
  replication_log :: "OwnedLogEntry list"
  replication_log_term_starts :: "u64 \<rightharpoonup> u64"
  commit_state :: CommitState
  last_broadcast_index :: "u64 option"
  has_deferred_broadcast :: bool

record Bus =
  delivered :: "OwnedLogEntry list"
  answers :: "nat \<Rightarrow> bool"
  attempts :: nat

record SharedState =
  server_state :: RaftServerState
  volatile_server_state :: RaftVolatileState
  persistence_work :: "PersistenceTaskType list"
  persistence_connected :: bool
  persistence_response :: "PersistenceResponseType list"
  quorum_work :: "LocalQuorumWorkerTaskType list"
  quorum_response :: "LocalQuorumTaskResponseType list"
  identity :: u32
  term_votes :: "u64 \<rightharpoonup> u32"
  next_message_id :: u64
  outstanding_messages :: "u64 \<rightharpoonup> OutstandingMessage"
  quorum_size :: u32
  quorum_worker_tasks :: "LocalQuorumWorkerTaskType list list"
  max_message_size_bytes :: usize
  log_entry_bus :: Bus
  receiver_alive :: "callback \<Rightarrow> bool"
  responses :: "(callback \<times> LocalRaftResponsePayload) list"

text \<open>Short names for the parts of the volatile state the statements mention most.\<close>

abbreviation vol :: "SharedState \<Rightarrow> RaftVolatileState" where
  "vol \<equiv> volatile_server_state"

abbreviation raft_log :: "SharedState \<Rightarrow> OwnedLogEntry list" where
  "raft_log s \<equiv> replication_log (volatile_server_state s)"

abbreviation term_of :: "SharedState \<Rightarrow> u64" where
  "term_of s \<equiv> current_term (server_state s)"

definition upd_vol :: "(RaftVolatileState \<Rightarrow> RaftVolatileState) \<Rightarrow> SharedState \<Rightarrow> SharedState" where
  "upd_vol f s = s\<lparr>volatile_server_state := f (volatile_server_state s)\<rparr>"

section \<open>Channels, callbacks and queues\<close>

text \<open>A send whose failure is logged and ignored, and one that is unwrapped.\<close>

definition send_callback :: "callback \<Rightarrow> LocalRaftResponsePayload \<Rightarrow> SharedState \<Rightarrow> SharedState" where
  "send_callback cb r s =
     (if receiver_alive s cb then s\<lparr>responses := responses s @ [(cb, r)]\<rparr> else s)"

definition send_callback_unwrap ::
  "callback \<Rightarrow> LocalRaftResponsePayload \<Rightarrow> SharedState \<Rightarrow> SharedState result" where
  "send_callback_unwrap cb r s =
     (if receiver_alive s cb then Inr (s\<lparr>responses := responses s @ [(cb, r)]\<rparr>)
      else Inl CallbackReceiverDropped)"

definition persistence_send :: "PersistenceTaskType \<Rightarrow> SharedState \<Rightarrow> bool \<times> SharedState" where
  "persistence_send t s =
     (if persistence_connected s then (True, s\<lparr>persistence_work := persistence_work s @ [t]\<rparr>)
      else (False, s))"

definition push_all_quorum :: "LocalQuorumWorkerTaskType \<Rightarrow> SharedState \<Rightarrow> SharedState" where
  "push_all_quorum t s = s\<lparr>quorum_worker_tasks := map (\<lambda>q. q @ [t]) (quorum_worker_tasks s)\<rparr>"

text \<open>\<open>if let Some(queue) = quorum_worker_tasks.get(i) { queue.push(t) }\<close>\<close>

definition push_quorum :: "nat \<Rightarrow> LocalQuorumWorkerTaskType \<Rightarrow> SharedState \<Rightarrow> SharedState" where
  "push_quorum i t s =
     (if i < length (quorum_worker_tasks s)
      then s\<lparr>quorum_worker_tasks := (quorum_worker_tasks s)[i := quorum_worker_tasks s ! i @ [t]]\<rparr>
      else s)"

definition insert_outstanding :: "u64 \<Rightarrow> OutstandingMessage \<Rightarrow> SharedState \<Rightarrow> SharedState" where
  "insert_outstanding i m s = s\<lparr>outstanding_messages := (outstanding_messages s)(i \<mapsto> m)\<rparr>"

definition remove_outstanding :: "u64 \<Rightarrow> SharedState \<Rightarrow> SharedState" where
  "remove_outstanding i s = s\<lparr>outstanding_messages := (outstanding_messages s)(i := None)\<rparr>"

section \<open>Broadcasting committed entries\<close>

definition try_broadcast :: "OwnedLogEntry \<Rightarrow> SharedState \<Rightarrow> bool \<times> SharedState" where
  "try_broadcast e s =
     (let b = log_entry_bus s; ok = answers b (attempts b) in
      (ok, s\<lparr>log_entry_bus := b\<lparr>attempts := Suc (attempts b),
                                delivered := (if ok then delivered b @ [e] else delivered b)\<rparr>\<rparr>))"

definition bump_version :: "SharedState \<Rightarrow> SharedState" where
  "bump_version s =
     upd_vol (\<lambda>v. v\<lparr>commit_state := (commit_state v)\<lparr>cs_version := cs_version (commit_state v) + 1\<rparr>\<rparr>) s"

definition MAX_RETRIES_PER_ENTRY :: nat where
  "MAX_RETRIES_PER_ENTRY = 100"

definition YIELD_INTERVAL :: nat where
  "YIELD_INTERVAL = 10"

definition MAX_BROADCAST_PER_TIMESTEP :: u64 where
  "MAX_BROADCAST_PER_TIMESTEP = 5000"

text \<open>The inner retry loop for one entry: did the bus accept it within the retries?\<close>

function retry_entry :: "OwnedLogEntry \<Rightarrow> nat \<Rightarrow> SharedState \<Rightarrow> bool \<times> SharedState" where
  "retry_entry e retries s =
     (let (ok, s1) = try_broadcast e s in
      if ok then (True, s1)
      else if Suc retries \<ge> MAX_RETRIES_PER_ENTRY then (False, s1)
      else retry_entry e (Suc retries)
             (if Suc retries mod YIELD_INTERVAL = 0 then bump_version s1 else s1))"
  by pat_completeness auto
termination
  by (relation "measure (\<lambda>(e, retries, s). MAX_RETRIES_PER_ENTRY - retries)") auto

function bus_full_loop :: "nat \<Rightarrow> nat \<Rightarrow> nat \<Rightarrow> SharedState \<Rightarrow> nat \<times> SharedState" where
  "bus_full_loop new_absolute_commit_index start_index idx s =
     (if idx \<le> new_absolute_commit_index then
        (case get_opt (raft_log s) idx of
           Some e \<Rightarrow>
             (let (ok, s1) = retry_entry e 0 s in
              if ok then bus_full_loop new_absolute_commit_index start_index (Suc idx) s1
              else (if idx > start_index then idx - 1 else start_index, s1))
         | None \<Rightarrow> (if idx > start_index then idx - 1 else start_index, s))
      else (new_absolute_commit_index, s))"
  by pat_completeness auto
termination
  by (relation "measure (\<lambda>(n, st, idx, s). Suc n - idx)") auto

definition broadcast_committed_entries_when_bus_full ::
  "nat \<Rightarrow> nat \<Rightarrow> SharedState \<Rightarrow> nat \<times> SharedState" where
  "broadcast_committed_entries_when_bus_full new_absolute_commit_index start_index s =
     bus_full_loop new_absolute_commit_index start_index start_index (bump_version s)"

text \<open>The \<open>for\<close> loop of \<open>broadcast_committed_entries\<close> over the remaining indices.\<close>

fun broadcast_loop :: "nat list \<Rightarrow> u64 \<Rightarrow> u64 \<Rightarrow> SharedState \<Rightarrow> u64 \<times> SharedState" where
  "broadcast_loop [] new_commit_index lst s = (lst, s)"
| "broadcast_loop (idx # is) new_commit_index lst s =
     (case get_opt (raft_log s) idx of
        Some e \<Rightarrow>
          (let (ok, s1) = try_broadcast e s in
           if ok then broadcast_loop is new_commit_index (of_nat idx) s1
           else let (l, s2) = broadcast_committed_entries_when_bus_full (unat new_commit_index) idx s1
                in (of_nat l, s2))
      | None \<Rightarrow> broadcast_loop is new_commit_index lst s)"

definition broadcast_start_index :: "SharedState \<Rightarrow> u64" where
  "broadcast_start_index s =
     (case last_broadcast_index (vol s) of Some lst \<Rightarrow> lst + 1 | None \<Rightarrow> 0)"

definition broadcast_committed_entries :: "u64 \<Rightarrow> SharedState \<Rightarrow> SharedState" where
  "broadcast_committed_entries new_commit_index s =
     (let start_index = broadcast_start_index s in
      if start_index > new_commit_index then s
      else
        let (lst, s1) = broadcast_loop [unat start_index ..< Suc (unat new_commit_index)] new_commit_index 0 s in
        bump_version (upd_vol (\<lambda>v. v\<lparr>last_broadcast_index := Some lst,
                                     has_deferred_broadcast := (lst < new_commit_index)\<rparr>) s1))"

text \<open>
  The loop of \<open>retry_deferred_broadcast\<close>: the count, whether the bus refused an
  entry, and the state.
\<close>

fun retry_loop :: "nat list \<Rightarrow> u64 \<Rightarrow> SharedState \<Rightarrow> u64 \<times> bool \<times> SharedState" where
  "retry_loop [] count s = (count, False, s)"
| "retry_loop (i # is) count s =
     (case get_opt (raft_log s) i of
        Some e \<Rightarrow>
          (let (ok, s1) = try_broadcast e s in
           if ok then retry_loop is (count + 1) (upd_vol (\<lambda>v. v\<lparr>last_broadcast_index := Some (of_nat i)\<rparr>) s1)
           else (count, True, s1))
      | None \<Rightarrow> retry_loop is count s)"

definition retry_deferred_broadcast :: "SharedState \<Rightarrow> u64 \<times> SharedState" where
  "retry_deferred_broadcast s =
     (if \<not> has_deferred_broadcast (vol s) then (0, s)
      else
        let ci = commit_index (vol s); start_index = broadcast_start_index s in
        if start_index > ci then (0, upd_vol (\<lambda>v. v\<lparr>has_deferred_broadcast := False\<rparr>) s)
        else
          let end_index = min ci (start_index + MAX_BROADCAST_PER_TIMESTEP - 1);
              (count, full, s1) = retry_loop [unat start_index ..< Suc (unat end_index)] 0 s in
          if full then (count, s1)
          else
            let s2 = (if last_broadcast_index (vol s1) = Some ci
                      then upd_vol (\<lambda>v. v\<lparr>has_deferred_broadcast := False\<rparr>) s1 else s1) in
            (count, if count > 0 then bump_version s2 else s2))"

section \<open>The vote check of the protocol trait\<close>

definition should_accept_vote :: "u64 \<Rightarrow> u64 \<Rightarrow> u64 \<Rightarrow> SharedState \<Rightarrow> bool" where
  "should_accept_vote t last_log_term' last_log_index' s =
     (if term_votes s t \<noteq> None then False
      else if t \<le> current_term (server_state s) then False
      else if last_log_index' < last_log_index (vol s) then False
      else True)"

section \<open>The delegates and state changes\<close>

record ElectionTimer =
  election_timeout :: u128
  election_timeout_min :: u128
  election_timeout_max :: u128

record RaftFollowerStateDelegate =
  election_timer :: ElectionTimer

record OngoingElection =
  oe_term :: u64
  started_millis :: u128

record RaftCandidateStateDelegate =
  initiate_election_timeout :: u128
  ongoing_election :: "OngoingElection option"

record RaftLeaderStateDelegate =
  leader_election_timeout :: u128
  initialized :: bool

datatype RaftNodeType = Node_Follower | Node_Candidate | Node_Leader

datatype RaftMessageStateChange =
    SC_None
  | SC_Follower RaftFollowerStateDelegate
  | SC_Candidate RaftCandidateStateDelegate
  | SC_Leader RaftLeaderStateDelegate

text \<open>
  One reading of the environment: the wall clock and the answers of the thread's
  random generator to \<open>gen_range(lo..hi)\<close>.
\<close>

record env =
  now_millis :: u128
  gen_range :: "u128 \<Rightarrow> u128 \<Rightarrow> u128"

definition now_plus_duration_millis :: "env \<Rightarrow> u128 \<Rightarrow> u128" where
  "now_plus_duration_millis ev d = now_millis ev + d"

text \<open>\<open>Duration::from_millis(x as u64)\<close>, in milliseconds.\<close>

definition from_millis :: "u128 \<Rightarrow> u128" where
  "from_millis x = ucast (ucast x :: u64)"

definition new_election_timer :: "env \<Rightarrow> ElectionTimer" where
  "new_election_timer ev =
     \<lparr> election_timeout = now_plus_duration_millis ev (from_millis (gen_range ev 600 1300)),
       election_timeout_min = 600, election_timeout_max = 1300 \<rparr>"

definition new_follower :: "env \<Rightarrow> RaftFollowerStateDelegate" where
  "new_follower ev = \<lparr> election_timer = new_election_timer ev \<rparr>"

definition new_candidate :: RaftCandidateStateDelegate where
  "new_candidate = \<lparr> initiate_election_timeout = 0, ongoing_election = None \<rparr>"

definition new_leader :: "env \<Rightarrow> RaftLeaderStateDelegate" where
  "new_leader ev =
     \<lparr> leader_election_timeout = now_millis ev + gen_range ev 32 128, initialized = False \<rparr>"

section \<open>Lemmas on the small operations\<close>

declare retry_entry.simps [simp del] bus_full_loop.simps [simp del]

lemma upd_vol_simps [simp]:
  "volatile_server_state (upd_vol f s) = f (vol s)"
  "server_state (upd_vol f s) = server_state s"
  "persistence_work (upd_vol f s) = persistence_work s"
  "persistence_connected (upd_vol f s) = persistence_connected s"
  "persistence_response (upd_vol f s) = persistence_response s"
  "quorum_response (upd_vol f s) = quorum_response s"
  "identity (upd_vol f s) = identity s"
  "term_votes (upd_vol f s) = term_votes s"
  "next_message_id (upd_vol f s) = next_message_id s"
  "outstanding_messages (upd_vol f s) = outstanding_messages s"
  "quorum_size (upd_vol f s) = quorum_size s"
  "quorum_worker_tasks (upd_vol f s) = quorum_worker_tasks s"
  "log_entry_bus (upd_vol f s) = log_entry_bus s"
  "receiver_alive (upd_vol f s) = receiver_alive s"
  "responses (upd_vol f s) = responses s"
  by (simp_all add: upd_vol_def)

lemma send_callback_simps [simp]:
  "volatile_server_state (send_callback cb r s) = vol s"
  "server_state (send_callback cb r s) = server_state s"
  "persistence_work (send_callback cb r s) = persistence_work s"
  "persistence_connected (send_callback cb r s) = persistence_connected s"
  "persistence_response (send_callback cb r s) = persistence_response s"
  "quorum_response (send_callback cb r s) = quorum_response s"
  "identity (send_callback cb r s) = identity s"
  "term_votes (send_callback cb r s) = term_votes s"
  "next_message_id (send_callback cb r s) = next_message_id s"
  "outstanding_messages (send_callback cb r s) = outstanding_messages s"
  "quorum_size (send_callback cb r s) = quorum_size s"
  "quorum_worker_tasks (send_callback cb r s) = quorum_worker_tasks s"
  "log_entry_bus (send_callback cb r s) = log_entry_bus s"
  "receiver_alive (send_callback cb r s) = receiver_alive s"
  by (simp_all add: send_callback_def)

lemma send_callback_responses:
  "responses (send_callback cb r s) = responses s @ (if receiver_alive s cb then [(cb, r)] else [])"
  by (simp add: send_callback_def)

lemma send_callback_unwrap_Inr:
  "send_callback_unwrap cb r s = Inr s' \<longleftrightarrow> receiver_alive s cb \<and> s' = send_callback cb r s"
  by (auto simp: send_callback_unwrap_def send_callback_def)

end
