(* ===== verification/Startup_State.thy ===== *)
theory Startup_State
  imports Raft_State
begin

text \<open>
  The state a node starts from (\<open>startup/state.rs\<close>) and the quorum size that
  \<open>main.rs\<close> computes from the configured cluster. The queues are empty at
  start and the persistence worker's receiver exists. The behaviour of the bus
  and of the callbacks' receivers is an argument.
\<close>

record RecoveredData =
  rd_replication_log :: "OwnedLogEntry list"
  rd_term_start_index :: "u64 \<rightharpoonup> u64"
  rd_last_log_index :: u64
  rd_last_log_term :: u64
  rd_term_votes :: "u64 \<rightharpoonup> u32"
  rd_next_term :: u64
  rd_log_entry_end_offsets :: "u64 list"

definition create_commit_state :: CommitState where
  "create_commit_state = \<lparr> cs_commit_index = 0, cs_version = 0 \<rparr>"

definition create_server_state :: RaftServerState where
  "create_server_state = \<lparr> current_term = 0, leader_id = 0 \<rparr>"

definition create_volatile_state :: "RecoveredData \<Rightarrow> CommitState \<Rightarrow> RaftVolatileState" where
  "create_volatile_state recovered cs =
     \<lparr> commit_index = 0,
       last_applied = 0,
       last_log_index = rd_last_log_index recovered,
       last_log_term = rd_last_log_term recovered,
       next_term = rd_next_term recovered,
       next_log_index = rd_last_log_index recovered + 1,
       replication_log = rd_replication_log recovered,
       replication_log_term_starts = rd_term_start_index recovered,
       commit_state = cs,
       last_broadcast_index = None,
       has_deferred_broadcast = False \<rparr>"

definition create_shared_state ::
  "(nat \<Rightarrow> bool) \<Rightarrow> (callback \<Rightarrow> bool) \<Rightarrow> RecoveredData \<Rightarrow> CommitState \<Rightarrow> nat \<Rightarrow> u32 \<Rightarrow> u32 \<Rightarrow> usize \<Rightarrow> SharedState" where
  "create_shared_state bus_answers alive recovered cs workers node_id qsize max_size =
     \<lparr> server_state = create_server_state,
       volatile_server_state = create_volatile_state recovered cs,
       persistence_work = [],
       persistence_connected = True,
       persistence_response = [],
       quorum_work = [],
       quorum_response = [],
       identity = node_id,
       term_votes = rd_term_votes recovered,
       next_message_id = 0,
       outstanding_messages = (\<lambda>_. None),
       quorum_size = qsize,
       quorum_worker_tasks = replicate workers [],
       max_message_size_bytes = max_size,
       log_entry_bus = \<lparr> delivered = [], answers = bus_answers, attempts = 0 \<rparr>,
       receiver_alive = alive,
       responses = [] \<rparr>"

text \<open>\<open>(cfg.cluster_nodes.len() as u32).div_ceil(2)\<close>\<close>

definition cluster_quorum_size :: "nat \<Rightarrow> u32" where
  "cluster_quorum_size cluster_nodes =
     (let n = (of_nat cluster_nodes :: u32) in if n mod 2 = 0 then n div 2 else n div 2 + 1)"

end
