(* ===== verification/Broadcast.thy ===== *)
theory Broadcast
  imports Startup_State
begin

text \<open>
  What the three broadcast operations of \<open>SharedState\<close> do to the bus and what
  they leave alone. \<open>core\<close> is the state with everything broadcasting may change
  blanked out, so one equation \<open>core s' = core s\<close> frames a whole operation.
  \<open>broadcast_inv\<close> says that the bus has received exactly the entries up to the
  recorded position, in log order.
\<close>

text \<open>
  The part of the state that broadcasting does not touch: the bus, the position
  of the last broadcast, the deferral flag and the version counter are blanked.
\<close>

definition core :: "SharedState \<Rightarrow> SharedState" where
  "core s = upd_vol (\<lambda>v. v\<lparr>last_broadcast_index := None, has_deferred_broadcast := False,
                           commit_state := (commit_state v)\<lparr>cs_version := 0\<rparr>\<rparr>)
              (s\<lparr>log_entry_bus := \<lparr>delivered = [], answers = (\<lambda>_. False), attempts = 0\<rparr>\<rparr>)"

lemma core_try_broadcast: "core (snd (try_broadcast e s)) = core s"
  by (simp add: core_def try_broadcast_def upd_vol_def Let_def)

lemma core_bump_version [simp]: "core (bump_version s) = core s"
  by (simp add: core_def bump_version_def upd_vol_def)

lemma core_simps [simp]:
  "raft_log (core s) = raft_log s"
  "server_state (core s) = server_state s"
  "commit_index (vol (core s)) = commit_index (vol s)"
  "last_applied (vol (core s)) = last_applied (vol s)"
  "last_log_index (vol (core s)) = last_log_index (vol s)"
  "last_log_term (vol (core s)) = last_log_term (vol s)"
  "next_term (vol (core s)) = next_term (vol s)"
  "next_log_index (vol (core s)) = next_log_index (vol s)"
  "replication_log_term_starts (vol (core s)) = replication_log_term_starts (vol s)"
  "cs_commit_index (commit_state (vol (core s))) = cs_commit_index (commit_state (vol s))"
  "persistence_work (core s) = persistence_work s"
  "persistence_connected (core s) = persistence_connected s"
  "persistence_response (core s) = persistence_response s"
  "quorum_response (core s) = quorum_response s"
  "identity (core s) = identity s"
  "term_votes (core s) = term_votes s"
  "next_message_id (core s) = next_message_id s"
  "outstanding_messages (core s) = outstanding_messages s"
  "quorum_size (core s) = quorum_size s"
  "quorum_worker_tasks (core s) = quorum_worker_tasks s"
  "receiver_alive (core s) = receiver_alive s"
  "responses (core s) = responses s"
  by (simp_all add: core_def)

lemma core_eqD:
  assumes "core s' = core s"
  shows "raft_log s' = raft_log s"
    "server_state s' = server_state s"
    "commit_index (vol s') = commit_index (vol s)"
    "last_applied (vol s') = last_applied (vol s)"
    "last_log_index (vol s') = last_log_index (vol s)"
    "last_log_term (vol s') = last_log_term (vol s)"
    "next_term (vol s') = next_term (vol s)"
    "next_log_index (vol s') = next_log_index (vol s)"
    "replication_log_term_starts (vol s') = replication_log_term_starts (vol s)"
    "cs_commit_index (commit_state (vol s')) = cs_commit_index (commit_state (vol s))"
    "persistence_work s' = persistence_work s"
    "persistence_connected s' = persistence_connected s"
    "persistence_response s' = persistence_response s"
    "quorum_response s' = quorum_response s"
    "identity s' = identity s"
    "term_votes s' = term_votes s"
    "next_message_id s' = next_message_id s"
    "outstanding_messages s' = outstanding_messages s"
    "quorum_size s' = quorum_size s"
    "quorum_worker_tasks s' = quorum_worker_tasks s"
    "receiver_alive s' = receiver_alive s"
    "responses s' = responses s"
  using core_simps [of s', unfolded assms, unfolded core_simps] by simp_all

lemma try_broadcast_cases:
  obtains (accepted) s' where "try_broadcast e s = (True, s')" "core s' = core s" "vol s' = vol s"
      "delivered (log_entry_bus s') = delivered (log_entry_bus s) @ [e]"
      "attempts (log_entry_bus s') = Suc (attempts (log_entry_bus s))"
      "answers (log_entry_bus s') = answers (log_entry_bus s)"
      "answers (log_entry_bus s) (attempts (log_entry_bus s))"
  | (refused) s' where "try_broadcast e s = (False, s')" "core s' = core s" "vol s' = vol s"
      "delivered (log_entry_bus s') = delivered (log_entry_bus s)"
      "attempts (log_entry_bus s') = Suc (attempts (log_entry_bus s))"
      "answers (log_entry_bus s') = answers (log_entry_bus s)"
      "\<not> answers (log_entry_bus s) (attempts (log_entry_bus s))"
proof (cases "answers (log_entry_bus s) (attempts (log_entry_bus s))")
  case True
  show thesis
    by (rule accepted [of "snd (try_broadcast e s)"])
       (simp_all only: core_try_broadcast, simp_all add: True try_broadcast_def Let_def)
next
  case False
  show thesis
    by (rule refused [of "snd (try_broadcast e s)"])
       (simp_all only: core_try_broadcast, simp_all add: False try_broadcast_def Let_def)
qed

lemma bump_version_simps [simp]:
  "log_entry_bus (bump_version s) = log_entry_bus s"
  "raft_log (bump_version s) = raft_log s"
  "last_broadcast_index (vol (bump_version s)) = last_broadcast_index (vol s)"
  by (simp_all add: bump_version_def)

lemma retry_entry_spec:
  assumes "retry_entry e r s = (ok, s')"
  shows "core s' = core s \<and>
         answers (log_entry_bus s') = answers (log_entry_bus s) \<and>
         last_broadcast_index (vol s') = last_broadcast_index (vol s) \<and>
         delivered (log_entry_bus s') = delivered (log_entry_bus s) @ (if ok then [e] else [])"
  using assms
proof (induction e r s arbitrary: ok s' rule: retry_entry.induct)
  case (1 e r s)
  show ?case
  proof (cases e s rule: try_broadcast_cases)
    case (accepted t)
    with 1(2) show ?thesis by (subst (asm) retry_entry.simps) auto
  next
    case (refused t)
    show ?thesis
    proof (cases "Suc r \<ge> MAX_RETRIES_PER_ENTRY")
      case True
      with 1(2) refused show ?thesis by (subst (asm) retry_entry.simps) auto
    next
      case False
      with 1(2) refused
      have eq: "retry_entry e (Suc r) (if Suc r mod YIELD_INTERVAL = 0 then bump_version t else t) = (ok, s')"
        by (subst (asm) retry_entry.simps) auto
      from 1(1) [OF _ _ _ _ eq] refused False show ?thesis
        by (fastforce split: if_splits)
    qed
  qed
qed

lemma retry_entry_accepts:
  assumes "answers (log_entry_bus s) (attempts (log_entry_bus s) + k)" "k + r < MAX_RETRIES_PER_ENTRY"
  shows "fst (retry_entry e r s)"
  using assms
proof (induction k arbitrary: r s)
  case 0
  then show ?case
    by (cases e s rule: try_broadcast_cases) (subst retry_entry.simps; auto)+
next
  case (Suc k)
  show ?case
  proof (cases e s rule: try_broadcast_cases)
    case (accepted t)
    then show ?thesis by (subst retry_entry.simps) auto
  next
    case (refused t)
    with Suc.prems Suc.IH [of "if Suc r mod YIELD_INTERVAL = 0 then bump_version t else t" "Suc r"]
    show ?thesis by (subst retry_entry.simps) auto
  qed
qed


text \<open>The first \<open>n\<close> entries of the log, and no others, have been handed to the bus, in order.\<close>

definition delivered_upto :: "nat \<Rightarrow> SharedState \<Rightarrow> bool" where
  "delivered_upto n s \<longleftrightarrow>
     n \<le> length (raft_log s) \<and> delivered (log_entry_bus s) = take n (raft_log s)"

definition broadcast_inv :: "SharedState \<Rightarrow> bool" where
  "broadcast_inv s \<longleftrightarrow>
     length (raft_log s) < 2 ^ 63 \<and>
     (case last_broadcast_index (vol s) of
        None \<Rightarrow> delivered_upto 0 s
      | Some l \<Rightarrow> delivered_upto (Suc (unat l)) s)"

text \<open>Among any hundred consecutive attempts the bus accepts at least one.\<close>

definition bus_live :: "SharedState \<Rightarrow> bool" where
  "bus_live s \<longleftrightarrow> (\<forall>n. \<exists>k < MAX_RETRIES_PER_ENTRY. answers (log_entry_bus s) (n + k))"

lemma delivered_upto_step:
  assumes "delivered_upto i s" "i < length (raft_log s)" "raft_log s' = raft_log s"
    "delivered (log_entry_bus s') = delivered (log_entry_bus s) @ [raft_log s ! i]"
  shows "delivered_upto (Suc i) s'"
  using assms by (simp add: delivered_upto_def take_Suc_nth)

lemma delivered_upto_cong:
  assumes "delivered_upto i s" "raft_log s' = raft_log s"
    "delivered (log_entry_bus s') = delivered (log_entry_bus s)"
  shows "delivered_upto i s'"
  using assms by (simp add: delivered_upto_def)

lemma bus_full_loop_spec:
  assumes "bus_full_loop n st idx s = (l, s')"
    and "delivered_upto idx s" "st \<le> idx" "idx \<le> Suc n" "st \<le> n" "n < length (raft_log s)"
  shows "core s' = core s \<and> st \<le> l \<and> l \<le> n \<and>
         answers (log_entry_bus s') = answers (log_entry_bus s) \<and>
         last_broadcast_index (vol s') = last_broadcast_index (vol s) \<and>
         (delivered_upto (Suc l) s' \<or> l = st \<and> delivered_upto st s') \<and>
         (bus_live s \<longrightarrow> l = n \<and> delivered_upto (Suc n) s')"
  using assms
proof (induction n st idx s arbitrary: l s' rule: bus_full_loop.induct)
  case (1 n st idx s)
  show ?case
  proof (cases "idx \<le> n")
    case False
    then have "idx = Suc n" using 1 by simp
    with 1 show ?thesis by (subst (asm) bus_full_loop.simps) auto
  next
    case True
    with 1 have i: "idx < length (raft_log s)" by simp
    obtain ok t where r: "retry_entry (raft_log s ! idx) 0 s = (ok, t)" by fastforce
    note spec = retry_entry_spec [OF r]
    from spec have log: "raft_log t = raft_log s" by (metis core_eqD(1))
    show ?thesis
    proof (cases ok)
      case ok: True
      have d: "delivered_upto (Suc idx) t"
        using delivered_upto_step [OF 1(3) i log] spec ok by simp
      have eq: "bus_full_loop n st (Suc idx) t = (l, s')"
        using 1(2) True i r ok by (subst (asm) bus_full_loop.simps) simp
      have "bus_live t = bus_live s"
        using spec by (simp add: bus_live_def)
      with 1(1) [OF True get_opt_Some [OF i] refl r [symmetric] ok eq d] 1 spec log True
      show ?thesis by simp
    next
      case no: False
      have eq: "l = (if idx > st then idx - 1 else st)" "s' = t"
        using 1(2) True i r no by (subst (asm) bus_full_loop.simps; simp)+
      have d: "delivered_upto idx t"
        using delivered_upto_cong [OF 1(3) log] spec no by simp
      have "\<not> bus_live s"
      proof
        assume "bus_live s"
        then obtain k where "k < MAX_RETRIES_PER_ENTRY"
          "answers (log_entry_bus s) (attempts (log_entry_bus s) + k)"
          by (auto simp: bus_live_def)
        then show False using retry_entry_accepts [of s k 0 "raft_log s ! idx"] r no by simp
      qed
      with eq d spec 1 True show ?thesis by auto
    qed
  qed
qed

lemma broadcast_loop_spec:
  assumes "broadcast_loop [i ..< Suc (unat nc)] nc lst s = (l, s')"
    and "delivered_upto i s" "i \<le> Suc (unat nc)" "i = Suc (unat nc) \<longrightarrow> lst = nc"
    and "unat nc < length (raft_log s)"
  shows "core s' = core s \<and> i \<le> Suc (unat l) \<and> l \<le> nc \<and>
         answers (log_entry_bus s') = answers (log_entry_bus s) \<and>
         (delivered_upto (Suc (unat l)) s' \<or> delivered_upto (unat l) s') \<and>
         (bus_live s \<longrightarrow> l = nc \<and> delivered_upto (Suc (unat nc)) s')"
  using assms
proof (induction "Suc (unat nc) - i" arbitrary: i lst s)
  case 0
  then show ?case by simp
next
  case (Suc d)
  then have i: "i \<le> unat nc" and len: "i < length (raft_log s)" by simp_all
  then have upt: "[i ..< Suc (unat nc)] = i # [Suc i ..< Suc (unat nc)]"
    by (simp add: upt_conv_Cons)
  have ui: "unat (of_nat i :: u64) = i" using i by (rule unat_of_nat_below)
  show ?case
  proof (cases "raft_log s ! i" s rule: try_broadcast_cases)
    case (accepted t)
    then have log: "raft_log t = raft_log s" by simp
    have eq: "broadcast_loop [Suc i ..< Suc (unat nc)] nc (of_nat i) t = (l, s')"
      using Suc.prems(1) upt len accepted by simp
    have d: "delivered_upto (Suc i) t"
      using delivered_upto_step [OF Suc.prems(2) len log] accepted by simp
    have lst: "Suc i = Suc (unat nc) \<longrightarrow> (of_nat i :: u64) = nc" by simp
    have live: "bus_live t = bus_live s" using accepted by (simp add: bus_live_def)
    have m: "d = Suc (unat nc) - Suc i" using Suc.hyps(2) by simp
    from Suc.hyps(1) [OF m eq d _ lst] Suc.prems(5) i log accepted live
    show ?thesis by simp
  next
    case (refused t)
    then have log: "raft_log t = raft_log s" by simp
    obtain k u where f: "bus_full_loop (unat nc) i i (bump_version t) = (k, u)" by fastforce
    have eq: "l = of_nat k" "s' = u"
      using Suc.prems(1) upt len refused f
      by (simp_all add: broadcast_committed_entries_when_bus_full_def)
    have d: "delivered_upto i (bump_version t)"
      using delivered_upto_cong [OF Suc.prems(2)] log refused by simp
    have live: "bus_live (bump_version t) = bus_live s" using refused by (simp add: bus_live_def)
    note spec = bus_full_loop_spec [OF f d order_refl le_SucI [OF i] i]
    have k: "k \<le> unat nc" using spec Suc.prems(5) log by simp
    then have uk: "unat l = k" using eq unat_of_nat_below by simp
    then have "l \<le> nc" using k by (simp add: word_le_nat_alt)
    with spec Suc.prems(5) log refused eq uk live show ?thesis by auto
  qed
qed

lemma broadcast_start_index_unat:
  assumes "broadcast_inv s"
  shows "delivered_upto (unat (broadcast_start_index s)) s"
proof (cases "last_broadcast_index (vol s)")
  case None
  with assms show ?thesis by (simp add: broadcast_inv_def broadcast_start_index_def)
next
  case (Some l)
  then have "Suc (unat l) < 2 ^ 63"
    using assms by (simp add: broadcast_inv_def delivered_upto_def)
  then have "l \<noteq> u64_max" by (intro u64_not_max) simp
  with Some assms show ?thesis
    by (simp add: broadcast_inv_def broadcast_start_index_def unat_inc)
qed



lemma core_upd_broadcast [simp]:
  "core (upd_vol (\<lambda>v. v\<lparr>last_broadcast_index := a\<rparr>) s) = core s"
  "core (upd_vol (\<lambda>v. v\<lparr>has_deferred_broadcast := b\<rparr>) s) = core s"
  "core (upd_vol (\<lambda>v. v\<lparr>last_broadcast_index := a, has_deferred_broadcast := b\<rparr>) s) = core s"
  by (simp_all add: core_def upd_vol_def)

lemma retry_entry_core: "core (snd (retry_entry e r s)) = core s"
  using retry_entry_spec [of e r s] by (metis surjective_pairing)

lemma bus_full_loop_core: "core (snd (bus_full_loop n st idx s)) = core s"
proof (induction n st idx s rule: bus_full_loop.induct)
  case (1 n st idx s)
  show ?case
  proof (cases "idx \<le> n \<and> idx < length (raft_log s)")
    case True
    obtain ok t where r: "retry_entry (raft_log s ! idx) 0 s = (ok, t)" by fastforce
    then have t: "core t = core s" using retry_entry_core by (metis snd_conv)
    show ?thesis
    proof (cases ok)
      case ok: True
      from True have "idx \<le> n" "get_opt (raft_log s) idx = Some (raft_log s ! idx)" by simp_all
      from 1 [OF this refl r [symmetric] ok] t True r ok show ?thesis
        by (subst bus_full_loop.simps) simp
    next
      case False
      with True r t show ?thesis by (subst bus_full_loop.simps) simp
    qed
  next
    case False
    then show ?thesis by (subst bus_full_loop.simps) (auto simp: get_opt_def)
  qed
qed

lemma broadcast_loop_core: "core (snd (broadcast_loop is nc lst s)) = core s"
proof (induction "is" arbitrary: lst s)
  case (Cons i "is")
  show ?case
  proof (cases "i < length (raft_log s)")
    case True
    show ?thesis
    proof (cases "raft_log s ! i" s rule: try_broadcast_cases)
      case (accepted t)
      with True Cons show ?thesis by simp
    next
      case (refused t)
      with True bus_full_loop_core [of "unat nc" i i "bump_version t"] show ?thesis
        by (simp add: broadcast_committed_entries_when_bus_full_def split_beta)
    qed
  next
    case False
    with Cons show ?thesis by simp
  qed
qed simp

lemma broadcast_committed_entries_core [simp]:
  "core (broadcast_committed_entries nc s) = core s"
  using broadcast_loop_core [of "[unat (broadcast_start_index s) ..< Suc (unat nc)]" nc 0 s]
  by (simp add: broadcast_committed_entries_def Let_def split_beta del: upt_Suc)

lemma retry_loop_core: "core (snd (snd (retry_loop is count s))) = core s"
proof (induction "is" arbitrary: count s)
  case (Cons i "is")
  show ?case
  proof (cases "i < length (raft_log s)")
    case True
    with Cons show ?thesis
      by (cases "raft_log s ! i" s rule: try_broadcast_cases) simp_all
  next
    case False
    with Cons show ?thesis by simp
  qed
qed simp

lemma retry_deferred_broadcast_core [simp]: "core (snd (retry_deferred_broadcast s)) = core s"
proof -
  let ?e = "min (commit_index (vol s)) (broadcast_start_index s + MAX_BROADCAST_PER_TIMESTEP - 1)"
  show ?thesis
    using retry_loop_core [of "[unat (broadcast_start_index s) ..< Suc (unat ?e)]" 0 s]
    by (simp add: retry_deferred_broadcast_def Let_def split_beta del: upt_Suc)
qed

lemma bump_version_delivered [simp]:
  "delivered_upto n (bump_version s) = delivered_upto n s"
  "broadcast_inv (bump_version s) = broadcast_inv s"
  by (simp_all add: delivered_upto_def broadcast_inv_def split: option.splits)

lemma delivered_upto_upd_vol [simp]:
  "(\<And>v. replication_log (f v) = replication_log v) \<Longrightarrow> delivered_upto n (upd_vol f s) = delivered_upto n s"
  by (simp add: delivered_upto_def)

lemma broadcast_committed_entries_live:
  assumes "broadcast_inv s" "unat nc < length (raft_log s)" "bus_live s"
  shows "broadcast_inv (broadcast_committed_entries nc s)"
    and "broadcast_start_index s \<le> nc \<Longrightarrow>
           last_broadcast_index (vol (broadcast_committed_entries nc s)) = Some nc"
proof -
  let ?i = "unat (broadcast_start_index s)"
  obtain l t where b: "broadcast_loop [?i ..< Suc (unat nc)] nc 0 s = (l, t)" by fastforce
  have *: "broadcast_inv (broadcast_committed_entries nc s) \<and>
        last_broadcast_index (vol (broadcast_committed_entries nc s)) = Some nc"
    if le: "broadcast_start_index s \<le> nc"
  proof -
    from le have i: "?i \<le> unat nc" by (simp add: word_le_nat_alt)
    have spec: "core t = core s" "l = nc" "delivered_upto (Suc (unat nc)) t"
      using broadcast_loop_spec [OF b broadcast_start_index_unat [OF assms(1)]] i assms(2,3) by auto
    have "length (raft_log t) < 2 ^ 63"
      using core_eqD(1) [OF spec(1)] assms(1) by (simp add: broadcast_inv_def)
    moreover from le b have "broadcast_committed_entries nc s =
        bump_version (upd_vol (\<lambda>v. v\<lparr>last_broadcast_index := Some l,
                                    has_deferred_broadcast := (l < nc)\<rparr>) t)"
      by (simp add: broadcast_committed_entries_def Let_def del: upt_Suc)
    ultimately show ?thesis using spec
      by (simp add: broadcast_inv_def)
  qed
  show "broadcast_start_index s \<le> nc \<Longrightarrow>
           last_broadcast_index (vol (broadcast_committed_entries nc s)) = Some nc"
    using * by simp
  show "broadcast_inv (broadcast_committed_entries nc s)"
  proof (cases "broadcast_start_index s \<le> nc")
    case False
    then have "nc < broadcast_start_index s" by simp
    with assms(1) show ?thesis by (simp add: broadcast_committed_entries_def Let_def)
  qed (use * in simp)
qed

lemma retry_loop_out_of_range:
  "retry_loop [i ..< j] c s = (c', full, s') \<Longrightarrow> length (raft_log s) \<le> i \<Longrightarrow> s' = s"
proof (induction "j - i" arbitrary: i c)
  case (Suc d)
  then have "[i ..< j] = i # [Suc i ..< j]" by (simp add: upt_conv_Cons)
  with Suc.prems have "retry_loop [Suc i ..< j] c s = (c', full, s')" by simp
  with Suc.hyps Suc.prems(2) show ?case by (metis Suc_diff_Suc diff_Suc_Suc le_SucI nat.inject zero_less_Suc zero_less_diff)
qed simp

lemma retry_loop_inv:
  assumes "retry_loop [i ..< Suc (unat (e :: u64))] c s = (c', full, s')"
    and "delivered_upto i s" "broadcast_inv s"
  shows "broadcast_inv s'"
  using assms
proof (induction "Suc (unat e) - i" arbitrary: i c s)
  case 0
  then show ?case by simp
next
  case (Suc d)
  then have i: "i \<le> unat e" and m: "d = Suc (unat e) - Suc i" by simp_all
  then have upt: "[i ..< Suc (unat e)] = i # [Suc i ..< Suc (unat e)]"
    by (simp add: upt_conv_Cons)
  have ui: "unat (of_nat i :: u64) = i" using i by (rule unat_of_nat_below)
  show ?case
  proof (cases "i < length (raft_log s)")
    case len: True
    show ?thesis
    proof (cases "raft_log s ! i" s rule: try_broadcast_cases)
      case (accepted t)
      let ?t = "upd_vol (\<lambda>v. v\<lparr>last_broadcast_index := Some (of_nat i)\<rparr>) t"
      have eq: "retry_loop [Suc i ..< Suc (unat e)] (c + 1) ?t = (c', full, s')"
        using Suc.prems(1) upt len accepted by simp
      have d: "delivered_upto (Suc i) ?t"
        using delivered_upto_step [OF Suc.prems(2) len, of ?t] accepted by simp
      have "broadcast_inv ?t"
        using d Suc.prems(3) accepted ui by (simp add: broadcast_inv_def)
      with Suc.hyps(1) [OF m eq d] show ?thesis .
    next
      case (refused t)
      then have "s' = t" using Suc.prems(1) upt len by simp
      with refused Suc.prems(3) show ?thesis
        by (simp add: broadcast_inv_def delivered_upto_def split: option.splits)
    qed
  next
    case False
    then have "s' = s"
      using retry_loop_out_of_range [OF Suc.prems(1)] by simp
    with Suc.prems show ?thesis by simp
  qed
qed

lemma retry_deferred_broadcast_inv:
  assumes "broadcast_inv s"
  shows "broadcast_inv (snd (retry_deferred_broadcast s))"
proof -
  let ?st = "broadcast_start_index s"
  let ?e = "min (commit_index (vol s)) (?st + MAX_BROADCAST_PER_TIMESTEP - 1)"
  obtain c full t where r: "retry_loop [unat ?st ..< Suc (unat ?e)] 0 s = (c, full, t)"
    by (metis prod_cases3)
  have "broadcast_inv t"
    using retry_loop_inv [OF r broadcast_start_index_unat [OF assms] assms] .
  moreover have "broadcast_inv (upd_vol (\<lambda>v. v\<lparr>has_deferred_broadcast := False\<rparr>) u) = broadcast_inv u" for u
    by (simp add: broadcast_inv_def split: option.splits)
  ultimately show ?thesis
    using assms r by (simp add: retry_deferred_broadcast_def Let_def del: upt_Suc)
qed

text \<open>Whatever the bus answers, at most the entry at the new position is missing from it.\<close>

lemma broadcast_committed_entries_any_bus:
  assumes "broadcast_inv s" "unat nc < length (raft_log s)" "broadcast_start_index s \<le> nc"
  obtains l where "last_broadcast_index (vol (broadcast_committed_entries nc s)) = Some l"
    "broadcast_start_index s \<le> l + 1" "l \<le> nc"
    "delivered_upto (Suc (unat l)) (broadcast_committed_entries nc s) \<or>
     delivered_upto (unat l) (broadcast_committed_entries nc s)"
proof -
  let ?i = "unat (broadcast_start_index s)"
  obtain l t where b: "broadcast_loop [?i ..< Suc (unat nc)] nc 0 s = (l, t)" by fastforce
  from assms(3) have i: "?i \<le> unat nc" by (simp add: word_le_nat_alt)
  have spec: "core t = core s" "?i \<le> Suc (unat l)" "l \<le> nc"
      "delivered_upto (Suc (unat l)) t \<or> delivered_upto (unat l) t"
    using broadcast_loop_spec [OF b broadcast_start_index_unat [OF assms(1)]] i assms(2) by auto
  have "unat l < 2 ^ 63"
    using spec(3) assms(1,2) by (simp add: word_le_nat_alt broadcast_inv_def)
  then have "l \<noteq> u64_max" by (intro u64_not_max) simp
  with spec(2) have "broadcast_start_index s \<le> l + 1"
    by (simp add: word_le_nat_alt unat_inc)
  moreover have "broadcast_committed_entries nc s =
      bump_version (upd_vol (\<lambda>v. v\<lparr>last_broadcast_index := Some l,
                                  has_deferred_broadcast := (l < nc)\<rparr>) t)"
    using assms(3) b by (simp add: broadcast_committed_entries_def Let_def del: upt_Suc)
  ultimately show thesis using that [of l] spec by simp
qed
end
