(* ===== verification/Follower.thy ===== *)
theory Follower
  imports Broadcast
begin

text \<open>
  The follower delegate: \<open>raft/follower/append_entries.rs\<close>,
  \<open>raft/follower/election.rs\<close> and \<open>raft/follower/mod.rs\<close>. A handler returns
  the delegate (its election timer may have been reset) and the shared state; a
  handler whose callback is unwrapped may panic instead.
\<close>

section \<open>The election timer\<close>

definition reset_timer :: "env \<Rightarrow> ElectionTimer \<Rightarrow> ElectionTimer" where
  "reset_timer ev t =
     t\<lparr>election_timeout := now_plus_duration_millis ev
         (from_millis (gen_range ev (election_timeout_min t) (election_timeout_max t)))\<rparr>"

definition check_timeout :: "env \<Rightarrow> ElectionTimer \<Rightarrow> RaftMessageStateChange option" where
  "check_timeout ev t =
     (if election_timeout t < now_millis ev then Some (SC_Candidate new_candidate) else None)"

section \<open>Append entries\<close>

definition validate_append_entries :: "LocalAppendEntries \<Rightarrow> u64 \<Rightarrow> u64 \<Rightarrow> bool" where
  "validate_append_entries request last_index last_term =
     (ae_prev_index request = last_index \<and> ae_prev_term request = last_term)"

definition update_commit_index :: "u64 \<Rightarrow> SharedState \<Rightarrow> SharedState" where
  "update_commit_index new_commit_index s =
     broadcast_committed_entries new_commit_index
       (bump_version
         (upd_vol (\<lambda>v. v\<lparr>commit_index := new_commit_index,
                         commit_state := (commit_state v)\<lparr>cs_commit_index := new_commit_index\<rparr>\<rparr>) s))"

definition wanted_previous_entry :: "SharedState \<Rightarrow> LocalRaftResponsePayload" where
  "wanted_previous_entry s =
     Resp_AppendEntries (AE_WantedPreviousEntry (last_log_term (vol s)) (last_log_index (vol s)))"

text \<open>The first step of \<open>apply_log_entry\<close>: the log position moves to the entry of the request.\<close>

definition note_entry :: "LogEntry \<Rightarrow> SharedState \<Rightarrow> SharedState" where
  "note_entry entry s =
     upd_vol (\<lambda>v. v\<lparr>last_log_index := le_index entry,
                    last_log_term := le_term entry,
                    replication_log_term_starts :=
                      (if le_prev_log_term entry \<noteq> le_term entry
                       then (replication_log_term_starts v)(le_term entry \<mapsto> of_nat (length (replication_log v)))
                       else replication_log_term_starts v)\<rparr>) s"

definition apply_log_entry :: "capnp \<Rightarrow> LocalAppendEntries \<Rightarrow> callback \<Rightarrow> SharedState \<Rightarrow> SharedState" where
  "apply_log_entry cp request cb s =
     (let message_id = next_message_id s;
          s1 = s\<lparr>next_message_id := message_id + 1\<rparr>;
          (data, s2) = (case ae_entry request of
                          Some entry \<Rightarrow> (le_data entry, note_entry entry s1)
                        | None \<Rightarrow> ([], s1)) in
      case log_entry_from_bytes cp data of
        None \<Rightarrow> send_callback cb (wanted_previous_entry s2) s2
      | Some owned_entry \<Rightarrow>
          (let (queued, s3) = persistence_send (PT_AppendLog message_id data (ae_request_id request)) s2 in
           if \<not> queued then send_callback cb (wanted_previous_entry s3) s3
           else
             let s4 = upd_vol (\<lambda>v. v\<lparr>replication_log := replication_log v @ [owned_entry]\<rparr>) s3;
                 s5 = (if ae_commit_index request > commit_index (vol s4)
                       then update_commit_index (ae_commit_index request) s4 else s4) in
             insert_outstanding message_id
               \<lparr> om_id = message_id, outstanding_responses = 1, message_type = OM_AppendLog cb \<rparr> s5))"

text \<open>Recognising a leader: shared by the follower, the candidate and the leader.\<close>

definition recognise_leader :: "LocalAppendEntries \<Rightarrow> SharedState \<Rightarrow> SharedState" where
  "recognise_leader request s =
     upd_vol (\<lambda>v. v\<lparr>next_term := ae_term request + 1\<rparr>)
       (s\<lparr>server_state := \<lparr> current_term = ae_term request, leader_id = ae_leader_id request \<rparr>\<rparr>)"

definition handle_new_leader ::
  "capnp \<Rightarrow> env \<Rightarrow> LocalAppendEntries \<Rightarrow> callback \<Rightarrow> SharedState \<Rightarrow> ElectionTimer \<Rightarrow> ElectionTimer \<times> SharedState" where
  "handle_new_leader cp ev request cb s t =
     (let s1 = recognise_leader request s;
          t1 = reset_timer ev t in
      (t1,
       if validate_append_entries request (last_log_index (vol s1)) (last_log_term (vol s1)) then
         (if ae_entry request \<noteq> None then apply_log_entry cp request cb s1
          else send_callback cb (Resp_AppendEntries AE_Ok) s1)
       else send_callback cb (wanted_previous_entry s1) s1))"

definition handle_heartbeat ::
  "env \<Rightarrow> LocalAppendEntries \<Rightarrow> callback \<Rightarrow> SharedState \<Rightarrow> ElectionTimer \<Rightarrow> ElectionTimer \<times> SharedState" where
  "handle_heartbeat ev request cb s t =
     (reset_timer ev t,
      if ae_prev_term request \<noteq> last_log_term (vol s) \<or> ae_prev_index request \<noteq> last_log_index (vol s)
      then send_callback cb (wanted_previous_entry s) s
      else
        let s1 = (if ae_commit_index request > commit_index (vol s) \<or> current_term (server_state s) \<noteq> ae_term request
                  then update_commit_index (ae_commit_index request) s else s) in
        send_callback cb (Resp_AppendEntries AE_Ok) s1)"

definition handle_non_consecutive_request ::
  "env \<Rightarrow> callback \<Rightarrow> SharedState \<Rightarrow> ElectionTimer \<Rightarrow> ElectionTimer \<times> SharedState" where
  "handle_non_consecutive_request ev cb s t =
     (reset_timer ev t, send_callback cb (wanted_previous_entry s) s)"

definition send_unrecognized_leader_response :: "callback \<Rightarrow> SharedState \<Rightarrow> SharedState" where
  "send_unrecognized_leader_response cb s = send_callback cb (Resp_AppendEntries AE_UnrecognizedLeader) s"

definition follower_append_entries ::
  "capnp \<Rightarrow> env \<Rightarrow> LocalAppendEntries \<Rightarrow> callback \<Rightarrow> RaftFollowerStateDelegate \<times> SharedState \<Rightarrow>
     RaftMessageStateChange \<times> RaftFollowerStateDelegate \<times> SharedState" where
  "follower_append_entries cp ev request cb = (\<lambda>(d, s).
     (let t = election_timer d;
          (t', s') =
            (if ae_term request > current_term (server_state s) then handle_new_leader cp ev request cb s t
             else if ae_leader_id request = leader_id (server_state s) then
               (if ae_request_id request = 0 then handle_heartbeat ev request cb s t
                else if \<not> validate_append_entries request (last_log_index (vol s)) (last_log_term (vol s))
                then handle_non_consecutive_request ev cb s t
                else (reset_timer ev t, apply_log_entry cp request cb s))
             else (reset_timer ev t, send_unrecognized_leader_response cb s))
      in (SC_None, d\<lparr>election_timer := t'\<rparr>, s')))"

section \<open>Persistence responses\<close>

definition follower_log_persisted :: "u64 \<Rightarrow> SharedState \<Rightarrow> SharedState" where
  "follower_log_persisted i s =
     (case outstanding_messages s i of
        None \<Rightarrow> s
      | Some msg \<Rightarrow>
          (let s1 = remove_outstanding i s in
           case message_type msg of
             OM_AppendLog cb \<Rightarrow> send_callback cb (Resp_AppendEntries AE_Ok) s1
           | _ \<Rightarrow> s1))"

definition follower_vote_persisted :: "u64 \<Rightarrow> SharedState \<Rightarrow> SharedState result" where
  "follower_vote_persisted i s =
     (case outstanding_messages s i of
        None \<Rightarrow> Inr s
      | Some msg \<Rightarrow>
          (let s1 = remove_outstanding i s in
           case message_type msg of
             OM_RequestVote cb \<Rightarrow> send_callback_unwrap cb (Resp_RequestVote True) s1
           | _ \<Rightarrow> Inr s1))"

definition follower_persistence_response :: "PersistenceResponseType \<Rightarrow> SharedState \<Rightarrow> SharedState result" where
  "follower_persistence_response r s =
     (case r of
        PR_LogPersisted i \<Rightarrow> Inr (follower_log_persisted i s)
      | PR_VotePersisted i _ _ \<Rightarrow> follower_vote_persisted i s)"

section \<open>Truncation\<close>

definition truncate_log :: "u64 \<Rightarrow> u64 \<Rightarrow> SharedState \<Rightarrow> SharedState" where
  "truncate_log prev_term prev_index s =
     (let target_length = unat (prev_index + 1) in
      if target_length < length (raft_log s) then
        snd (persistence_send (PT_TruncateLog target_length)
          (upd_vol (\<lambda>v. v\<lparr>replication_log := take target_length (replication_log v),
                          last_log_term := prev_term,
                          last_log_index := prev_index,
                          next_log_index := prev_index + 1,
                          replication_log_term_starts :=
                            (\<lambda>t. case replication_log_term_starts v t of
                                   Some start \<Rightarrow> if start \<le> prev_index then Some start else None
                                 | None \<Rightarrow> None)\<rparr>) s))
      else s)"

definition follower_quorum_response :: "LocalQuorumTaskResponseType \<Rightarrow> SharedState \<Rightarrow> SharedState" where
  "follower_quorum_response r s =
     (case r of
        QR_TruncateLog _ prev_term prev_index \<Rightarrow> bump_version (truncate_log prev_term prev_index s)
      | _ \<Rightarrow> s)"

section \<open>The time step\<close>

text \<open>
  A queue that other threads may still be filling is drained until a \<open>pop\<close>
  finds it empty: the list is the sequence of items the loop pops.
\<close>

definition follower_drain_persistence :: "SharedState \<Rightarrow> SharedState result" where
  "follower_drain_persistence s =
     fold_res follower_persistence_response (persistence_response s) (s\<lparr>persistence_response := []\<rparr>)"

definition follower_drain_quorum :: "SharedState \<Rightarrow> SharedState" where
  "follower_drain_quorum s =
     fold follower_quorum_response (quorum_response s) (s\<lparr>quorum_response := []\<rparr>)"

definition follower_time_step ::
  "env \<Rightarrow> RaftFollowerStateDelegate \<times> SharedState \<Rightarrow>
     (RaftMessageStateChange \<times> u64 \<times> RaftFollowerStateDelegate \<times> SharedState) result" where
  "follower_time_step ev = (\<lambda>(d, s).
     bind_res (follower_drain_persistence s) (\<lambda>s1.
       let work = of_nat (length (persistence_response s)) + of_nat (length (quorum_response s1));
           (count, s2) = retry_deferred_broadcast (follower_drain_quorum s1);
           work_done = work + count in
       Inr (case check_timeout ev (election_timer d) of
              Some change \<Rightarrow> (change, work_done, d, s2)
            | None \<Rightarrow> (SC_None, work_done, d, s2))))"

section \<open>Vote requests\<close>

definition raise_next_term :: "u64 \<Rightarrow> SharedState \<Rightarrow> SharedState" where
  "raise_next_term t s =
     (if next_term (vol s) \<le> t then upd_vol (\<lambda>v. v\<lparr>next_term := t + 1\<rparr>) s else s)"

definition follower_request_vote ::
  "LocalRequestVoteRequest \<Rightarrow> callback \<Rightarrow> SharedState \<Rightarrow> (RaftMessageStateChange \<times> SharedState) result" where
  "follower_request_vote request cb s =
     (let s1 = raise_next_term (rv_term request) s in
      if \<not> should_accept_vote (rv_term request) (rv_last_log_term request) (rv_last_log_index request) s1 then
        bind_res (send_callback_unwrap cb (Resp_RequestVote False) s1) (\<lambda>s2. Inr (SC_None, s2))
      else
        let message_id = next_message_id s1;
            s2 = s1\<lparr>next_message_id := message_id + 1\<rparr> in
        Inr (SC_None,
             insert_outstanding message_id
               \<lparr> om_id = message_id, outstanding_responses = 1, message_type = OM_RequestVote cb \<rparr> s2))"

end
