(* ===== verification/Candidate.thy ===== *)
theory Candidate
  imports Follower
begin

text \<open>
  The candidate delegate, \<open>raft/candidate.rs\<close>. Its time step drains the two
  response queues, returning early as soon as the election is won with the
  rest of the queue left in place, and then starts a new election when its
  timeout has expired. The clock is read once for the check and once more when
  the timeout is set again.
\<close>

section \<open>Append entries\<close>

definition candidate_append_entries ::
  "env \<Rightarrow> LocalAppendEntries \<Rightarrow> callback \<Rightarrow> SharedState \<Rightarrow> RaftMessageStateChange \<times> SharedState" where
  "candidate_append_entries ev request cb s =
     (if ae_term request \<ge> current_term (server_state s) then
        let s1 = recognise_leader request s in
        (SC_Follower (new_follower ev),
         if ae_prev_index request = last_log_index (vol s1) \<and> ae_prev_term request = last_log_term (vol s1)
         then send_callback cb (Resp_AppendEntries AE_Ok) s1
         else send_callback cb (wanted_previous_entry s1) s1)
      else (SC_None, send_callback cb (Resp_AppendEntries AE_UnrecognizedLeader) s))"

section \<open>Responses of the workers\<close>

text \<open>Each handler says whether the node was elected.\<close>

definition become_leader :: "u64 \<Rightarrow> SharedState \<Rightarrow> SharedState" where
  "become_leader t s = s\<lparr>server_state := \<lparr> current_term = t, leader_id = identity s \<rparr>\<rparr>"

definition candidate_vote_persisted :: "u64 \<Rightarrow> u64 \<Rightarrow> SharedState \<Rightarrow> bool \<times> SharedState" where
  "candidate_vote_persisted i t s =
     (case outstanding_messages s i of
        None \<Rightarrow> (False, s)
      | Some msg \<Rightarrow>
          (let s1 = remove_outstanding i s;
               new_outstanding_resp = outstanding_responses msg - 1 in
           case message_type msg of
             OM_RequestVote cb \<Rightarrow> (False, send_callback cb (Resp_RequestVote True) s1)
           | OM_CandidateElection _ votes \<Rightarrow>
               if votes \<ge> quorum_size s1 then (True, become_leader t s1)
               else (False, insert_outstanding i
                       (msg\<lparr>outstanding_responses := new_outstanding_resp,
                            message_type := OM_CandidateElection True votes\<rparr>) s1)
           | _ \<Rightarrow> (False, s1)))"

definition candidate_log_persisted :: "u64 \<Rightarrow> SharedState \<Rightarrow> SharedState result" where
  "candidate_log_persisted i s =
     (case outstanding_messages s i of
        None \<Rightarrow> Inr s
      | Some msg \<Rightarrow>
          (let s1 = remove_outstanding i s in
           case message_type msg of
             OM_AppendLog cb \<Rightarrow> send_callback_unwrap cb (Resp_AppendEntries AE_Ok) s1
           | _ \<Rightarrow> Inr s1))"

definition candidate_persistence_response ::
  "PersistenceResponseType \<Rightarrow> SharedState \<Rightarrow> (bool \<times> SharedState) result" where
  "candidate_persistence_response r s =
     (case r of
        PR_VotePersisted i t _ \<Rightarrow> Inr (candidate_vote_persisted i t s)
      | PR_LogPersisted i \<Rightarrow> bind_res (candidate_log_persisted i s) (\<lambda>s1. Inr (False, s1)))"

definition candidate_vote_response ::
  "u64 \<Rightarrow> u64 \<Rightarrow> bool \<Rightarrow> SharedState \<Rightarrow> (bool \<times> SharedState) result" where
  "candidate_vote_response i t received_vote s =
     (case outstanding_messages s i of
        None \<Rightarrow> Inr (False, s)
      | Some msg \<Rightarrow>
          (let s1 = remove_outstanding i s;
               new_outstanding_resp = outstanding_responses msg - 1 in
           case message_type msg of
             OM_RequestVote cb \<Rightarrow>
               bind_res (send_callback_unwrap cb (Resp_RequestVote received_vote) s1) (\<lambda>s2. Inr (False, s2))
           | OM_CandidateElection persistence_done votes \<Rightarrow>
               (let new_votes = (if received_vote then votes + 1 else votes) in
                if new_votes \<ge> quorum_size s1 \<and> persistence_done then Inr (True, become_leader t s1)
                else if new_outstanding_resp > 0 then
                  Inr (False, insert_outstanding i
                         (msg\<lparr>outstanding_responses := new_outstanding_resp,
                              message_type := OM_CandidateElection persistence_done new_votes\<rparr>) s1)
                else Inr (False, s1))
           | OM_AppendLog cb \<Rightarrow>
               bind_res (send_callback_unwrap cb (Resp_RequestVote received_vote) s1) (\<lambda>s2. Inr (False, s2))
           | _ \<Rightarrow> Inr (False, s1)))"

definition candidate_quorum_response ::
  "LocalQuorumTaskResponseType \<Rightarrow> SharedState \<Rightarrow> (bool \<times> SharedState) result" where
  "candidate_quorum_response r s =
     (case r of
        QR_RequestVoteResponse i t received_vote \<Rightarrow> candidate_vote_response i t received_vote s
      | _ \<Rightarrow> Inr (False, s))"

section \<open>The two draining loops\<close>

text \<open>The queue is popped one element at a time; the result says whether the node was elected and how many items were popped.\<close>

fun candidate_persistence_loop ::
  "PersistenceResponseType list \<Rightarrow> u64 \<Rightarrow> SharedState \<Rightarrow> (bool \<times> u64 \<times> SharedState) result" where
  "candidate_persistence_loop [] work_done s = Inr (False, work_done, s)"
| "candidate_persistence_loop (r # rs) work_done s =
     bind_res (candidate_persistence_response r (s\<lparr>persistence_response := rs\<rparr>)) (\<lambda>(elected, s1).
       if elected then Inr (True, work_done + 1, s1)
       else candidate_persistence_loop rs (work_done + 1) s1)"

fun candidate_quorum_loop ::
  "LocalQuorumTaskResponseType list \<Rightarrow> u64 \<Rightarrow> SharedState \<Rightarrow> (bool \<times> u64 \<times> SharedState) result" where
  "candidate_quorum_loop [] work_done s = Inr (False, work_done, s)"
| "candidate_quorum_loop (r # rs) work_done s =
     bind_res (candidate_quorum_response r (s\<lparr>quorum_response := rs\<rparr>)) (\<lambda>(elected, s1).
       if elected then Inr (True, work_done + 1, s1)
       else candidate_quorum_loop rs (work_done + 1) s1)"

section \<open>Starting an election\<close>

definition election_timeout_expired :: "u128 \<Rightarrow> u128 \<Rightarrow> bool" where
  "election_timeout_expired timeout now =
     (if timeout > now then (if timeout - now > 3600000 then True else False) else True)"

definition initiate_election :: "SharedState \<Rightarrow> SharedState" where
  "initiate_election s =
     (let message_id = next_message_id s;
          s1 = s\<lparr>next_message_id := message_id + 1\<rparr>;
          election_term = next_term (vol s1);
          s2 = upd_vol (\<lambda>v. v\<lparr>next_term := election_term + 1\<rparr>) s1;
          s3 = push_all_quorum
                 (QT_RequestVote message_id election_term (last_log_term (vol s2)) (last_log_index (vol s2))) s2;
          (_, s4) = persistence_send (PT_AppendVote message_id election_term (identity s3)) s3;
          s5 = s4\<lparr>term_votes := (term_votes s4)(election_term \<mapsto> identity s4)\<rparr> in
      insert_outstanding message_id
        \<lparr> om_id = message_id,
          outstanding_responses = int (length (quorum_worker_tasks s5)) + 1,
          message_type = OM_CandidateElection False 1 \<rparr> s5)"

definition candidate_check_election ::
  "env \<Rightarrow> env \<Rightarrow> RaftCandidateStateDelegate \<times> SharedState \<Rightarrow> u64 \<times> RaftCandidateStateDelegate \<times> SharedState" where
  "candidate_check_election ev ev' = (\<lambda>(d, s).
     if election_timeout_expired (initiate_election_timeout d) (now_millis ev) then
       (1,
        d\<lparr>ongoing_election := Some \<lparr> oe_term = next_term (vol s), started_millis = now_millis ev \<rparr>,
          initiate_election_timeout := now_plus_duration_millis ev' (from_millis (gen_range ev' 500 3000))\<rparr>,
        initiate_election s)
     else (0, d, s))"

definition candidate_time_step ::
  "env \<Rightarrow> env \<Rightarrow> RaftCandidateStateDelegate \<times> SharedState \<Rightarrow>
     (RaftMessageStateChange \<times> u64 \<times> RaftCandidateStateDelegate \<times> SharedState) result" where
  "candidate_time_step ev ev' = (\<lambda>(d, s).
     bind_res (candidate_persistence_loop (persistence_response s) 0 s) (\<lambda>(elected, work1, s1).
       if elected then Inr (SC_Leader (new_leader ev), work1, d, s1)
       else
         bind_res (candidate_quorum_loop (quorum_response s1) work1 s1) (\<lambda>(elected2, work2, s2).
           if elected2 then Inr (SC_Leader (new_leader ev), work2, d, s2)
           else
             let (started, d', s3) = candidate_check_election ev ev' (d, s2);
                 (count, s4) = retry_deferred_broadcast s3 in
             Inr (SC_None, work2 + started + count, d', s4))))"

section \<open>Vote requests\<close>

text \<open>
  The candidate and the leader accept a vote in the same way: persist it,
  record it and register the callback. They differ from the follower, which
  does neither of the first two.
\<close>

definition accept_vote :: "LocalRequestVoteRequest \<Rightarrow> callback \<Rightarrow> SharedState \<Rightarrow> SharedState" where
  "accept_vote request cb s =
     (let message_id = next_message_id s;
          (queued, s1) = persistence_send (PT_AppendVote message_id (rv_term request) (rv_candidate_id request)) s in
      if \<not> queued then send_callback cb (Resp_RequestVote False) s1
      else
        insert_outstanding message_id
          \<lparr> om_id = message_id, outstanding_responses = 1, message_type = OM_RequestVote cb \<rparr>
          (s1\<lparr>term_votes := (term_votes s1)(rv_term request \<mapsto> rv_candidate_id request),
              next_message_id := message_id + 1\<rparr>))"

definition candidate_request_vote ::
  "LocalRequestVoteRequest \<Rightarrow> callback \<Rightarrow> SharedState \<Rightarrow> RaftMessageStateChange \<times> SharedState" where
  "candidate_request_vote request cb s =
     (let s1 = raise_next_term (rv_term request) s in
      if \<not> should_accept_vote (rv_term request) (rv_last_log_term request) (rv_last_log_index request) s1
      then (SC_None, send_callback cb (Resp_RequestVote False) s1)
      else (SC_None, accept_vote request cb s1))"

end
