(* ===== verification/Leader.thy ===== *)
theory Leader
  imports Candidate
begin

text \<open>
  The leader delegate: \<open>raft/leader/write_batch.rs\<close>,
  \<open>raft/leader/replication.rs\<close>, \<open>raft/leader/outstanding.rs\<close> and
  \<open>raft/leader/mod.rs\<close>, in that order.
\<close>

section \<open>Write batches\<close>

definition validate_write_batch :: "capnp \<Rightarrow> OwnedWriteBatch \<Rightarrow> string option" where
  "validate_write_batch cp batch =
     (if batch_is_empty cp batch then Some ''Empty write batch request'' else None)"

text \<open>A command of the new entry: fields that cannot be read stay at their default.\<close>

definition copy_command :: "InternalPutRequest \<Rightarrow> InternalPutRequest" where
  "copy_command req =
     \<lparr> put_id = Some (unwrap_or (put_id req) []),
       put_payload = Some (unwrap_or (put_payload req) []),
       put_node_id = put_node_id req \<rparr>"

definition new_log_entry :: "env \<Rightarrow> InternalPutRequest list \<Rightarrow> u64 \<Rightarrow> u64 \<Rightarrow> SharedState \<Rightarrow> InternalLogEntry" where
  "new_log_entry ev commands idx message_id s =
     \<lparr> ile_index = idx,
       ile_term = current_term (server_state s),
       ile_prev_log_index = last_log_index (vol s),
       ile_prev_log_term = last_log_term (vol s),
       ile_message_id = message_id,
       ile_timestamp = ucast (now_millis ev),
       ile_commands = Some commands,
       ile_data = Some [] \<rparr>"

text \<open>The tail that the two append operations share: note a term start, push the entry.\<close>

definition append_entry :: "OwnedLogEntry \<Rightarrow> SharedState \<Rightarrow> SharedState" where
  "append_entry e s =
     upd_vol (\<lambda>v. v\<lparr>replication_log_term_starts :=
                      (if last_log_term v \<noteq> current_term (server_state s)
                       then (replication_log_term_starts v)
                              (current_term (server_state s) \<mapsto> of_nat (length (replication_log v)))
                       else replication_log_term_starts v),
                    replication_log := replication_log v @ [e]\<rparr>) s"

definition create_and_append_log_entry ::
  "capnp \<Rightarrow> env \<Rightarrow> OwnedWriteBatch \<Rightarrow> u64 \<Rightarrow> u64 \<Rightarrow> SharedState \<Rightarrow> (OwnedLogEntry \<times> SharedState) result" where
  "create_and_append_log_entry cp ev batch idx message_id s =
     (case write_batch_with_message cp batch (\<lambda>reader.
             build_owned_log_entry cp
               (new_log_entry ev (map copy_command (unwrap_or (iwb_requests reader) [])) idx message_id s)) of
        None \<Rightarrow> Inl ExpectFailed
      | Some built \<Rightarrow> bind_res built (\<lambda>owned_entry. Inr (owned_entry, append_entry owned_entry s)))"

definition create_and_append_noop_entry ::
  "capnp \<Rightarrow> env \<Rightarrow> u64 \<Rightarrow> u64 \<Rightarrow> SharedState \<Rightarrow> (OwnedLogEntry \<times> SharedState) result" where
  "create_and_append_noop_entry cp ev idx message_id s =
     bind_res (build_owned_log_entry cp (new_log_entry ev [] idx message_id s))
       (\<lambda>owned_entry. Inr (owned_entry, append_entry owned_entry s))"

definition queue_persistence_task :: "u64 \<Rightarrow> OwnedLogEntry \<Rightarrow> SharedState \<Rightarrow> bool \<times> SharedState" where
  "queue_persistence_task message_id entry s =
     persistence_send (PT_AppendLog message_id (as_bytes entry) message_id) s"

definition dispatch_to_quorum :: "u64 \<Rightarrow> OwnedLogEntry \<Rightarrow> SharedState \<Rightarrow> SharedState" where
  "dispatch_to_quorum message_id entry s =
     push_all_quorum (QT_AppendEntries message_id entry (commit_index (vol s))) s"

definition register_outstanding_message ::
  "u64 \<Rightarrow> u64 \<Rightarrow> usize \<Rightarrow> callback \<Rightarrow> SharedState \<Rightarrow> SharedState" where
  "register_outstanding_message message_id idx sz cb s =
     insert_outstanding message_id
       \<lparr> om_id = message_id,
         outstanding_responses = 1 + int (length (quorum_worker_tasks s)),
         message_type = OM_WriteBatch False 0 cb idx sz \<rparr> s"

definition register_noop_outstanding_message :: "u64 \<Rightarrow> u64 \<Rightarrow> SharedState \<Rightarrow> SharedState" where
  "register_noop_outstanding_message message_id idx s =
     insert_outstanding message_id
       \<lparr> om_id = message_id,
         outstanding_responses = 1 + int (length (quorum_worker_tasks s)),
         message_type = OM_NoOp False 0 idx \<rparr> s"

definition update_volatile_state :: "u64 \<Rightarrow> SharedState \<Rightarrow> SharedState" where
  "update_volatile_state idx s =
     upd_vol (\<lambda>v. v\<lparr>last_log_term := current_term (server_state s),
                    next_log_index := idx + 1,
                    last_log_index := idx\<rparr>) s"

definition send_error_response :: "capnp \<Rightarrow> string \<Rightarrow> callback \<Rightarrow> SharedState \<Rightarrow> SharedState result" where
  "send_error_response cp error_msg cb s =
     bind_res (build_owned_write_batch_response cp empty_write_batch_response) (\<lambda>m.
       Inr (send_callback cb (Resp_WriteBatch \<lparr> wr_message = m, wr_err = Some error_msg \<rparr>) s))"

definition leader_write_batch ::
  "capnp \<Rightarrow> env \<Rightarrow> OwnedWriteBatch \<Rightarrow> callback \<Rightarrow> SharedState \<Rightarrow> SharedState result" where
  "leader_write_batch cp ev batch cb s =
     (let message_id = next_message_id s;
          idx = next_log_index (vol s);
          sz = batch_len cp batch;
          s1 = s\<lparr>next_message_id := message_id + 1\<rparr> in
      case validate_write_batch cp batch of
        Some error_msg \<Rightarrow> send_error_response cp error_msg cb s1
      | None \<Rightarrow>
          bind_res (create_and_append_log_entry cp ev batch idx message_id s1) (\<lambda>(entry, s2).
            let (queued, s3) = queue_persistence_task message_id entry s2 in
            if \<not> queued then send_error_response cp ''Failed to queue persistence task'' cb s3
            else Inr (update_volatile_state idx
                       (register_outstanding_message message_id idx sz cb
                         (dispatch_to_quorum message_id entry s3)))))"

section \<open>Replication and backfill\<close>

definition clone_subset :: "'a list \<Rightarrow> nat \<Rightarrow> nat \<Rightarrow> 'a list result" where
  "clone_subset data i j = slice_range data i j"

definition saturating_sub :: "u64 \<Rightarrow> u64 \<Rightarrow> u64" where
  "saturating_sub a b = (if b \<le> a then a - b else 0)"

definition get_quorum_worker_index :: "u64 \<Rightarrow> u32 \<Rightarrow> nat" where
  "get_quorum_worker_index quorum_node_id node_identity =
     (if quorum_node_id = 0 then 0
      else if quorum_node_id > ucast node_identity then unat (saturating_sub quorum_node_id 2)
      else unat (saturating_sub quorum_node_id 1))"

definition send_truncate_signal :: "u64 \<Rightarrow> u64 \<Rightarrow> u64 \<Rightarrow> SharedState \<Rightarrow> SharedState" where
  "send_truncate_signal quorum_node_id prev_term last_index_for_term s =
     (let i = get_quorum_worker_index quorum_node_id (identity s) in
      if i < length (quorum_worker_tasks s) then
        let message_id = next_message_id s in
        push_quorum i (QT_TruncateLog message_id prev_term last_index_for_term)
          (s\<lparr>next_message_id := message_id + 1\<rparr>)
      else s)"

definition handle_follower_ahead :: "capnp \<Rightarrow> u64 \<Rightarrow> u64 \<Rightarrow> SharedState \<Rightarrow> SharedState" where
  "handle_follower_ahead cp quorum_node_id log_len s =
     (let our_last_index = (if log_len > 0 then log_len - 1 else 0);
          our_last_term = (if raft_log s = [] then 0 else entry_term cp (List.last (raft_log s))) in
      send_truncate_signal quorum_node_id our_last_term our_last_index s)"

text \<open>The backward walk: the largest index below \<open>truncate_to\<close> whose entry has the given term.\<close>

fun find_term_below :: "capnp \<Rightarrow> OwnedLogEntry list \<Rightarrow> u64 \<Rightarrow> nat \<Rightarrow> nat option" where
  "find_term_below cp log t 0 = None"
| "find_term_below cp log t (Suc truncate_to) =
     (case get_opt log truncate_to of
        Some entry \<Rightarrow> (if entry_term cp entry = t then Some truncate_to else find_term_below cp log t truncate_to)
      | None \<Rightarrow> find_term_below cp log t truncate_to)"

definition handle_term_mismatch :: "capnp \<Rightarrow> u64 \<Rightarrow> u64 \<Rightarrow> u64 \<Rightarrow> SharedState \<Rightarrow> SharedState" where
  "handle_term_mismatch cp quorum_node_id last_term last_index s =
     (case find_term_below cp (raft_log s) last_term (unat last_index) of
        Some truncate_to \<Rightarrow>
          send_truncate_signal quorum_node_id (entry_term cp (raft_log s ! truncate_to)) (of_nat truncate_to) s
      | None \<Rightarrow> send_truncate_signal quorum_node_id 0 0 s)"

definition send_backfill_data :: "u64 \<Rightarrow> u64 \<Rightarrow> u64 \<Rightarrow> SharedState \<Rightarrow> SharedState result" where
  "send_backfill_data quorum_node_id last_term last_index s =
     (let start_index = (if last_term = 0 then 0 else last_index + 1) in
      bind_res (clone_subset (raft_log s) (unat start_index) (length (raft_log s))) (\<lambda>data.
        Inr (push_quorum (get_quorum_worker_index quorum_node_id (identity s)) (QT_BackfillLog data) s)))"

definition handle_backfill_request :: "capnp \<Rightarrow> u64 \<times> u64 \<times> u64 \<Rightarrow> SharedState \<Rightarrow> SharedState result" where
  "handle_backfill_request cp = (\<lambda>(quorum_node_id, last_term, last_index) s.
     (let log_len = of_nat (length (raft_log s)) in
      if last_index \<ge> log_len then Inr (handle_follower_ahead cp quorum_node_id log_len s)
      else
        case get_opt (raft_log s) (unat last_index) of
          Some entry_at_index \<Rightarrow>
            (if entry_term cp entry_at_index \<noteq> last_term \<and> last_term \<noteq> 0
             then Inr (handle_term_mismatch cp quorum_node_id last_term last_index s)
             else send_backfill_data quorum_node_id last_term last_index s)
        | None \<Rightarrow> send_backfill_data quorum_node_id last_term last_index s))"

section \<open>Outstanding messages\<close>

text \<open>The part that the two completions share: advance the commit index, broadcast, tell the workers.\<close>

definition advance_commit :: "u64 \<Rightarrow> SharedState \<Rightarrow> SharedState" where
  "advance_commit idx s =
     (if idx > commit_index (vol s) then
        push_all_quorum (QT_UpdateCommitIndex idx)
          (broadcast_committed_entries idx
            (bump_version
              (upd_vol (\<lambda>v. v\<lparr>commit_index := idx,
                              commit_state := (commit_state v)\<lparr>cs_commit_index := idx\<rparr>\<rparr>) s)))
      else s)"

definition complete_write_batch :: "capnp \<Rightarrow> u64 \<Rightarrow> callback \<Rightarrow> SharedState \<Rightarrow> SharedState result" where
  "complete_write_batch cp idx cb s =
     (let s1 = advance_commit idx s in
      bind_res (build_owned_write_batch_response cp empty_write_batch_response) (\<lambda>m.
        Inr (send_callback cb (Resp_WriteBatch \<lparr> wr_message = m, wr_err = None \<rparr>) s1)))"

definition complete_noop :: "u64 \<Rightarrow> SharedState \<Rightarrow> SharedState" where
  "complete_noop idx s = advance_commit idx s"

definition leader_log_persisted :: "capnp \<Rightarrow> u64 \<Rightarrow> SharedState \<Rightarrow> SharedState result" where
  "leader_log_persisted cp i s =
     (case outstanding_messages s i of
        None \<Rightarrow> Inr s
      | Some msg \<Rightarrow>
          (let s1 = remove_outstanding i s;
               new_outstanding_resp = outstanding_responses msg - 1 in
           case message_type msg of
             OM_WriteBatch _ acks cb idx sz \<Rightarrow>
               if acks \<ge> quorum_size s1 then complete_write_batch cp idx cb s1
               else Inr (insert_outstanding i
                      (msg\<lparr>outstanding_responses := new_outstanding_resp,
                           message_type := OM_WriteBatch True acks cb idx sz\<rparr>) s1)
           | OM_RequestVote cb \<Rightarrow> Inr (send_callback cb (Resp_RequestVote True) s1)
           | OM_NoOp _ acks idx \<Rightarrow>
               if acks \<ge> quorum_size s1 then Inr (complete_noop idx s1)
               else Inr (insert_outstanding i
                      (msg\<lparr>outstanding_responses := new_outstanding_resp,
                           message_type := OM_NoOp True acks idx\<rparr>) s1)
           | _ \<Rightarrow> Inr s1))"

definition leader_vote_persisted :: "u64 \<Rightarrow> SharedState \<Rightarrow> SharedState" where
  "leader_vote_persisted i s =
     (case outstanding_messages s i of
        None \<Rightarrow> s
      | Some msg \<Rightarrow>
          (let s1 = remove_outstanding i s in
           case message_type msg of
             OM_RequestVote cb \<Rightarrow> send_callback cb (Resp_RequestVote True) s1
           | _ \<Rightarrow> s1))"

definition leader_persistence_response ::
  "capnp \<Rightarrow> PersistenceResponseType \<Rightarrow> SharedState \<Rightarrow> SharedState result" where
  "leader_persistence_response cp r s =
     (case r of
        PR_LogPersisted i \<Rightarrow> leader_log_persisted cp i s
      | PR_VotePersisted i _ _ \<Rightarrow> Inr (leader_vote_persisted i s))"

definition process_persistence_responses :: "capnp \<Rightarrow> SharedState \<Rightarrow> (u64 \<times> SharedState) result" where
  "process_persistence_responses cp s =
     bind_res (fold_res (leader_persistence_response cp) (persistence_response s) (s\<lparr>persistence_response := []\<rparr>))
       (\<lambda>s1. Inr (of_nat (length (persistence_response s)), s1))"

definition handle_append_entries_response :: "capnp \<Rightarrow> u64 \<Rightarrow> SharedState \<Rightarrow> SharedState result" where
  "handle_append_entries_response cp i s =
     (case outstanding_messages s i of
        None \<Rightarrow> Inr s
      | Some msg \<Rightarrow>
          (let s1 = remove_outstanding i s;
               new_outstanding_resp = outstanding_responses msg - 1 in
           case message_type msg of
             OM_WriteBatch persistence_done acks cb idx sz \<Rightarrow>
               (let new_acks = acks + 1 in
                if new_acks \<ge> quorum_size s1 \<and> persistence_done then complete_write_batch cp idx cb s1
                else if new_outstanding_resp > 0 then
                  Inr (insert_outstanding i
                    (msg\<lparr>outstanding_responses := new_outstanding_resp,
                         message_type := OM_WriteBatch persistence_done new_acks cb idx sz\<rparr>) s1)
                else Inr s1)
           | OM_NoOp persistence_done acks idx \<Rightarrow>
               (let new_acks = acks + 1 in
                if new_acks \<ge> quorum_size s1 \<and> persistence_done then Inr (complete_noop idx s1)
                else if new_outstanding_resp > 0 then
                  Inr (insert_outstanding i
                    (msg\<lparr>outstanding_responses := new_outstanding_resp,
                         message_type := OM_NoOp persistence_done new_acks idx\<rparr>) s1)
                else Inr s1)
           | _ \<Rightarrow> Inr s1))"

definition leader_quorum_response ::
  "capnp \<Rightarrow> LocalQuorumTaskResponseType \<Rightarrow> SharedState \<Rightarrow> SharedState result" where
  "leader_quorum_response cp r s =
     (case r of
        QR_AppendEntries i _ \<Rightarrow> handle_append_entries_response cp i s
      | _ \<Rightarrow> Inr s)"

fun backfill_requests :: "LocalQuorumTaskResponseType list \<Rightarrow> (u64 \<times> u64 \<times> u64) list" where
  "backfill_requests [] = []"
| "backfill_requests (QR_BackfillLog node t i # rs) = (node, t, i) # backfill_requests rs"
| "backfill_requests (_ # rs) = backfill_requests rs"

definition process_quorum_responses ::
  "capnp \<Rightarrow> SharedState \<Rightarrow> ((u64 \<times> u64 \<times> u64) list \<times> u64 \<times> SharedState) result" where
  "process_quorum_responses cp s =
     bind_res (fold_res (leader_quorum_response cp) (quorum_response s) (s\<lparr>quorum_response := []\<rparr>))
       (\<lambda>s1. Inr (backfill_requests (quorum_response s), of_nat (length (quorum_response s)), s1))"

section \<open>The delegate\<close>

definition initialize_leadership :: "capnp \<Rightarrow> env \<Rightarrow> SharedState \<Rightarrow> SharedState result" where
  "initialize_leadership cp ev s =
     (let message_id = next_message_id s;
          s1 = upd_vol (\<lambda>v. v\<lparr>next_log_index := of_nat (length (replication_log v))\<rparr>)
                 (s\<lparr>next_message_id := message_id + 1\<rparr>);
          s2 = push_all_quorum
                 (QT_StartHeartbeats message_id (current_term (server_state s1)) (last_log_term (vol s1))
                    (last_log_index (vol s1)) (commit_index (vol s1))) s1;
          s3 = (if commit_index (vol s2) > 0 then broadcast_committed_entries (commit_index (vol s2)) s2 else s2);
          noop_message_id = next_message_id s3;
          noop_idx = next_log_index (vol s3);
          s4 = s3\<lparr>next_message_id := noop_message_id + 1\<rparr> in
      bind_res (create_and_append_noop_entry cp ev noop_idx noop_message_id s4) (\<lambda>(noop_entry, s5).
        let (_, s6) = queue_persistence_task noop_message_id noop_entry s5 in
        Inr (update_volatile_state noop_idx
              (register_noop_outstanding_message noop_message_id noop_idx
                (dispatch_to_quorum noop_message_id noop_entry s6)))))"

definition leader_handle_new_leader ::
  "env \<Rightarrow> LocalAppendEntries \<Rightarrow> callback \<Rightarrow> SharedState \<Rightarrow> RaftMessageStateChange \<times> SharedState" where
  "leader_handle_new_leader ev request cb s =
     (let s1 = recognise_leader request s;
          message_id = next_message_id s1;
          s2 = push_all_quorum (QT_StopHeartbeats message_id) (s1\<lparr>next_message_id := message_id + 1\<rparr>) in
      (SC_Follower (new_follower ev),
       if ae_prev_index request = last_log_index (vol s2) \<and> ae_prev_term request = last_log_term (vol s2)
       then send_callback cb (Resp_AppendEntries AE_Ok) s2
       else send_callback cb (wanted_previous_entry s2) s2))"

definition leader_append_entries ::
  "env \<Rightarrow> LocalAppendEntries \<Rightarrow> callback \<Rightarrow> SharedState \<Rightarrow> RaftMessageStateChange \<times> SharedState" where
  "leader_append_entries ev request cb s =
     (if ae_term request > current_term (server_state s) then leader_handle_new_leader ev request cb s
      else (SC_None, send_callback cb (Resp_AppendEntries AE_UnrecognizedLeader) s))"

definition leader_initialize ::
  "capnp \<Rightarrow> env \<Rightarrow> RaftLeaderStateDelegate \<times> SharedState \<Rightarrow> (u64 \<times> RaftLeaderStateDelegate \<times> SharedState) result" where
  "leader_initialize cp ev = (\<lambda>(d, s).
     if \<not> initialized d
     then bind_res (initialize_leadership cp ev s) (\<lambda>s1. Inr (1, d\<lparr>initialized := True\<rparr>, s1))
     else Inr (0, d, s))"

definition leader_time_step ::
  "capnp \<Rightarrow> env \<Rightarrow> RaftLeaderStateDelegate \<times> SharedState \<Rightarrow>
     (RaftMessageStateChange \<times> u64 \<times> RaftLeaderStateDelegate \<times> SharedState) result" where
  "leader_time_step cp ev ds =
     bind_res (leader_initialize cp ev ds) (\<lambda>(work0, d, s0).
       bind_res (process_persistence_responses cp s0) (\<lambda>(work1, s1).
         bind_res (process_quorum_responses cp s1) (\<lambda>(backfills, work2, s2).
           bind_res (fold_res (handle_backfill_request cp) backfills s2) (\<lambda>s3.
             let (count, s4) = retry_deferred_broadcast s3 in
             Inr (SC_None, work0 + work1 + work2 + count, d, s4)))))"

definition leader_request_vote ::
  "LocalRequestVoteRequest \<Rightarrow> callback \<Rightarrow> SharedState \<Rightarrow> RaftMessageStateChange \<times> SharedState" where
  "leader_request_vote request cb s =
     (let s1 = raise_next_term (rv_term request) s in
      if \<not> should_accept_vote (rv_term request) (rv_last_log_term request) (rv_last_log_index request) s1
      then (SC_None, send_callback cb (Resp_RequestVote False) s1)
      else (SC_None, accept_vote request cb s1))"

end
