(* ===== verification/Raft_Executor.thy ===== *)
theory Raft_Executor
  imports Leader
begin

text \<open>
  The executor of \<open>raft/raft_sm.rs\<close> and the worker loop of
  \<open>raft/state_machine_worker.rs\<close>: it owns the current delegate and the shared
  state, dispatches each message and time step to the delegate, and installs the
  delegate that a state change carries.
\<close>

datatype Delegate =
    Follower_Delegate RaftFollowerStateDelegate
  | Candidate_Delegate RaftCandidateStateDelegate
  | Leader_Delegate RaftLeaderStateDelegate

record Executor =
  state_delegate :: Delegate
  shared_state :: SharedState

definition new_executor :: "env \<Rightarrow> SharedState \<Rightarrow> Executor" where
  "new_executor ev s = \<lparr> state_delegate = Follower_Delegate (new_follower ev), shared_state = s \<rparr>"

definition get_node_type :: "Delegate \<Rightarrow> RaftNodeType" where
  "get_node_type d =
     (case d of Follower_Delegate _ \<Rightarrow> Node_Follower
      | Candidate_Delegate _ \<Rightarrow> Node_Candidate
      | Leader_Delegate _ \<Rightarrow> Node_Leader)"

definition apply_change :: "RaftMessageStateChange \<Rightarrow> Delegate \<Rightarrow> Delegate" where
  "apply_change change d =
     (case change of
        SC_None \<Rightarrow> d
      | SC_Candidate c \<Rightarrow> Candidate_Delegate c
      | SC_Follower f \<Rightarrow> Follower_Delegate f
      | SC_Leader l \<Rightarrow> Leader_Delegate l)"

section \<open>Dispatch to the delegate\<close>

definition delegate_time_step ::
  "capnp \<Rightarrow> env \<Rightarrow> env \<Rightarrow> Delegate \<Rightarrow> SharedState \<Rightarrow>
     (RaftMessageStateChange \<times> u64 \<times> Delegate \<times> SharedState) result" where
  "delegate_time_step cp ev ev' d s =
     (case d of
        Follower_Delegate f \<Rightarrow>
          bind_res (follower_time_step ev (f, s)) (\<lambda>(c, w, f', s'). Inr (c, w, Follower_Delegate f', s'))
      | Candidate_Delegate k \<Rightarrow>
          bind_res (candidate_time_step ev ev' (k, s)) (\<lambda>(c, w, k', s'). Inr (c, w, Candidate_Delegate k', s'))
      | Leader_Delegate l \<Rightarrow>
          bind_res (leader_time_step cp ev (l, s)) (\<lambda>(c, w, l', s'). Inr (c, w, Leader_Delegate l', s')))"

definition delegate_request_vote ::
  "LocalRequestVoteRequest \<Rightarrow> callback \<Rightarrow> Delegate \<Rightarrow> SharedState \<Rightarrow>
     (RaftMessageStateChange \<times> Delegate \<times> SharedState) result" where
  "delegate_request_vote request cb d s =
     (case d of
        Follower_Delegate _ \<Rightarrow> bind_res (follower_request_vote request cb s) (\<lambda>(c, s'). Inr (c, d, s'))
      | Candidate_Delegate _ \<Rightarrow> (let (c, s') = candidate_request_vote request cb s in Inr (c, d, s'))
      | Leader_Delegate _ \<Rightarrow> (let (c, s') = leader_request_vote request cb s in Inr (c, d, s')))"

definition delegate_append_entries ::
  "capnp \<Rightarrow> env \<Rightarrow> LocalAppendEntries \<Rightarrow> callback \<Rightarrow> Delegate \<Rightarrow> SharedState \<Rightarrow>
     RaftMessageStateChange \<times> Delegate \<times> SharedState" where
  "delegate_append_entries cp ev request cb d s =
     (case d of
        Follower_Delegate f \<Rightarrow>
          (let (c, f', s') = follower_append_entries cp ev request cb (f, s) in (c, Follower_Delegate f', s'))
      | Candidate_Delegate _ \<Rightarrow> (let (c, s') = candidate_append_entries ev request cb s in (c, d, s'))
      | Leader_Delegate _ \<Rightarrow> (let (c, s') = leader_append_entries ev request cb s in (c, d, s')))"

section \<open>The executor\<close>

definition time_step :: "capnp \<Rightarrow> env \<Rightarrow> env \<Rightarrow> Executor \<Rightarrow> (u64 \<times> Executor) result" where
  "time_step cp ev ev' x =
     bind_res (delegate_time_step cp ev ev' (state_delegate x) (shared_state x)) (\<lambda>(change, work_done, d, s).
       Inr (work_done, \<lparr> state_delegate = apply_change change d, shared_state = s \<rparr>))"

definition accept :: "capnp \<Rightarrow> env \<Rightarrow> LocalRaftMessagePayload \<times> callback \<Rightarrow> Executor \<Rightarrow> Executor result" where
  "accept cp ev = (\<lambda>(payload, cb) x.
     (case payload of
        Msg_RequestVote r \<Rightarrow>
          bind_res (delegate_request_vote r cb (state_delegate x) (shared_state x)) (\<lambda>(change, d, s).
            Inr \<lparr> state_delegate = apply_change change d, shared_state = s \<rparr>)
      | Msg_AppendEntries r \<Rightarrow>
          (let (change, d, s) = delegate_append_entries cp ev r cb (state_delegate x) (shared_state x) in
           Inr \<lparr> state_delegate = apply_change change d, shared_state = s \<rparr>)
      | Msg_GetRaftState \<Rightarrow>
          Inr (x\<lparr>shared_state :=
                  send_callback cb (Resp_RaftState (leader_id (server_state (shared_state x)))) (shared_state x)\<rparr>)
      | Msg_WriteBatch batch \<Rightarrow>
          if get_node_type (state_delegate x) = Node_Leader then
            bind_res (leader_write_batch cp ev batch cb (shared_state x)) (\<lambda>s. Inr (x\<lparr>shared_state := s\<rparr>))
          else
            bind_res (build_owned_write_batch_response cp empty_write_batch_response) (\<lambda>m.
              Inr (x\<lparr>shared_state :=
                send_callback cb
                  (Resp_WriteBatch \<lparr> wr_message = m, wr_err = Some ''Received write batch as non-leader'' \<rparr>)
                  (shared_state x)\<rparr>))))"

text \<open>
  One iteration of the worker's loop: a time step, then every message of the
  work queue. Each message comes with the environment its handler reads.
\<close>

definition run_iteration ::
  "capnp \<Rightarrow> env \<Rightarrow> env \<Rightarrow> (env \<times> LocalRaftMessagePayload \<times> callback) list \<Rightarrow> Executor \<Rightarrow> (u64 \<times> Executor) result" where
  "run_iteration cp ev ev' work_queue x =
     bind_res (time_step cp ev ev' x) (\<lambda>(work_done, x1).
       bind_res (fold_res (\<lambda>(e, m) y. accept cp e m y) work_queue x1) (\<lambda>x2.
         Inr (work_done + of_nat (length work_queue), x2)))"

end
