(* ===== verification/Capnp_Instance.thy ===== *)
theory Capnp_Instance
  imports Capnp_Messages
begin

text \<open>
  A concrete codec that satisfies \<^const>\<open>capnp_law\<close>: a message is its length in
  unary followed by its fields. It stands for the library in the concrete runs
  of the development.
\<close>

section \<open>Encoding\<close>

definition enc_nat :: "nat \<Rightarrow> u8 list" where
  "enc_nat n = replicate n 1 @ [0]"

fun dec_nat :: "u8 list \<Rightarrow> (nat \<times> u8 list) option" where
  "dec_nat [] = None"
| "dec_nat (b # bs) =
     (if b = 0 then Some (0, bs)
      else map_option (\<lambda>(n, r). (Suc n, r)) (dec_nat bs))"

definition enc_bytes :: "u8 list \<Rightarrow> u8 list" where
  "enc_bytes xs = enc_nat (length xs) @ xs"

definition dec_bytes :: "u8 list \<Rightarrow> (u8 list \<times> u8 list) option" where
  "dec_bytes bs = map_option (\<lambda>(n, r). (take n r, drop n r)) (dec_nat bs)"

definition enc_put :: "InternalPutRequest \<Rightarrow> u8 list" where
  "enc_put r = enc_bytes (unwrap_or (put_id r) []) @ enc_bytes (unwrap_or (put_payload r) []) @
               enc_nat (unat (put_node_id r))"

definition dec_put :: "u8 list \<Rightarrow> (InternalPutRequest \<times> u8 list) option" where
  "dec_put bs =
     (case dec_bytes bs of None \<Rightarrow> None | Some (i, bs1) \<Rightarrow>
      case dec_bytes bs1 of None \<Rightarrow> None | Some (p, bs2) \<Rightarrow>
      case dec_nat bs2 of None \<Rightarrow> None | Some (n, bs3) \<Rightarrow>
        Some (\<lparr> put_id = Some i, put_payload = Some p, put_node_id = of_nat n \<rparr>, bs3))"

definition enc_puts :: "InternalPutRequest list \<Rightarrow> u8 list" where
  "enc_puts rs = enc_nat (length rs) @ concat (map enc_put rs)"

fun dec_put_list :: "nat \<Rightarrow> u8 list \<Rightarrow> (InternalPutRequest list \<times> u8 list) option" where
  "dec_put_list 0 bs = Some ([], bs)"
| "dec_put_list (Suc n) bs =
     (case dec_put bs of None \<Rightarrow> None | Some (r, bs1) \<Rightarrow>
        map_option (\<lambda>(rs, bs2). (r # rs, bs2)) (dec_put_list n bs1))"

definition dec_puts :: "u8 list \<Rightarrow> (InternalPutRequest list \<times> u8 list) option" where
  "dec_puts bs = (case dec_nat bs of None \<Rightarrow> None | Some (n, bs1) \<Rightarrow> dec_put_list n bs1)"

fun dec_words :: "nat \<Rightarrow> u8 list \<Rightarrow> (u64 list \<times> u8 list) option" where
  "dec_words 0 bs = Some ([], bs)"
| "dec_words (Suc n) bs =
     (case dec_nat bs of None \<Rightarrow> None | Some (v, bs1) \<Rightarrow>
        map_option (\<lambda>(vs, bs2). (of_nat v # vs, bs2)) (dec_words n bs1))"

section \<open>Framed messages\<close>

definition log_entry_fields :: "InternalLogEntry \<Rightarrow> u64 list" where
  "log_entry_fields m =
     [ile_index m, ile_term m, ile_prev_log_index m, ile_prev_log_term m, ile_message_id m, ile_timestamp m]"

definition log_entry_body :: "InternalLogEntry \<Rightarrow> u8 list" where
  "log_entry_body m =
     concat (map (\<lambda>v. enc_nat (unat v)) (log_entry_fields m)) @
     enc_puts (unwrap_or (ile_commands m) []) @ enc_bytes (unwrap_or (ile_data m) [])"

definition dec_log_entry :: "u8 list \<Rightarrow> InternalLogEntry option" where
  "dec_log_entry bs =
     (case dec_words 6 bs of None \<Rightarrow> None | Some (ws, bs1) \<Rightarrow>
      case dec_puts bs1 of None \<Rightarrow> None | Some (cs, bs2) \<Rightarrow>
      case dec_bytes bs2 of None \<Rightarrow> None | Some (d, _) \<Rightarrow>
        Some \<lparr> ile_index = ws ! 0, ile_term = ws ! 1, ile_prev_log_index = ws ! 2, ile_prev_log_term = ws ! 3,
               ile_message_id = ws ! 4, ile_timestamp = ws ! 5, ile_commands = Some cs, ile_data = Some d \<rparr>)"

definition frame :: "u8 list \<Rightarrow> u8 list" where
  "frame body = enc_nat (length body) @ body"

definition read_frame_len :: "u8 list \<Rightarrow> nat option" where
  "read_frame_len bs =
     (case dec_nat bs of None \<Rightarrow> None
      | Some (n, r) \<Rightarrow> if n \<le> length r then Some (length bs - length r + n) else None)"

definition frame_body :: "u8 list \<Rightarrow> u8 list" where
  "frame_body bs = (case dec_nat bs of None \<Rightarrow> [] | Some (n, r) \<Rightarrow> take n r)"

definition write_batch_body :: "InternalWriteBatch \<Rightarrow> u8 list" where
  "write_batch_body m = enc_bytes (unwrap_or (iwb_batch_id m) []) @ enc_puts (unwrap_or (iwb_requests m) [])"

definition dec_write_batch :: "u8 list \<Rightarrow> InternalWriteBatch option" where
  "dec_write_batch bs =
     (case dec_bytes bs of None \<Rightarrow> None | Some (b, bs1) \<Rightarrow>
      case dec_puts bs1 of None \<Rightarrow> None | Some (rs, _) \<Rightarrow>
        Some \<lparr> iwb_batch_id = Some b, iwb_requests = Some rs \<rparr>)"

definition sample_capnp :: capnp where
  "sample_capnp =
     \<lparr> read_flat = read_frame_len,
       get_log_entry = (\<lambda>bs. dec_log_entry (frame_body bs)),
       get_write_batch = (\<lambda>bs. dec_write_batch (frame_body bs)),
       get_write_batch_response = (\<lambda>bs. Some empty_write_batch_response),
       write_log_entry = (\<lambda>m. frame (log_entry_body m)),
       write_write_batch = (\<lambda>m. frame (write_batch_body m)),
       write_write_batch_response = (\<lambda>m. frame []) \<rparr>"

section \<open>The codec satisfies the law\<close>

lemma dec_enc_nat [simp]: "dec_nat (enc_nat n @ r) = Some (n, r)"
  by (induction n) (simp_all add: enc_nat_def)

lemma dec_nat_short: "k \<le> n \<Longrightarrow> dec_nat (take k (enc_nat n @ r)) = None"
proof (induction n arbitrary: k)
  case (Suc n)
  then show ?case by (cases k) (simp_all add: enc_nat_def)
qed (simp add: enc_nat_def)

lemma dec_enc_bytes [simp]: "dec_bytes (enc_bytes xs @ r) = Some (xs, r)"
  by (simp add: dec_bytes_def enc_bytes_def)

lemma dec_enc_put:
  "built_put_request p \<Longrightarrow> dec_put (enc_put p @ r) = Some (p, r)"
  by (auto simp: dec_put_def enc_put_def built_put_request_def)

lemma dec_enc_put_list:
  "list_all built_put_request ps \<Longrightarrow> dec_put_list (length ps) (concat (map enc_put ps) @ r) = Some (ps, r)"
  by (induction ps) (simp_all add: dec_enc_put)

lemma dec_enc_puts:
  "list_all built_put_request ps \<Longrightarrow> dec_puts (enc_puts ps @ r) = Some (ps, r)"
  by (simp add: dec_puts_def enc_puts_def dec_enc_put_list)

lemma dec_enc_words:
  "dec_words (length ws) (concat (map (\<lambda>v. enc_nat (unat v)) ws) @ r) = Some (ws, r)"
  by (induction ws) simp_all

lemma dec_log_entry_body:
  assumes "built_log_entry m"
  shows "dec_log_entry (log_entry_body m) = Some m"
proof -
  obtain cs d where m: "ile_commands m = Some cs" "list_all built_put_request cs" "ile_data m = Some d"
    using assms by (auto simp: built_log_entry_def split: option.splits)
  have six: "length (log_entry_fields m) = 6" by (simp add: log_entry_fields_def)
  have "dec_bytes (enc_bytes d) = Some (d, [])" using dec_enc_bytes [of d "[]"] by simp
  then show ?thesis
    using m dec_enc_words [of "log_entry_fields m"] six
    by (simp add: dec_log_entry_def log_entry_body_def dec_enc_puts)
       (simp add: log_entry_fields_def)
qed

lemma frame_readable:
  assumes "read_flat cp = read_frame_len"
  shows "readable cp (frame body)"
proof -
  have "read_frame_len (take k (frame body)) = None" if "k < length (frame body)" for k
  proof (cases "k \<le> length body")
    case True
    from dec_nat_short [OF True, of body] show ?thesis
      by (simp add: read_frame_len_def frame_def del: take_append)
  next
    case False
    then have "take k (frame body) = enc_nat (length body) @ take (k - Suc (length body)) body"
      by (simp add: frame_def enc_nat_def take_Cons')
    moreover from that False have "k - Suc (length body) < length body"
      by (simp add: frame_def enc_nat_def)
    ultimately show ?thesis by (simp add: read_frame_len_def)
  qed
  moreover have "read_frame_len (frame body @ rest) = Some (length (frame body))" for rest
    by (simp add: read_frame_len_def frame_def)
  moreover have "frame body \<noteq> []" by (simp add: frame_def enc_nat_def)
  ultimately show ?thesis using assms by (simp add: readable_def)
qed

lemma sample_capnp_law: "capnp_law sample_capnp"
proof -
  have "readable sample_capnp (frame body)" for body
    by (rule frame_readable) (simp add: sample_capnp_def)
  then show ?thesis
    by (simp add: capnp_law_def)
       (simp add: sample_capnp_def frame_body_def frame_def dec_log_entry_body read_frame_len_def)
qed

lemma sample_write_batch_law: "write_batch_law sample_capnp"
proof -
  have "dec_write_batch (write_batch_body m) = Some m" if "built_write_batch m" for m
  proof -
    from that obtain b rs where "iwb_batch_id m = Some b" "iwb_requests m = Some rs" "list_all built_put_request rs"
      by (auto simp: built_write_batch_def split: option.splits)
    then show ?thesis
      using dec_enc_puts [of rs "[]"] by (simp add: dec_write_batch_def write_batch_body_def)
  qed
  then show ?thesis by (simp add: write_batch_law_def) (simp add: sample_capnp_def frame_body_def frame_def)
qed

section \<open>Concrete entries\<close>

text \<open>A log entry written by this codec, with the given commands or with none.\<close>

definition sample_message ::
  "u64 \<Rightarrow> u64 \<Rightarrow> u64 \<Rightarrow> u64 \<Rightarrow> u64 \<Rightarrow> (text_bytes \<times> u8 list) list \<Rightarrow> InternalLogEntry" where
  "sample_message idx t prev_index prev_term i cmds =
     \<lparr> ile_index = idx, ile_term = t, ile_prev_log_index = prev_index, ile_prev_log_term = prev_term,
       ile_message_id = i, ile_timestamp = 0,
       ile_commands = Some (map (\<lambda>(k, v). \<lparr> put_id = Some k, put_payload = Some v, put_node_id = 1 \<rparr>) cmds),
       ile_data = Some [] \<rparr>"

definition sample_put ::
  "u64 \<Rightarrow> u64 \<Rightarrow> u64 \<Rightarrow> u64 \<Rightarrow> u64 \<Rightarrow> (text_bytes \<times> u8 list) list \<Rightarrow> OwnedLogEntry" where
  "sample_put idx t prev_index prev_term i cmds =
     OwnedLogEntry (write_log_entry sample_capnp (sample_message idx t prev_index prev_term i cmds))"

definition sample_entry :: "u64 \<Rightarrow> u64 \<Rightarrow> u64 \<Rightarrow> u64 \<Rightarrow> u64 \<Rightarrow> OwnedLogEntry" where
  "sample_entry idx t prev_index prev_term i = sample_put idx t prev_index prev_term i []"

lemma sample_message_built: "built_log_entry (sample_message idx t pi pt i cmds)"
  by (auto simp: built_log_entry_def sample_message_def built_put_request_def list_all_iff)

lemma build_sample_put:
  "build_owned_log_entry sample_capnp (sample_message idx t pi pt i cmds) = Inr (sample_put idx t pi pt i cmds)"
proof -
  have "read_flat sample_capnp (write_log_entry sample_capnp (sample_message idx t pi pt i cmds)) \<noteq> None"
    by (simp add: sample_capnp_def read_frame_len_def frame_def)
  then show ?thesis
    by (auto simp: build_owned_log_entry_def log_entry_from_bytes_def sample_put_def split: option.splits)
qed

lemma sample_put_message:
  "log_entry_with_message sample_capnp (sample_put idx t pi pt i cmds) f = Some (f (sample_message idx t pi pt i cmds))"
  by (rule build_owned_log_entryD(3) [OF sample_capnp_law sample_message_built build_sample_put])

lemma sample_put_fields [simp]:
  "entry_index sample_capnp (sample_put idx t pi pt i cmds) = idx"
  "entry_term sample_capnp (sample_put idx t pi pt i cmds) = t"
  "entry_prev_log_index sample_capnp (sample_put idx t pi pt i cmds) = pi"
  "entry_prev_log_term sample_capnp (sample_put idx t pi pt i cmds) = pt"
  "entry_message_id sample_capnp (sample_put idx t pi pt i cmds) = i"
  "readable sample_capnp (as_bytes (sample_put idx t pi pt i cmds))"
  using entry_fields_of_built [OF sample_capnp_law sample_message_built build_sample_put]
    build_owned_log_entryD(2) [OF sample_capnp_law sample_message_built build_sample_put]
  by (simp_all add: sample_message_def)

lemma sample_put_commands [simp]:
  "list_all (\<lambda>(k, _). utf8_valid k) cmds \<Longrightarrow>
   for_each_command sample_capnp (sample_put idx t pi pt i cmds) = Some (map (\<lambda>(k, v). (k, v, 1)) cmds)"
  by (simp add: for_each_command_def sample_put_message)
     (auto simp: sample_message_def command_view_def to_str_def unwrap_or_def list_all_iff)

lemma sample_entry_fields [simp]:
  "entry_index sample_capnp (sample_entry idx t pi pt i) = idx"
  "entry_term sample_capnp (sample_entry idx t pi pt i) = t"
  "entry_prev_log_index sample_capnp (sample_entry idx t pi pt i) = pi"
  "entry_prev_log_term sample_capnp (sample_entry idx t pi pt i) = pt"
  "entry_message_id sample_capnp (sample_entry idx t pi pt i) = i"
  "readable sample_capnp (as_bytes (sample_entry idx t pi pt i))"
  by (simp_all add: sample_entry_def)

text \<open>A log of two entries.\<close>

definition sample_log :: "OwnedLogEntry list" where
  "sample_log = [sample_entry 0 1 0 0 2, sample_entry 1 1 0 1 3]"

end
