(* ===== verification/Persistence.thy ===== *)
theory Persistence
  imports Raft_State Capnp_Instance
begin

text \<open>
  The persistence worker, \<open>persistence/worker.rs\<close>: the log file behind a
  buffered writer, the votes file, the end offset of every entry, and the
  responses that wait for the next flush. The \<open>csv\<close> crate is a parameter. An
  I/O error, which the worker turns into a panic, does not occur in the model.
\<close>

section \<open>The worker's state\<close>

record VoteRow =
  vote_term :: u64
  vote_candidate_id :: u32

record csv =
  csv_write_row :: "VoteRow \<Rightarrow> u8 list"
  csv_read_rows :: "u8 list \<Rightarrow> VoteRow list option"

text \<open>What the worker relies on: the rows written one after the other read back in order.\<close>

definition csv_law :: "csv \<Rightarrow> bool" where
  "csv_law cv \<longleftrightarrow> (\<forall>rows. csv_read_rows cv (concat (map (csv_write_row cv) rows)) = Some rows)"

record PersistenceWorker =
  log_file :: "u8 list"
  log_buffer :: "u8 list"
  votes_file :: "u8 list"
  entry_end_offsets :: "u64 list"
  pending_log_responses :: "PersistenceResponseType list"
  response_queue :: "PersistenceResponseType list"

definition BATCH_SIZE :: nat where
  "BATCH_SIZE = 32"

text \<open>A concrete instance, for the concrete runs of the development.\<close>

fun dec_rows :: "nat \<Rightarrow> u8 list \<Rightarrow> VoteRow list option" where
  "dec_rows 0 bs = (if bs = [] then Some [] else None)"
| "dec_rows (Suc n) bs =
     (if bs = [] then Some [] else
      case dec_nat bs of None \<Rightarrow> None | Some (t, bs1) \<Rightarrow>
      case dec_nat bs1 of None \<Rightarrow> None | Some (c, bs2) \<Rightarrow>
        map_option (\<lambda>rows. \<lparr> vote_term = of_nat t, vote_candidate_id = of_nat c \<rparr> # rows) (dec_rows n bs2))"

definition sample_csv :: csv where
  "sample_csv =
     \<lparr> csv_write_row = (\<lambda>r. enc_nat (unat (vote_term r)) @ enc_nat (unat (vote_candidate_id r))),
       csv_read_rows = (\<lambda>bs. dec_rows (length bs) bs) \<rparr>"

section \<open>The buffered writer\<close>

text \<open>\<open>BufWriter\<close> with its default capacity, and \<open>File::set_len\<close>.\<close>

definition BUF_CAPACITY :: nat where
  "BUF_CAPACITY = 8192"

definition flush_buffer :: "PersistenceWorker \<Rightarrow> PersistenceWorker" where
  "flush_buffer w = w\<lparr>log_file := log_file w @ log_buffer w, log_buffer := []\<rparr>"

definition buf_write_all :: "u8 list \<Rightarrow> PersistenceWorker \<Rightarrow> PersistenceWorker" where
  "buf_write_all data w =
     (let spare = BUF_CAPACITY - length (log_buffer w) in
      if length data < spare then w\<lparr>log_buffer := log_buffer w @ data\<rparr>
      else
        let w1 = (if length data > spare then flush_buffer w else w) in
        if length data \<ge> BUF_CAPACITY then w1\<lparr>log_file := log_file w1 @ data\<rparr>
        else w1\<lparr>log_buffer := log_buffer w1 @ data\<rparr>)"

definition set_len :: "nat \<Rightarrow> u8 list \<Rightarrow> u8 list" where
  "set_len n f = take n f @ replicate (n - length f) 0"

section \<open>The operations\<close>

definition new_persistence_worker :: "u8 list \<Rightarrow> u8 list \<Rightarrow> u64 list \<Rightarrow> PersistenceWorker" where
  "new_persistence_worker logf votesf offsets =
     \<lparr> log_file = logf, log_buffer = [], votes_file = votesf, entry_end_offsets = offsets,
       pending_log_responses = [], response_queue = [] \<rparr>"

definition set_entry_end_offsets :: "u64 list \<Rightarrow> PersistenceWorker \<Rightarrow> PersistenceWorker" where
  "set_entry_end_offsets offsets w = w\<lparr>entry_end_offsets := offsets\<rparr>"

definition persist_vote :: "csv \<Rightarrow> u64 \<Rightarrow> u32 \<Rightarrow> PersistenceWorker \<Rightarrow> PersistenceWorker" where
  "persist_vote cv t candidate_id w =
     w\<lparr>votes_file := votes_file w @ csv_write_row cv \<lparr> vote_term = t, vote_candidate_id = candidate_id \<rparr>\<rparr>"

definition write_log_entry :: "u8 list \<Rightarrow> PersistenceWorker \<Rightarrow> PersistenceWorker" where
  "write_log_entry data w = buf_write_all data w"

definition flush_pending_logs :: "PersistenceWorker \<Rightarrow> PersistenceWorker" where
  "flush_pending_logs w =
     (if pending_log_responses w = [] then w
      else
        let w1 = flush_buffer w in
        w1\<lparr>response_queue := response_queue w1 @ pending_log_responses w1, pending_log_responses := []\<rparr>)"

definition last_end_offset :: "PersistenceWorker \<Rightarrow> u64" where
  "last_end_offset w = (if entry_end_offsets w = [] then 0 else last (entry_end_offsets w))"

definition process_task :: "csv \<Rightarrow> nat \<Rightarrow> PersistenceTaskType \<Rightarrow> PersistenceWorker \<Rightarrow> PersistenceWorker result" where
  "process_task cv batch_sz task w =
     (case task of
        PT_AppendVote i t candidate_id \<Rightarrow>
          (let w1 = persist_vote cv t candidate_id (flush_pending_logs w) in
           Inr (w1\<lparr>response_queue := response_queue w1 @ [PR_VotePersisted i t candidate_id]\<rparr>))
      | PT_AppendLog i data request_id \<Rightarrow>
          (let w1 = write_log_entry data w;
               last_end = last_end_offset w1;
               w2 = w1\<lparr>entry_end_offsets := entry_end_offsets w1 @ [last_end + of_nat (length data)],
                       pending_log_responses := pending_log_responses w1 @ [PR_LogPersisted i]\<rparr> in
           Inr (if length (pending_log_responses w2) \<ge> batch_sz then flush_pending_logs w2 else w2))
      | PT_TruncateLog target_length \<Rightarrow>
          (let w1 = flush_pending_logs w in
           bind_res (if target_length = 0 then Inr 0 else index_checked (entry_end_offsets w1) (target_length - 1))
             (\<lambda>truncation_position.
               Inr (w1\<lparr>log_file := set_len (unat truncation_position) (log_file w1),
                       entry_end_offsets := take target_length (entry_end_offsets w1)\<rparr>))))"

text \<open>
  One pass of the loop in \<open>run\<close>: the tasks received (the first by
  \<open>recv_timeout\<close>, the others drained without blocking), or a timeout, or the
  channel closed. In the last two cases, and after draining, pending log writes
  are flushed.
\<close>

datatype recv = Recv_Tasks "PersistenceTaskType list" | Recv_Timeout | Recv_Disconnected

definition run_pass :: "csv \<Rightarrow> recv \<Rightarrow> PersistenceWorker \<Rightarrow> PersistenceWorker result" where
  "run_pass cv r w =
     (case r of
        Recv_Tasks tasks \<Rightarrow>
          bind_res (fold_res (process_task cv BATCH_SIZE) tasks w) (\<lambda>w1.
            Inr (if pending_log_responses w1 \<noteq> [] then flush_pending_logs w1 else w1))
      | Recv_Timeout \<Rightarrow> Inr (flush_pending_logs w)
      | Recv_Disconnected \<Rightarrow> Inr (flush_pending_logs w))"

definition run :: "csv \<Rightarrow> recv list \<Rightarrow> PersistenceWorker \<Rightarrow> PersistenceWorker result" where
  "run cv rs w = fold_res (run_pass cv) rs w"

definition read_votes :: "csv \<Rightarrow> PersistenceWorker \<Rightarrow> VoteRow list option" where
  "read_votes cv w = csv_read_rows cv (votes_file w)"

definition read_log :: "PersistenceWorker \<Rightarrow> u8 list" where
  "read_log w = log_file w"

section \<open>What the worker promises\<close>

text \<open>The bytes written so far, in the file or still in the buffer.\<close>

definition written :: "PersistenceWorker \<Rightarrow> u8 list" where
  "written w = log_file w @ log_buffer w"

text \<open>The end offsets of a list of entries.\<close>

definition end_offsets :: "u8 list list \<Rightarrow> u64 list" where
  "end_offsets es = map (\<lambda>i. of_nat (length (concat (take (Suc i) es)))) [0..<length es]"

text \<open>
  The worker holds the entries \<open>es\<close>: they are what was written, the offsets are
  theirs, nothing is buffered unless a response waits for it, and the file
  itself holds every entry whose response has been sent.
\<close>

definition holds_entries :: "u8 list list \<Rightarrow> PersistenceWorker \<Rightarrow> bool" where
  "holds_entries es w \<longleftrightarrow>
     written w = concat es \<and>
     entry_end_offsets w = end_offsets es \<and>
     (pending_log_responses w = [] \<longrightarrow> log_buffer w = []) \<and>
     length (pending_log_responses w) \<le> length es \<and>
     prefix (concat (take (length es - length (pending_log_responses w)) es)) (log_file w)"

text \<open>The effect of a task on the abstract log, and on the abstract list of votes.\<close>

fun spec_task :: "PersistenceTaskType \<Rightarrow> u8 list list \<Rightarrow> u8 list list" where
  "spec_task (PT_AppendVote _ _ _) es = es"
| "spec_task (PT_AppendLog _ data _) es = es @ [data]"
| "spec_task (PT_TruncateLog n) es = take n es"

fun task_ok :: "PersistenceTaskType \<Rightarrow> u8 list list \<Rightarrow> bool" where
  "task_ok (PT_TruncateLog n) es = (n \<le> length es)"
| "task_ok _ es = True"

fun spec_vote :: "PersistenceTaskType \<Rightarrow> VoteRow list" where
  "spec_vote (PT_AppendVote _ t c) = [\<lparr> vote_term = t, vote_candidate_id = c \<rparr>]"
| "spec_vote _ = []"

text \<open>A sequence of tasks in which no truncation reaches beyond the end of the log.\<close>

fun tasks_in_range :: "PersistenceTaskType list \<Rightarrow> u8 list list \<Rightarrow> bool" where
  "tasks_in_range [] es = True"
| "tasks_in_range (t # ts) es = (task_ok t es \<and> tasks_in_range ts (spec_task t es))"

text \<open>The number of bytes that a sequence of tasks appends; it bounds the size of the file.\<close>

fun appended_bytes :: "PersistenceTaskType list \<Rightarrow> nat" where
  "appended_bytes [] = 0"
| "appended_bytes (PT_AppendLog _ data _ # ts) = length data + appended_bytes ts"
| "appended_bytes (_ # ts) = appended_bytes ts"

section \<open>Lemmas\<close>

lemma dec_rows_write:
  "length rows \<le> n \<Longrightarrow> dec_rows n (concat (map (csv_write_row sample_csv) rows)) = Some rows"
proof (induction rows arbitrary: n)
  case Nil
  then show ?case by (cases n) simp_all
next
  case (Cons r rows)
  then obtain k where "n = Suc k" by (cases n) auto
  with Cons show ?case by (simp add: sample_csv_def) (simp add: enc_nat_def)
qed

lemma sample_csv_law: "csv_law sample_csv"
proof -
  have "length rows \<le> length (concat (map (csv_write_row sample_csv) rows))" for rows
    by (induction rows) (simp_all add: sample_csv_def enc_nat_def)
  then show ?thesis
    using dec_rows_write by (simp add: csv_law_def) (simp add: sample_csv_def)
qed

lemma flush_buffer_simps [simp]:
  "log_buffer (flush_buffer w) = []"
  "written (flush_buffer w) = written w"
  "log_file (flush_buffer w) = written w"
  "entry_end_offsets (flush_buffer w) = entry_end_offsets w"
  "pending_log_responses (flush_buffer w) = pending_log_responses w"
  "response_queue (flush_buffer w) = response_queue w"
  "votes_file (flush_buffer w) = votes_file w"
  by (simp_all add: flush_buffer_def written_def)

lemma buf_write_all_simps [simp]:
  "written (buf_write_all data w) = written w @ data"
  "entry_end_offsets (buf_write_all data w) = entry_end_offsets w"
  "pending_log_responses (buf_write_all data w) = pending_log_responses w"
  "response_queue (buf_write_all data w) = response_queue w"
  "votes_file (buf_write_all data w) = votes_file w"
proof -
  have "log_buffer w = []"
    if "BUF_CAPACITY \<le> length data" "length data \<le> BUF_CAPACITY - length (log_buffer w)"
  proof -
    from that have "length (log_buffer w) = 0" unfolding BUF_CAPACITY_def by linarith
    then show ?thesis by simp
  qed
  then show "written (buf_write_all data w) = written w @ data"
    by (auto simp: buf_write_all_def Let_def flush_buffer_def written_def)
qed (simp_all add: buf_write_all_def Let_def)

lemma buf_write_all_file: "prefix (log_file w) (log_file (buf_write_all data w))"
  by (auto simp: buf_write_all_def Let_def flush_buffer_def)

lemma length_end_offsets [simp]: "length (end_offsets es) = length es"
  by (simp add: end_offsets_def)

lemma end_offsets_Nil [simp]: "end_offsets [] = []"
  by (simp add: end_offsets_def)

lemma end_offsets_nth: "i < length es \<Longrightarrow> end_offsets es ! i = of_nat (length (concat (take (Suc i) es)))"
  by (simp add: end_offsets_def)

lemma end_offsets_snoc:
  "end_offsets (es @ [d]) = end_offsets es @ [of_nat (length (concat es) + length d)]"
  by (simp add: end_offsets_def)

lemma take_end_offsets: "take n (end_offsets es) = end_offsets (take n es)"
proof (rule nth_equalityI)
  fix i
  assume "i < length (take n (end_offsets es))"
  then have "i < n" "i < length es" by simp_all
  then show "take n (end_offsets es) ! i = end_offsets (take n es) ! i"
    by (simp add: end_offsets_nth min_absorb1)
qed simp

lemma last_end_offsets: "es \<noteq> [] \<Longrightarrow> last (end_offsets es) = of_nat (length (concat es))"
  by (cases es rule: rev_cases) (simp_all add: end_offsets_snoc)

lemma last_end_offset_holds:
  "entry_end_offsets w = end_offsets es \<Longrightarrow> last_end_offset w = of_nat (length (concat es))"
proof (cases "es = []")
  case False
  assume "entry_end_offsets w = end_offsets es"
  moreover from False have "end_offsets es \<noteq> []" by (metis length_end_offsets length_0_conv)
  ultimately show ?thesis using False by (simp add: last_end_offset_def last_end_offsets)
qed (simp add: last_end_offset_def end_offsets_def)

lemma set_len_concat:
  "set_len (length (concat (take n es))) (concat es) = concat (take n es)"
proof -
  have "concat es = concat (take n es) @ concat (drop n es)"
    by (metis append_take_drop_id concat_append)
  then show ?thesis by (simp add: set_len_def)
qed

lemma flush_pending_logs_spec:
  assumes "holds_entries es w"
  shows "holds_entries es (flush_pending_logs w)" "log_buffer (flush_pending_logs w) = []"
    "pending_log_responses (flush_pending_logs w) = []" "log_file (flush_pending_logs w) = concat es"
    "votes_file (flush_pending_logs w) = votes_file w"
  using assms by (auto simp: holds_entries_def flush_pending_logs_def Let_def written_def)

lemma process_append_log:
  assumes "holds_entries es w"
  obtains w' where "process_task cv n (PT_AppendLog i data rid) w = Inr w'"
    "holds_entries (es @ [data]) w'" "votes_file w' = votes_file w"
proof -
  let ?w1 = "write_log_entry data w"
  let ?w2 = "?w1\<lparr>entry_end_offsets := entry_end_offsets ?w1 @ [last_end_offset ?w1 + of_nat (length data)],
                  pending_log_responses := pending_log_responses ?w1 @ [PR_LogPersisted i]\<rparr>"
  have off: "entry_end_offsets ?w1 = end_offsets es"
    using assms by (simp add: holds_entries_def write_log_entry_def)
  have "prefix (concat (take (length es - length (pending_log_responses w)) es)) (log_file ?w1)"
    using assms buf_write_all_file [of w data] prefix_order.trans
    unfolding holds_entries_def write_log_entry_def by blast
  moreover have "written ?w2 = written w @ data"
    using buf_write_all_simps(1) [of data w] by (simp add: written_def write_log_entry_def)
  ultimately have "holds_entries (es @ [data]) ?w2"
    using assms off by (simp add: holds_entries_def end_offsets_snoc last_end_offset_holds write_log_entry_def)
  then show thesis
    using that flush_pending_logs_spec(1,5) [of "es @ [data]" ?w2]
    by (simp add: process_task_def Let_def write_log_entry_def)
qed

lemma process_truncate_log:
  assumes "holds_entries es w" "n \<le> length es" "length (concat es) < 2 ^ 64"
  obtains w' where "process_task cv b (PT_TruncateLog n) w = Inr w'"
    "holds_entries (take n es) w'" "log_file w' = concat (take n es)" "votes_file w' = votes_file w"
proof -
  let ?w1 = "flush_pending_logs w"
  note fl = flush_pending_logs_spec [OF assms(1)]
  have off: "entry_end_offsets ?w1 = end_offsets es"
    using fl(1) by (simp add: holds_entries_def)
  obtain pos where pos: "(if n = 0 then Inr 0 else index_checked (entry_end_offsets ?w1) (n - 1)) = (Inr pos :: u64 result)"
    and upos: "unat pos = length (concat (take n es))"
  proof (cases n)
    case 0
    then show ?thesis using that [of 0] by simp
  next
    case (Suc k)
    have "length (concat (take n es)) \<le> length (concat es)"
      by (metis append_take_drop_id concat_append length_append le_add1)
    then have "unat (of_nat (length (concat (take n es))) :: u64) = length (concat (take n es))"
      using assms(3) by (intro unat_of_nat_u64) simp
    with Suc assms(2) off show ?thesis
      using that [of "of_nat (length (concat (take n es)))"]
      by (simp add: index_checked_def end_offsets_nth)
  qed
  let ?w2 = "?w1\<lparr>log_file := set_len (unat pos) (log_file ?w1),
                  entry_end_offsets := take n (entry_end_offsets ?w1)\<rparr>"
  have "process_task cv b (PT_TruncateLog n) w = Inr ?w2"
    using pos by (simp add: process_task_def Let_def)
  moreover have "log_file ?w2 = concat (take n es)"
    using fl(4) upos by (simp add: set_len_concat)
  moreover from this have "holds_entries (take n es) ?w2"
    using fl off assms(2) by (simp add: holds_entries_def take_end_offsets written_def min_absorb2)
  ultimately show thesis using that fl(5) by simp
qed


lemma process_append_vote:
  assumes "holds_entries es w"
  obtains w' where "process_task cv b (PT_AppendVote i t c) w = Inr w'"
    "holds_entries es w'" "log_file w' = concat es"
    "votes_file w' = votes_file w @ csv_write_row cv \<lparr> vote_term = t, vote_candidate_id = c \<rparr>"
proof -
  let ?w1 = "persist_vote cv t c (flush_pending_logs w)"
  let ?w2 = "?w1\<lparr>response_queue := response_queue ?w1 @ [PR_VotePersisted i t c]\<rparr>"
  note fl = flush_pending_logs_spec [OF assms]
  have "holds_entries es ?w2"
    using fl(1) by (simp add: holds_entries_def persist_vote_def written_def)
  then show thesis
    using that [of ?w2] fl by (simp add: process_task_def persist_vote_def Let_def)
qed

text \<open>Every task refines its effect on the abstract log, and never panics when it is in range.\<close>

lemma process_task_refines:
  assumes "holds_entries es w" "task_ok task es" "length (concat es) < 2 ^ 64"
  obtains w' where "process_task cv b task w = Inr w'" "holds_entries (spec_task task es) w'"
    "votes_file w' = votes_file w @ concat (map (csv_write_row cv) (spec_vote task))"
proof (cases task)
  case (PT_AppendVote i t c)
  show ?thesis
    by (rule process_append_vote [OF assms(1), of cv b i t c]) (use PT_AppendVote that in simp)
next
  case (PT_AppendLog i d r)
  show ?thesis
    by (rule process_append_log [OF assms(1), of cv b i d r]) (use PT_AppendLog that in simp)
next
  case (PT_TruncateLog n)
  with assms(2) have n: "n \<le> length es" by simp
  show ?thesis
    by (rule process_truncate_log [OF assms(1) n assms(3), of cv b]) (use PT_TruncateLog that in simp)
qed

lemma length_concat_take: "length (concat (take n es)) \<le> length (concat es)"
  by (metis append_take_drop_id concat_append length_append le_add1)

lemma spec_task_bytes:
  "length (concat (spec_task t es)) + appended_bytes ts \<le> length (concat es) + appended_bytes (t # ts)"
  using length_concat_take by (cases t) auto

lemma tasks_in_range_append:
  "tasks_in_range (ts @ us) es \<longleftrightarrow> tasks_in_range ts es \<and> tasks_in_range us (fold spec_task ts es)"
  by (induction ts arbitrary: es) auto

lemma process_tasks_refine:
  assumes "holds_entries es w" "tasks_in_range ts es" "length (concat es) + appended_bytes ts < 2 ^ 64"
  obtains w' where "fold_res (process_task cv b) ts w = Inr w'" "holds_entries (fold spec_task ts es) w'"
    "votes_file w' = votes_file w @ concat (map (csv_write_row cv) (concat (map spec_vote ts)))"
  using assms
proof (induction ts arbitrary: es w thesis)
  case Nil
  then show ?case by simp
next
  case (Cons t ts)
  from Cons.prems(4) have size_es: "length (concat es) < 2 ^ 64" by simp
  from Cons.prems(3) have ok: "task_ok t es" "tasks_in_range ts (spec_task t es)" by simp_all
  obtain w1 where w1: "process_task cv b t w = Inr w1" "holds_entries (spec_task t es) w1"
    "votes_file w1 = votes_file w @ concat (map (csv_write_row cv) (spec_vote t))"
    by (rule process_task_refines [OF Cons.prems(2) ok(1) size_es])
  have "length (concat (spec_task t es)) + appended_bytes ts < 2 ^ 64"
    using spec_task_bytes [of t es ts] Cons.prems(4) by simp
  from Cons.IH [OF _ w1(2) ok(2) this] obtain w2 where "fold_res (process_task cv b) ts w1 = Inr w2"
    "holds_entries (fold spec_task ts (spec_task t es)) w2"
    "votes_file w2 = votes_file w1 @ concat (map (csv_write_row cv) (concat (map spec_vote ts)))"
    by blast
  with w1 show ?case using Cons.prems(1) by simp
qed

text \<open>A whole pass, which ends with a flush.\<close>

lemma run_pass_spec:
  assumes "holds_entries es w" "tasks_in_range ts es" "length (concat es) + appended_bytes ts < 2 ^ 64"
  shows "\<exists>w'. run_pass cv (Recv_Tasks ts) w = Inr w' \<and>
     read_log w' = concat (fold spec_task ts es) \<and>
     holds_entries (fold spec_task ts es) w' \<and> pending_log_responses w' = [] \<and>
     votes_file w' = votes_file w @ concat (map (csv_write_row cv) (concat (map spec_vote ts)))"
proof -
  obtain w1 where w1: "fold_res (process_task cv BATCH_SIZE) ts w = Inr w1"
    "holds_entries (fold spec_task ts es) w1"
    "votes_file w1 = votes_file w @ concat (map (csv_write_row cv) (concat (map spec_vote ts)))"
    by (rule process_tasks_refine [OF assms])
  let ?w = "flush_pending_logs w1"
  have "run_pass cv (Recv_Tasks ts) w = Inr ?w"
    using w1(1) by (simp add: run_pass_def flush_pending_logs_def)
  with flush_pending_logs_spec [OF w1(2)] w1(3) show ?thesis by (simp add: read_log_def)
qed

section \<open>The contract of the worker\<close>

text \<open>
  What the state machine relies on: a pass over tasks that are admissible for what the
  files hold brings the files to what the tasks say. It follows that the division of a
  sequence of tasks into passes does not matter.
\<close>

locale log_store =
  fixes pass :: "'t list \<Rightarrow> 'w \<Rightarrow> 'w result"
    and holds :: "'l \<Rightarrow> 'w \<Rightarrow> bool"
    and spec :: "'t \<Rightarrow> 'l \<Rightarrow> 'l"
    and admits :: "'t list \<Rightarrow> 'l \<Rightarrow> bool"
  assumes pass_refines: "holds l w \<Longrightarrow> admits ts l \<Longrightarrow> \<exists>w'. pass ts w = Inr w' \<and> holds (fold spec ts l) w'"
    and admits_append: "admits (ts @ us) l \<Longrightarrow> admits ts l \<and> admits us (fold spec ts l)"
begin

lemma passes_refine:
  "holds l w \<Longrightarrow> admits (concat tss) l \<Longrightarrow>
   \<exists>w'. fold_res pass tss w = Inr w' \<and> holds (fold spec (concat tss) l) w'"
proof (induction tss arbitrary: l w)
  case (Cons ts tss)
  then have ok: "admits ts l" "admits (concat tss) (fold spec ts l)" using admits_append by auto
  from pass_refines [OF Cons.prems(1) ok(1)] obtain w1 where "pass ts w = Inr w1" "holds (fold spec ts l) w1" by blast
  with Cons.IH [OF _ ok(2)] show ?case by force
qed auto

end

text \<open>The files of a worker between two passes: entries and rows of votes, and nothing in the buffer.\<close>

definition stored :: "csv \<Rightarrow> u8 list list \<times> VoteRow list \<Rightarrow> PersistenceWorker \<Rightarrow> bool" where
  "stored cv = (\<lambda>(es, rows) w.
     holds_entries es w \<and> log_file w = concat es \<and> pending_log_responses w = [] \<and>
     votes_file w = concat (map (csv_write_row cv) rows))"

definition spec_files :: "PersistenceTaskType \<Rightarrow> u8 list list \<times> VoteRow list \<Rightarrow> u8 list list \<times> VoteRow list" where
  "spec_files t = (\<lambda>(es, rows). (spec_task t es, rows @ spec_vote t))"

definition admitted :: "PersistenceTaskType list \<Rightarrow> u8 list list \<times> VoteRow list \<Rightarrow> bool" where
  "admitted ts = (\<lambda>(es, rows). tasks_in_range ts es \<and> length (concat es) + appended_bytes ts < 2 ^ 64)"

lemma fold_spec_files:
  "fold spec_files ts (es, rows) = (fold spec_task ts es, rows @ concat (map spec_vote ts))"
  by (induction ts arbitrary: es rows) (simp_all add: spec_files_def)

lemma appended_bytes_append: "appended_bytes (ts @ us) = appended_bytes ts + appended_bytes us"
  by (induction ts rule: appended_bytes.induct) simp_all

lemma spec_tasks_bytes: "length (concat (fold spec_task ts es)) \<le> length (concat es) + appended_bytes ts"
proof (induction ts arbitrary: es)
  case (Cons t ts)
  have "length (concat (fold spec_task ts (spec_task t es))) \<le> length (concat (spec_task t es)) + appended_bytes ts"
    by (rule Cons.IH)
  also have "\<dots> \<le> length (concat es) + appended_bytes (t # ts)" by (rule spec_task_bytes)
  finally show ?case by simp
qed simp

interpretation log_files: log_store "\<lambda>ts. run_pass cv (Recv_Tasks ts)" "stored cv" spec_files admitted
proof (unfold_locales, goal_cases)
  case (1 l w ts)
  obtain es rows where l: "l = (es, rows)" by (cases l)
  from run_pass_spec [of es w ts cv] 1 show ?case
    by (auto simp: l stored_def admitted_def fold_spec_files read_log_def)
next
  case (2 ts us l)
  obtain es rows where l: "l = (es, rows)" by (cases l)
  with 2 spec_tasks_bytes [of ts es] show ?case
    by (auto simp: admitted_def fold_spec_files tasks_in_range_append appended_bytes_append)
qed

section \<open>Properties\<close>

text \<open>
  C17: One pass of the worker refines the abstract log. Every sequence of tasks
  without an out-of-range truncation is processed without a panic; afterwards
  the file itself (nothing is left in the buffer) holds exactly the abstract
  log, the offsets are those of its entries, no response is pending, and the
  votes file has one row more for each vote.
\<close>

theorem run_pass_refines:
  assumes "holds_entries es w" "tasks_in_range ts es" "length (concat es) + appended_bytes ts < 2 ^ 64"
  shows "\<exists>w'. run_pass cv (Recv_Tasks ts) w = Inr w' \<and>
     read_log w' = concat (fold spec_task ts es) \<and>
     holds_entries (fold spec_task ts es) w' \<and> pending_log_responses w' = [] \<and>
     votes_file w' = votes_file w @ concat (map (csv_write_row cv) (concat (map spec_vote ts)))"
  by (rule run_pass_spec [OF assms])

theorem run_pass_refines_witness:
  "\<exists>w'. run_pass sample_csv (Recv_Tasks [PT_AppendLog 1 [1, 2] 1, PT_AppendVote 2 3 1, PT_AppendLog 3 [4] 3,
                                          PT_TruncateLog 1, PT_AppendLog 4 [9, 9] 4])
          (new_persistence_worker [] [] []) = Inr w' \<and> read_log w' = [1, 2, 9, 9]"
proof -
  have "holds_entries [] (new_persistence_worker [] [] [])"
    by (simp add: holds_entries_def new_persistence_worker_def written_def)
  from run_pass_refines [OF this, of "[PT_AppendLog 1 [1, 2] 1, PT_AppendVote 2 3 1, PT_AppendLog 3 [4] 3,
      PT_TruncateLog 1, PT_AppendLog 4 [9, 9] 4]" sample_csv]
  show ?thesis by auto
qed

end
