(* ===== verification/Recovery.thy ===== *)
theory Recovery
  imports Persistence Startup_State Capnp_Instance
begin

text \<open>
  Recovery at start-up, \<open>startup/recovery.rs\<close>: the log file is parsed as
  concatenated messages up to the first one that cannot be read, the term starts
  are rebuilt, and the next term is one more than every vote and log term.

  The parsing loop advances by the number of bytes the library consumed, which
  the source does not check to be positive. The model gives it as much fuel as
  there are bytes; running out is the result \<^const>\<open>None\<close>.
\<close>

section \<open>Parsing the log\<close>

fun parse_entries :: "capnp \<Rightarrow> nat \<Rightarrow> u8 list \<Rightarrow> nat \<Rightarrow> (OwnedLogEntry list \<times> u64 list) option" where
  "parse_entries cp 0 log_bytes offset =
     (if offset < length log_bytes then None else Some ([], []))"
| "parse_entries cp (Suc fuel) log_bytes offset =
     (if offset < length log_bytes then
        (case read_flat cp (drop offset log_bytes) of
           Some bytes_consumed \<Rightarrow>
             (case log_entry_from_bytes cp (take bytes_consumed (drop offset log_bytes)) of
                Some entry \<Rightarrow>
                  map_option (\<lambda>(es, offs). (entry # es, of_nat (offset + bytes_consumed) # offs))
                    (parse_entries cp fuel log_bytes (offset + bytes_consumed))
              | None \<Rightarrow> parse_entries cp fuel log_bytes (offset + bytes_consumed))
         | None \<Rightarrow> Some ([], []))
      else Some ([], []))"

text \<open>The pass over the enumerated entries with the previous term.\<close>

fun term_starts_from :: "capnp \<Rightarrow> nat \<Rightarrow> u64 \<Rightarrow> OwnedLogEntry list \<Rightarrow> (u64 \<rightharpoonup> u64) \<Rightarrow> (u64 \<rightharpoonup> u64)" where
  "term_starts_from cp i prev_term [] m = m"
| "term_starts_from cp i prev_term (e # es) m =
     (if entry_term cp e \<noteq> prev_term
      then term_starts_from cp (Suc i) (entry_term cp e) es (m(entry_term cp e \<mapsto> of_nat i))
      else term_starts_from cp (Suc i) prev_term es m)"

definition deserialize_replication_log ::
  "capnp \<Rightarrow> u8 list \<Rightarrow> (OwnedLogEntry list \<times> (u64 \<rightharpoonup> u64) \<times> u64 \<times> u64 \<times> u64 list) option" where
  "deserialize_replication_log cp log_bytes =
     (if log_bytes = [] then Some ([], (\<lambda>_. None), 0, 0, [])
      else
        map_option (\<lambda>(log, offsets).
            (log,
             term_starts_from cp 0 0 log (\<lambda>_. None),
             (if log = [] then 0 else entry_index cp (last log)),
             (if log = [] then 0 else entry_term cp (last log)),
             offsets))
          (parse_entries cp (length log_bytes) log_bytes 0))"

section \<open>Votes\<close>

definition highest_vote_term :: "VoteRow list \<Rightarrow> u64" where
  "highest_vote_term votes = fold max (map vote_term votes) 0"

definition process_votes :: "VoteRow list \<Rightarrow> u64 \<Rightarrow> (u64 \<rightharpoonup> u32) \<times> u64" where
  "process_votes votes last_term =
     (fold (\<lambda>v m. m(vote_term v \<mapsto> vote_candidate_id v)) votes (\<lambda>_. None),
      max (highest_vote_term votes) last_term + 1)"

definition recover_persisted_data :: "capnp \<Rightarrow> u8 list \<Rightarrow> VoteRow list \<Rightarrow> RecoveredData option" where
  "recover_persisted_data cp log_bytes votes =
     map_option (\<lambda>(log, starts, last_index, last_term, offsets).
         let (votes_map, nxt) = process_votes votes last_term in
         \<lparr> rd_replication_log = log,
           rd_term_start_index = starts,
           rd_last_log_index = last_index,
           rd_last_log_term = last_term,
           rd_term_votes = votes_map,
           rd_next_term = nxt,
           rd_log_entry_end_offsets = offsets \<rparr>)
       (deserialize_replication_log cp log_bytes)"

section \<open>Offsets\<close>

text \<open>The end offsets of entries that start at a given position of the file.\<close>

definition offsets_from :: "nat \<Rightarrow> u8 list list \<Rightarrow> u64 list" where
  "offsets_from base es = map (\<lambda>i. of_nat (base + length (concat (take (Suc i) es)))) [0..<length es]"

section \<open>Lemmas\<close>

lemma offsets_from_simps:
  "offsets_from base [] = []"
  "offsets_from base (e # es) = of_nat (base + length e) # offsets_from (base + length e) es"
  by (simp_all add: offsets_from_def upt_conv_Cons map_Suc_upt [symmetric] add.assoc del: upt_Suc)

lemma offsets_from_0: "offsets_from 0 es = end_offsets es"
  by (simp add: offsets_from_def end_offsets_def)

lemma read_back:
  "readable cp e \<Longrightarrow> log_entry_from_bytes cp e = Some (OwnedLogEntry e)"
  unfolding readable_def log_entry_from_bytes_def by (metis append_Nil2 option.simps(5))

lemma parse_entries_readable:
  assumes "list_all (readable cp) es" "tail = [] \<or> read_flat cp tail = None"
    and "length es + (if tail = [] then 0 else 1) \<le> fuel"
  shows "parse_entries cp fuel (pre @ concat es @ tail) (length pre) =
         Some (map OwnedLogEntry es, offsets_from (length pre) es)"
  using assms
proof (induction es arbitrary: pre fuel)
  case Nil
  then show ?case by (cases fuel) (auto simp: offsets_from_simps split: if_splits)
next
  case (Cons e es)
  then obtain f where f: "fuel = Suc f" by (cases fuel) auto
  from Cons.prems have e: "readable cp e" by simp
  then have "read_flat cp (e @ concat es @ tail) = Some (length e)" "e \<noteq> []"
    by (simp_all add: readable_def)
  moreover have "parse_entries cp f ((pre @ e) @ concat es @ tail) (length (pre @ e)) =
      Some (map OwnedLogEntry es, offsets_from (length (pre @ e)) es)"
    using Cons.prems f by (intro Cons.IH) auto
  ultimately show ?case
    using f read_back [OF e] by (simp add: offsets_from_simps)
qed

lemma length_concat_readable:
  "list_all (readable cp) es \<Longrightarrow> length es \<le> length (concat es)"
proof (induction es)
  case (Cons e es)
  then have "e \<noteq> []" by (simp add: readable_def)
  with Cons show ?case by (cases e) simp_all
qed simp

text \<open>A file that holds readable entries and then bytes that cannot be read.\<close>

lemma deserialize_readable:
  assumes "list_all (readable cp) es" "tail = [] \<or> read_flat cp tail = None"
  shows "deserialize_replication_log cp (concat es @ tail) =
         Some (map OwnedLogEntry es, term_starts_from cp 0 0 (map OwnedLogEntry es) (\<lambda>_. None),
               (if es = [] then 0 else entry_index cp (OwnedLogEntry (last es))),
               (if es = [] then 0 else entry_term cp (OwnedLogEntry (last es))),
               end_offsets es)"
proof (cases "concat es @ tail = []")
  case True
  then have "es = []"
    using length_concat_readable [OF assms(1)] by (metis append_is_Nil_conv le_zero_eq length_0_conv)
  with True show ?thesis by (simp add: deserialize_replication_log_def end_offsets_def)
next
  case False
  have "length es + (if tail = [] then 0 else 1) \<le> length (concat es @ tail)"
    using length_concat_readable [OF assms(1)] by (cases tail) auto
  from parse_entries_readable [OF assms this, of "[]"] False show ?thesis
    by (simp add: deserialize_replication_log_def offsets_from_0 last_map)
qed

text \<open>A prefix of the bytes of readable entries is some of the entries and a part of the next.\<close>

lemma take_concat_readable:
  assumes "list_all (readable cp) es"
  obtains j tail where "take k (concat es) = concat (take j es) @ tail" "j \<le> length es"
    "tail = [] \<or> read_flat cp tail = None"
    "\<And>i. i \<le> length es \<Longrightarrow> length (concat (take i es)) \<le> k \<Longrightarrow> i \<le> j"
  using assms
proof (induction es arbitrary: k thesis)
  case Nil
  then show ?case by simp
next
  case (Cons e es)
  from Cons.prems(2) have e: "readable cp e" and es: "list_all (readable cp) es" by simp_all
  show ?case
  proof (cases "length e \<le> k")
    case True
    obtain j tail where j: "take (k - length e) (concat es) = concat (take j es) @ tail" "j \<le> length es"
      "tail = [] \<or> read_flat cp tail = None"
      "\<And>i. i \<le> length es \<Longrightarrow> length (concat (take i es)) \<le> k - length e \<Longrightarrow> i \<le> j"
      using Cons.IH [OF _ es, of "k - length e"] by blast
    show ?thesis
    proof (rule Cons.prems(1) [of "Suc j" tail])
      fix i
      assume "i \<le> length (e # es)" "length (concat (take i (e # es))) \<le> k"
      with j(4) [of "i - 1"] show "i \<le> Suc j" by (cases i) auto
    qed (use True j in auto)
  next
    case False
    have "i \<le> 0" if "i \<le> length (e # es)" "length (concat (take i (e # es))) \<le> k" for i
      using that False by (cases i) auto
    moreover have "take k e = [] \<or> read_flat cp (take k e) = None"
      using e False by (auto simp: readable_def)
    ultimately show ?thesis
      using Cons.prems(1) [of 0 "take k e"] False by simp
  qed
qed


lemma fold_max_ge: "x \<le> (a :: u64) \<or> x \<in> set xs \<Longrightarrow> x \<le> fold max xs a"
proof (induction xs arbitrary: a)
  case (Cons y ys)
  then show ?case by (metis fold_simps(2) max.cobounded1 max.cobounded2 order_trans set_ConsD)
qed simp

lemma votes_map_Some:
  "fold (\<lambda>v m. m(vote_term v \<mapsto> vote_candidate_id v)) votes m0 t \<noteq> None \<longleftrightarrow>
     m0 t \<noteq> None \<or> t \<in> vote_term ` set votes"
  by (induction votes arbitrary: m0) auto

lemma word_less_inc: "(x :: u64) \<le> y \<Longrightarrow> y \<noteq> u64_max \<Longrightarrow> x < y + 1"
  by (simp add: word_less_nat_alt word_le_nat_alt unat_inc)

text \<open>
  Recovery yields a fresh term: every term with a recorded vote, and the term of the last
  log entry, lies below the next term, and every persisted vote is in the recovered map.
\<close>

lemma recovered_next_term_fresh:
  assumes "process_votes votes last_term = (votes_map, nxt)"
    and "max (highest_vote_term votes) last_term \<noteq> u64_max"
  shows "(\<forall>t. votes_map t \<noteq> None \<longrightarrow> t < nxt) \<and> last_term < nxt \<and>
         (\<forall>v \<in> set votes. votes_map (vote_term v) \<noteq> None)"
proof -
  let ?m = "max (highest_vote_term votes) last_term"
  have nxt: "nxt = ?m + 1"
    and vm: "votes_map t \<noteq> None \<longleftrightarrow> t \<in> vote_term ` set votes" for t
    using assms(1) votes_map_Some [of votes "\<lambda>_. None" t] by (auto simp: process_votes_def)
  have "t \<le> ?m" if "votes_map t \<noteq> None" for t
    using that vm fold_max_ge [of t 0 "map vote_term votes"]
    by (auto simp: highest_vote_term_def max.coboundedI1)
  with vm nxt assms(2) word_less_inc show ?thesis by (metis imageI max.cobounded2)
qed

section \<open>Properties\<close>

text \<open>
  C4: Crash consistency. If the worker holds the entries \<open>es\<close> and the process
  stops with any file between what was flushed and what was written, recovery
  returns, and the log it returns is a prefix of \<open>es\<close> that contains every entry
  whose persistence was reported: only entries with a pending response can be lost.
\<close>

theorem crash_recovery_prefix:
  assumes "holds_entries es w" "list_all (readable cp) es"
    and "prefix (log_file w) file" "prefix file (written w)"
  shows "\<exists>j. length es - length (pending_log_responses w) \<le> j \<and> j \<le> length es \<and>
     map_option fst (deserialize_replication_log cp file) = Some (map OwnedLogEntry (take j es))"
proof -
  from assms(1,4) have f_eq: "file = take (length file) (concat es)"
    by (metis append_eq_conv_conj holds_entries_def prefixE)
  obtain j tail where j: "take (length file) (concat es) = concat (take j es) @ tail" "j \<le> length es"
    "tail = [] \<or> read_flat cp tail = None"
    and most: "\<And>i. i \<le> length es \<Longrightarrow> length (concat (take i es)) \<le> length file \<Longrightarrow> i \<le> j"
    by (rule take_concat_readable [OF assms(2), of "length file"]) blast
  let ?n = "length es - length (pending_log_responses w)"
  have "prefix (concat (take ?n es)) file"
    using assms(1,3) prefix_order.trans unfolding holds_entries_def by blast
  then have "?n \<le> j" using most [of ?n] prefix_length_le by auto
  moreover have "list_all (readable cp) (take j es)"
    using assms(2) by (metis append_take_drop_id list_all_append)
  ultimately show ?thesis
    using deserialize_readable [OF _ j(3), of "take j es"] j f_eq by auto
qed

theorem crash_recovery_prefix_witness:
  "\<exists>j. 1 \<le> j \<and> j \<le> 2 \<and>
     map_option fst (deserialize_replication_log sample_capnp (frame [] @ [1])) =
       Some (map OwnedLogEntry (take j [frame [], frame [7]]))"
proof -
  let ?w = "\<lparr> log_file = frame [], log_buffer = frame [7], votes_file = [],
              entry_end_offsets = [1, 4], pending_log_responses = [PR_LogPersisted 5],
              response_queue = [PR_LogPersisted 4] \<rparr>"
  have "holds_entries [frame [], frame [7]] ?w"
    by (simp add: holds_entries_def written_def end_offsets_def frame_def enc_nat_def upt_conv_Cons
        del: upt_Suc)
  moreover have "list_all (readable sample_capnp) [frame [], frame [7]]"
    by (simp add: frame_readable sample_capnp_def)
  moreover have "prefix (log_file ?w) (frame [] @ [1])" "prefix (frame [] @ [1]) (written ?w)"
    by (simp_all add: written_def frame_def enc_nat_def)
  ultimately show ?thesis
    using crash_recovery_prefix [of "[frame [], frame [7]]" ?w sample_capnp "frame [] @ [1]"]
    by (simp add: numeral_2_eq_2)
qed

end
