(* ===== verification/Write_Ahead.thy ===== *)
theory Write_Ahead
  imports Raft_Executor Recovery
begin

text \<open>
  What a handler leaves alone, and how the tasks it sends to the persistence
  worker account for what it changes. \<open>quiet s s'\<close> holds of a step that touches
  neither the log nor the votes nor the terms; \<open>logged s s'\<close> holds of a step that
  appends persistence tasks whose effect on the log and on the votes is exactly
  the change in memory. Every handler of the three roles is one or the other.
\<close>

section \<open>The relations\<close>

definition log_bytes :: "SharedState \<Rightarrow> u8 list list" where
  "log_bytes s = map as_bytes (raft_log s)"

definition record_votes :: "VoteRow list \<Rightarrow> (u64 \<rightharpoonup> u32) \<Rightarrow> (u64 \<rightharpoonup> u32)" where
  "record_votes rows m = fold (\<lambda>v m. m(vote_term v \<mapsto> vote_candidate_id v)) rows m"

definition logged :: "SharedState \<Rightarrow> SharedState \<Rightarrow> bool" where
  "logged s s' \<longleftrightarrow>
     (\<exists>ts. persistence_work s' = persistence_work s @ ts \<and> tasks_in_range ts (log_bytes s) \<and>
           fold spec_task ts (log_bytes s) = log_bytes s' \<and>
           record_votes (concat (map spec_vote ts)) (term_votes s) = term_votes s') \<and>
     persistence_connected s' = persistence_connected s"

definition quiet :: "SharedState \<Rightarrow> SharedState \<Rightarrow> bool" where
  "quiet s s' \<longleftrightarrow>
     server_state s' = server_state s \<and>
     raft_log s' = raft_log s \<and>
     last_log_index (vol s') = last_log_index (vol s) \<and>
     last_log_term (vol s') = last_log_term (vol s) \<and>
     next_log_index (vol s') = next_log_index (vol s) \<and>
     next_term (vol s') = next_term (vol s) \<and>
     replication_log_term_starts (vol s') = replication_log_term_starts (vol s) \<and>
     persistence_work s' = persistence_work s \<and>
     persistence_connected s' = persistence_connected s \<and>
     term_votes s' = term_votes s \<and>
     identity s' = identity s \<and>
     quorum_size s' = quorum_size s \<and>
     receiver_alive s' = receiver_alive s \<and>
     length (quorum_worker_tasks s') = length (quorum_worker_tasks s) \<and>
     prefix (responses s) (responses s')"

text \<open>
  The two ways to win: the node's own vote is persisted when a quorum of votes is
  in, or a vote completes the quorum after the node's own vote was persisted.
\<close>

definition won_on_persisted :: "PersistenceResponseType \<Rightarrow> SharedState \<Rightarrow> SharedState \<Rightarrow> bool" where
  "won_on_persisted r s s' \<longleftrightarrow>
     (\<exists>i t c msg pd votes. r = PR_VotePersisted i t c \<and> outstanding_messages s i = Some msg \<and>
        message_type msg = OM_CandidateElection pd votes \<and> quorum_size s \<le> votes \<and>
        s' = become_leader t (remove_outstanding i s))"

definition won_on_vote :: "LocalQuorumTaskResponseType \<Rightarrow> SharedState \<Rightarrow> SharedState \<Rightarrow> bool" where
  "won_on_vote r s s' \<longleftrightarrow>
     (\<exists>i t v msg votes. r = QR_RequestVoteResponse i t v \<and> outstanding_messages s i = Some msg \<and>
        message_type msg = OM_CandidateElection True votes \<and>
        quorum_size s \<le> (if v then votes + 1 else votes) \<and>
        s' = become_leader t (remove_outstanding i s))"

section \<open>Lemmas\<close>

lemmas broadcast_frame [simp] = core_eqD [OF broadcast_committed_entries_core]
lemmas bump_frame [simp] = core_eqD [OF core_bump_version]
lemmas retry_frame [simp] = core_eqD [OF retry_deferred_broadcast_core]

lemma record_votes_simps [simp]:
  "record_votes [] m = m"
  "record_votes (v # vs) m = record_votes vs (m(vote_term v \<mapsto> vote_candidate_id v))"
  "record_votes (vs @ ws) m = record_votes ws (record_votes vs m)"
  by (simp_all add: record_votes_def)

lemma loggedI:
  assumes "persistence_work s' = persistence_work s @ ts" "tasks_in_range ts (log_bytes s)"
    "fold spec_task ts (log_bytes s) = log_bytes s'"
    "record_votes (concat (map spec_vote ts)) (term_votes s) = term_votes s'"
    "persistence_connected s' = persistence_connected s"
  shows "logged s s'"
  using assms unfolding logged_def by blast

lemma logged_same:
  "raft_log s' = raft_log s \<Longrightarrow> term_votes s' = term_votes s \<Longrightarrow> persistence_work s' = persistence_work s \<Longrightarrow>
   persistence_connected s' = persistence_connected s \<Longrightarrow> logged s s'"
  by (rule loggedI [of _ _ "[]"]) (simp_all add: log_bytes_def)

lemma logged_refl [simp]: "logged s s"
  by (simp add: logged_same)

lemma logged_trans [trans]:
  assumes "logged s t" "logged t u"
  shows "logged s u"
proof -
  from assms obtain ts us where
    ts: "persistence_work t = persistence_work s @ ts" "tasks_in_range ts (log_bytes s)"
    "fold spec_task ts (log_bytes s) = log_bytes t"
    "record_votes (concat (map spec_vote ts)) (term_votes s) = term_votes t" and
    us: "persistence_work u = persistence_work t @ us" "tasks_in_range us (log_bytes t)"
    "fold spec_task us (log_bytes t) = log_bytes u"
    "record_votes (concat (map spec_vote us)) (term_votes t) = term_votes u"
    unfolding logged_def by blast
  show ?thesis
    by (rule loggedI [of _ _ "ts @ us"]) (use ts us assms in \<open>simp_all add: tasks_in_range_append logged_def\<close>)
qed

lemma update_commit_index_frame [simp]:
  "raft_log (update_commit_index n s) = raft_log s"
  "persistence_work (update_commit_index n s) = persistence_work s"
  "persistence_connected (update_commit_index n s) = persistence_connected s"
  "term_votes (update_commit_index n s) = term_votes s"
  by (simp_all add: update_commit_index_def)

lemma apply_log_entry_logged:
  assumes "persistence_connected s"
  shows "logged s (apply_log_entry cp r cb s)"
proof -
  obtain data t where t: "(case ae_entry r of Some e \<Rightarrow> (le_data e, note_entry e (s\<lparr>next_message_id := next_message_id s + 1\<rparr>))
       | None \<Rightarrow> ([], s\<lparr>next_message_id := next_message_id s + 1\<rparr>)) = (data, t)" by fastforce
  then have frame: "raft_log t = raft_log s" "persistence_work t = persistence_work s"
    "persistence_connected t = persistence_connected s" "term_votes t = term_votes s"
    by (auto simp: note_entry_def split: option.splits)
  show ?thesis
  proof (cases "log_entry_from_bytes cp data")
    case None
    then have "apply_log_entry cp r cb s = send_callback cb (wanted_previous_entry t) t"
      by (simp add: apply_log_entry_def Let_def t)
    with frame show ?thesis by (simp add: logged_same)
  next
    case (Some e)
    then have e: "as_bytes e = data" using log_entry_from_bytes_Some by fastforce
    let ?ts = "[PT_AppendLog (next_message_id s) data (ae_request_id r)]"
    have "raft_log (apply_log_entry cp r cb s) = raft_log s @ [e]"
      "persistence_work (apply_log_entry cp r cb s) = persistence_work s @ ?ts"
      "persistence_connected (apply_log_entry cp r cb s) = persistence_connected s"
      "term_votes (apply_log_entry cp r cb s) = term_votes s"
      using assms Some frame
      by (simp_all add: apply_log_entry_def Let_def t persistence_send_def insert_outstanding_def)
    with e show ?thesis
      by (intro loggedI [of _ _ ?ts]) (simp_all add: log_bytes_def)
  qed
qed


lemma quiet_refl [simp, intro]: "quiet s s"
  by (simp add: quiet_def)

lemma quiet_trans [trans]: "quiet s t \<Longrightarrow> quiet t u \<Longrightarrow> quiet s u"
  by (simp add: quiet_def) (blast intro: prefix_order.trans)

lemma quiet_core:
  assumes "core s' = core s"
  shows "quiet s s'"
  using core_eqD [OF assms] by (simp add: quiet_def)

lemma quiet_send_callback [simp]: "quiet s (send_callback cb r s)"
  by (simp add: quiet_def send_callback_responses)

lemma quiet_insert_outstanding [simp]: "quiet s (insert_outstanding i m s)"
  by (simp add: quiet_def insert_outstanding_def)

lemma quiet_remove_outstanding [simp]: "quiet s (remove_outstanding i s)"
  by (simp add: quiet_def remove_outstanding_def)

lemma quiet_push_all_quorum [simp]: "quiet s (push_all_quorum t s)"
  by (simp add: quiet_def push_all_quorum_def)

lemma quiet_push_quorum [simp]: "quiet s (push_quorum i t s)"
  by (simp add: quiet_def push_quorum_def)

lemma quiet_message_id [simp]: "quiet s (s\<lparr>next_message_id := n\<rparr>)"
  by (simp add: quiet_def)

lemma quiet_queues [simp]:
  "quiet s (s\<lparr>persistence_response := pr\<rparr>)" "quiet s (s\<lparr>quorum_response := qr\<rparr>)"
  by (simp_all add: quiet_def)

lemma quiet_bump_version [simp]: "quiet s (bump_version s)"
  by (simp add: quiet_core)

lemma quiet_broadcast [simp]: "quiet s (broadcast_committed_entries n s)"
  by (simp add: quiet_core)

lemma quiet_retry [simp]: "quiet s (snd (retry_deferred_broadcast s))"
  by (simp add: quiet_core)

lemma quiet_commit [simp]:
  "quiet s (upd_vol (\<lambda>v. v\<lparr>commit_index := n, commit_state := f v\<rparr>) s)"
  by (simp add: quiet_def)

lemma quiet_commit_broadcast [simp]:
  "quiet s (broadcast_committed_entries m (bump_version (upd_vol (\<lambda>v. v\<lparr>commit_index := n, commit_state := f v\<rparr>) s)))"
  by (rule quiet_trans [OF quiet_trans [OF quiet_commit quiet_bump_version] quiet_broadcast])

lemma quiet_update_commit_index [simp]: "quiet s (update_commit_index n s)"
  unfolding update_commit_index_def by (rule quiet_commit_broadcast)

lemma quiet_advance_commit [simp]: "quiet s (advance_commit n s)"
proof (cases "n > commit_index (vol s)")
  case True
  then show ?thesis
    unfolding advance_commit_def
    by (simp only: if_True) (rule quiet_trans [OF quiet_commit_broadcast quiet_push_all_quorum])
qed (simp add: advance_commit_def)

lemma quiet_send_truncate_signal [simp]: "quiet s (send_truncate_signal n t i s)"
  by (simp add: send_truncate_signal_def Let_def quiet_trans [OF quiet_message_id quiet_push_quorum])

lemma quiet_backfill: "handle_backfill_request cp q s = Inr s' \<Longrightarrow> quiet s s'"
  by (auto simp: handle_backfill_request_def handle_follower_ahead_def handle_term_mismatch_def
      send_backfill_data_def Let_def split: prod.splits if_splits option.splits)

lemma quiet_complete_write_batch:
  assumes "complete_write_batch cp i cb s = Inr s'"
  shows "quiet s s'"
proof -
  from assms obtain m where "s' = send_callback cb m (advance_commit i s)"
    by (auto simp: complete_write_batch_def Let_def)
  then show ?thesis using quiet_trans [OF quiet_advance_commit quiet_send_callback] by simp
qed

lemma quiet_after_remove [simp]:
  "quiet s (send_callback cb r (remove_outstanding i s))"
  "quiet s (insert_outstanding j m (remove_outstanding i s))"
  "quiet s (advance_commit n (remove_outstanding i s))"
  using quiet_trans [OF quiet_remove_outstanding quiet_send_callback]
    quiet_trans [OF quiet_remove_outstanding quiet_insert_outstanding]
    quiet_trans [OF quiet_remove_outstanding quiet_advance_commit] by simp_all

lemma quiet_complete_after_remove:
  "complete_write_batch cp i cb (remove_outstanding j s) = Inr s' \<Longrightarrow> quiet s s'"
  by (rule quiet_trans [OF quiet_remove_outstanding quiet_complete_write_batch])

lemma quiet_leader_log_persisted: "leader_log_persisted cp i s = Inr s' \<Longrightarrow> quiet s s'"
  by (auto simp: leader_log_persisted_def Let_def complete_noop_def dest: quiet_complete_after_remove
      split: option.splits OutstandingMessageType.splits if_splits)

lemma quiet_leader_vote_persisted [simp]: "quiet s (leader_vote_persisted i s)"
  by (auto simp: leader_vote_persisted_def Let_def split: option.splits OutstandingMessageType.splits)

lemma quiet_leader_persistence_response: "leader_persistence_response cp r s = Inr s' \<Longrightarrow> quiet s s'"
  by (auto simp: leader_persistence_response_def dest: quiet_leader_log_persisted
      split: PersistenceResponseType.splits)

lemma quiet_handle_append_entries_response:
  "handle_append_entries_response cp i s = Inr s' \<Longrightarrow> quiet s s'"
  by (auto simp: handle_append_entries_response_def Let_def complete_noop_def dest: quiet_complete_after_remove
      split: option.splits OutstandingMessageType.splits if_splits)

lemma quiet_leader_quorum_response: "leader_quorum_response cp r s = Inr s' \<Longrightarrow> quiet s s'"
  by (auto simp: leader_quorum_response_def dest: quiet_handle_append_entries_response
      split: LocalQuorumTaskResponseType.splits)

lemma quiet_fold_res:
  assumes "\<And>x t t'. f x t = Inr t' \<Longrightarrow> quiet t t'" "fold_res f xs s = Inr s'"
  shows "quiet s s'"
  by (rule fold_res_invariant [of xs "quiet s" f s s']) (use assms quiet_trans in blast)+


lemma quiet_process_persistence:
  assumes "process_persistence_responses cp s = Inr (w, s')"
  shows "quiet s s'"
proof -
  from assms have "fold_res (leader_persistence_response cp) (persistence_response s) (s\<lparr>persistence_response := []\<rparr>) = Inr s'"
    by (auto simp: process_persistence_responses_def)
  from quiet_fold_res [OF quiet_leader_persistence_response this] show ?thesis
    by (rule quiet_trans [OF quiet_queues(1)])
qed

lemma quiet_process_quorum:
  assumes "process_quorum_responses cp s = Inr (b, w, s')"
  shows "quiet s s'"
proof -
  from assms have "fold_res (leader_quorum_response cp) (quorum_response s) (s\<lparr>quorum_response := []\<rparr>) = Inr s'"
    by (auto simp: process_quorum_responses_def)
  from quiet_fold_res [OF quiet_leader_quorum_response this] show ?thesis
    by (rule quiet_trans [OF quiet_queues(2)])
qed

text \<open>After its initialisation the leader's time step is quiet: it only moves responses and the commit index.\<close>

lemma leader_time_step_cases:
  assumes "leader_time_step cp ev (d, s) = Inr (c, w, d', s')"
  obtains w0 t where "leader_initialize cp ev (d, s) = Inr (w0, d', t)" "quiet t s'" "c = SC_None"
proof -
  from assms obtain w0 t w1 s1 b w2 s2 s3 where
    init: "leader_initialize cp ev (d, s) = Inr (w0, d', t)" and
    st: "process_persistence_responses cp t = Inr (w1, s1)"
        "process_quorum_responses cp s1 = Inr (b, w2, s2)"
        "fold_res (handle_backfill_request cp) b s2 = Inr s3" and
    fin: "s' = snd (retry_deferred_broadcast s3)" "c = SC_None"
    by (auto simp: leader_time_step_def Let_def split_beta)
  have "quiet t s1" "quiet s1 s2" "quiet s2 s3" "quiet s3 s'"
    using st fin quiet_process_persistence quiet_process_quorum quiet_fold_res [OF quiet_backfill] by simp_all
  then have "quiet t s'" using quiet_trans by blast
  with init fin(2) that show thesis by simp
qed

lemma quiet_follower_persistence_response:
  "follower_persistence_response r s = Inr s' \<Longrightarrow> quiet s s'"
  by (auto simp: follower_persistence_response_def follower_log_persisted_def follower_vote_persisted_def Let_def
      send_callback_unwrap_Inr split: PersistenceResponseType.splits option.splits OutstandingMessageType.splits)

lemma quiet_follower_drain_persistence:
  assumes "follower_drain_persistence s = Inr s'"
  shows "quiet s s'"
  using quiet_fold_res [OF quiet_follower_persistence_response assms [unfolded follower_drain_persistence_def]]
  by (rule quiet_trans [OF quiet_queues(1)])

lemma quiet_candidate_persistence_response:
  "candidate_persistence_response r s = Inr (False, s') \<Longrightarrow> quiet s s'"
  by (auto simp: candidate_persistence_response_def candidate_vote_persisted_def candidate_log_persisted_def Let_def
      send_callback_unwrap_Inr
      split: PersistenceResponseType.splits option.splits OutstandingMessageType.splits if_splits)

lemma quiet_candidate_quorum_response:
  "candidate_quorum_response r s = Inr (False, s') \<Longrightarrow> quiet s s'"
  by (auto simp: candidate_quorum_response_def candidate_vote_response_def Let_def send_callback_unwrap_Inr
      split: LocalQuorumTaskResponseType.splits option.splits OutstandingMessageType.splits if_splits)

lemma candidate_persistence_response_elected:
  "candidate_persistence_response r s = Inr (True, s') \<Longrightarrow> won_on_persisted r s s'"
  by (auto simp: candidate_persistence_response_def candidate_vote_persisted_def won_on_persisted_def Let_def
      remove_outstanding_def
      split: PersistenceResponseType.splits option.splits OutstandingMessageType.splits if_splits)

lemma candidate_quorum_response_elected:
  "candidate_quorum_response r s = Inr (True, s') \<Longrightarrow> won_on_vote r s s'"
  by (auto simp: candidate_quorum_response_def candidate_vote_response_def won_on_vote_def Let_def
      remove_outstanding_def
      split: LocalQuorumTaskResponseType.splits option.splits OutstandingMessageType.splits if_splits)

lemma candidate_persistence_loop_cases:
  assumes "candidate_persistence_loop rs w s = Inr (e, w', s')"
  shows "if e then \<exists>r u. r \<in> set rs \<and> quiet s u \<and> won_on_persisted r u s' else quiet s s'"
  using assms
proof (induction rs arbitrary: w s)
  case (Cons r rs)
  from Cons.prems obtain b t where t: "candidate_persistence_response r (s\<lparr>persistence_response := rs\<rparr>) = Inr (b, t)"
    "(if b then Inr (True, w + 1, t) else candidate_persistence_loop rs (w + 1) t) = Inr (e, w', s')"
    by auto
  show ?case
  proof (cases b)
    case True
    with t have "e" "won_on_persisted r (s\<lparr>persistence_response := rs\<rparr>) s'"
      using candidate_persistence_response_elected by auto
    moreover have "quiet s (s\<lparr>persistence_response := rs\<rparr>)" by simp
    ultimately show ?thesis by (metis list.set_intros(1))
  next
    case False
    with t(1) have "candidate_persistence_response r (s\<lparr>persistence_response := rs\<rparr>) = Inr (False, t)" by simp
    from quiet_trans [OF quiet_queues(1) quiet_candidate_persistence_response [OF this]] have q: "quiet s t" .
    from False t(2) have "candidate_persistence_loop rs (w + 1) t = Inr (e, w', s')" by simp
    note IH = Cons.IH [OF this]
    show ?thesis
    proof (cases e)
      case True
      with IH obtain r' u where ru: "r' \<in> set rs" "quiet t u" "won_on_persisted r' u s'" by auto
      from quiet_trans [OF q ru(2)] ru True show ?thesis by (metis list.set_intros(2))
    next
      case False
      with IH show ?thesis using quiet_trans [OF q] by simp
    qed
  qed
qed simp

lemma candidate_quorum_loop_cases:
  assumes "candidate_quorum_loop rs w s = Inr (e, w', s')"
  shows "if e then \<exists>r u. r \<in> set rs \<and> quiet s u \<and> won_on_vote r u s' else quiet s s'"
  using assms
proof (induction rs arbitrary: w s)
  case (Cons r rs)
  from Cons.prems obtain b t where t: "candidate_quorum_response r (s\<lparr>quorum_response := rs\<rparr>) = Inr (b, t)"
    "(if b then Inr (True, w + 1, t) else candidate_quorum_loop rs (w + 1) t) = Inr (e, w', s')"
    by auto
  show ?case
  proof (cases b)
    case True
    with t have "e" "won_on_vote r (s\<lparr>quorum_response := rs\<rparr>) s'"
      using candidate_quorum_response_elected by auto
    moreover have "quiet s (s\<lparr>quorum_response := rs\<rparr>)" by simp
    ultimately show ?thesis by (metis list.set_intros(1))
  next
    case False
    with t(1) have "candidate_quorum_response r (s\<lparr>quorum_response := rs\<rparr>) = Inr (False, t)" by simp
    from quiet_trans [OF quiet_queues(2) quiet_candidate_quorum_response [OF this]] have q: "quiet s t" .
    from False t(2) have "candidate_quorum_loop rs (w + 1) t = Inr (e, w', s')" by simp
    note IH = Cons.IH [OF this]
    show ?thesis
    proof (cases e)
      case True
      with IH obtain r' u where ru: "r' \<in> set rs" "quiet t u" "won_on_vote r' u s'" by auto
      from quiet_trans [OF q ru(2)] ru True show ?thesis by (metis list.set_intros(2))
    next
      case False
      with IH show ?thesis using quiet_trans [OF q] by simp
    qed
  qed
qed simp


lemma candidate_persistence_loop_queue:
  "candidate_persistence_loop rs w s = Inr (e, w', s') \<Longrightarrow> quorum_response s' = quorum_response s"
proof (induction rs arbitrary: w s)
  case (Cons r rs)
  have "quorum_response t = quorum_response s"
    if "candidate_persistence_response r (s\<lparr>persistence_response := rs\<rparr>) = Inr (b, t)" for b t
    using that
    by (auto simp: candidate_persistence_response_def candidate_vote_persisted_def candidate_log_persisted_def
        become_leader_def remove_outstanding_def insert_outstanding_def send_callback_unwrap_Inr Let_def
        split: PersistenceResponseType.splits option.splits OutstandingMessageType.splits if_splits)
  with Cons show ?case by (auto split: if_splits)
qed simp

text \<open>A candidate's time step is quiet but for the election it may start or win.\<close>

lemma candidate_time_step_cases:
  assumes "candidate_time_step ev ev' (d, s) = Inr (c, w, d', s')"
  obtains (quiet) "quiet s s'" "c = SC_None"
  | (election) t where "quiet s t" "quiet (initiate_election t) s'" "c = SC_None"
  | (persisted) r u where "r \<in> set (persistence_response s)" "quiet s u" "won_on_persisted r u s'"
      "c = SC_Leader (new_leader ev)"
  | (voted) r u where "r \<in> set (quorum_response s)" "quiet s u" "won_on_vote r u s'"
      "c = SC_Leader (new_leader ev)"
proof -
  from assms obtain e1 w1 s1 where p: "candidate_persistence_loop (persistence_response s) 0 s = Inr (e1, w1, s1)"
    and rest: "(if e1 then Inr (SC_Leader (new_leader ev), w1, d, s1)
       else bind_res (candidate_quorum_loop (quorum_response s1) w1 s1) (\<lambda>(elected2, work2, s2).
           if elected2 then Inr (SC_Leader (new_leader ev), work2, d, s2)
           else
             let (started, d', s3) = candidate_check_election ev ev' (d, s2);
                 (count, s4) = retry_deferred_broadcast s3 in
             Inr (SC_None, work2 + started + count, d', s4))) = Inr (c, w, d', s')"
    by (auto simp: candidate_time_step_def)
  note loop1 = candidate_persistence_loop_cases [OF p]
  show thesis
  proof (cases e1)
    case True
    with rest have eq: "s' = s1" "c = SC_Leader (new_leader ev)" by simp_all
    from True loop1 obtain r u where ru: "r \<in> set (persistence_response s)" "quiet s u" "won_on_persisted r u s1"
      by auto
    show thesis by (rule persisted [OF ru(1,2)]) (use ru eq in simp_all)
  next
    case False
    with loop1 have q1: "quiet s s1" by simp
    from False rest obtain x where x: "candidate_quorum_loop (quorum_response s1) w1 s1 = Inr x"
      and case_x: "(case x of (elected2, work2, s2) \<Rightarrow>
           if elected2 then Inr (SC_Leader (new_leader ev), work2, d, s2)
           else
             let (started, d', s3) = candidate_check_election ev ev' (d, s2);
                 (count, s4) = retry_deferred_broadcast s3 in
             Inr (SC_None, work2 + started + count, d', s4)) = (Inr (c, w, d', s') :: _ result)"
      by auto
    obtain e2 w2 s2 where xeq: "x = (e2, w2, s2)" by (cases x)
    note q = x [unfolded xeq] and fin = case_x [unfolded xeq prod.case]
    note loop2 = candidate_quorum_loop_cases [OF q]
    show thesis
    proof (cases e2)
      case True
      with fin have eq: "s' = s2" "c = SC_Leader (new_leader ev)" by simp_all
      from True loop2 obtain r u where ru: "r \<in> set (quorum_response s1)" "quiet s1 u" "won_on_vote r u s2"
        by auto
      show thesis
        by (rule voted [OF ru(1) [unfolded candidate_persistence_loop_queue [OF p]] quiet_trans [OF q1 ru(2)]])
           (use ru eq in simp_all)
    next
      case False
      with loop2 have q2: "quiet s s2" using quiet_trans [OF q1] by simp
      let ?s3 = "snd (snd (candidate_check_election ev ev' (d, s2)))"
      from False fin have s': "s' = snd (retry_deferred_broadcast ?s3)" "c = SC_None"
        by (auto simp: Let_def split_beta)
      consider "?s3 = s2" | "?s3 = initiate_election s2"
        by (cases "election_timeout_expired (initiate_election_timeout d) (now_millis ev)")
           (simp_all add: candidate_check_election_def)
      then show thesis
      proof cases
        case 1
        with s' have "quiet s2 s'" using quiet_retry [of s2] by simp
        from quiet [OF quiet_trans [OF q2 this] s'(2)] show thesis .
      next
        case 2
        with s' have "quiet (initiate_election s2) s'" using quiet_retry [of "initiate_election s2"] by simp
        from election [OF q2 this s'(2)] show thesis .
      qed
    qed
  qed
qed

lemma logged_quiet: "quiet s s' \<Longrightarrow> logged s s'"
  by (rule logged_same) (simp_all add: quiet_def)

lemma logged_connected: "logged s s' \<Longrightarrow> persistence_connected s' = persistence_connected s"
  by (simp add: logged_def)

lemma recognise_leader_logged: "logged s (recognise_leader r s)"
  by (rule logged_same) (simp_all add: recognise_leader_def)

lemma raise_next_term_logged: "logged s (raise_next_term t s)"
  by (rule logged_same) (simp_all add: raise_next_term_def)

lemma truncate_log_logged:
  assumes "persistence_connected s"
  shows "logged s (truncate_log t i s)"
proof (cases "unat (i + 1) < length (raft_log s)")
  case True
  with assms show ?thesis
    by (intro loggedI [of _ _ "[PT_TruncateLog (unat (i + 1))]"])
       (simp_all add: truncate_log_def persistence_send_def Let_def log_bytes_def take_map)
next
  case False
  then show ?thesis by (simp add: truncate_log_def Let_def)
qed

lemma follower_quorum_response_logged:
  assumes "persistence_connected s"
  shows "logged s (follower_quorum_response r s)"
proof (cases r)
  case (QR_TruncateLog n t i)
  then show ?thesis
    using logged_trans [OF truncate_log_logged [OF assms] logged_quiet [OF quiet_bump_version]]
    by (simp add: follower_quorum_response_def)
qed (simp_all add: follower_quorum_response_def)

lemma follower_drain_quorum_logged:
  assumes "persistence_connected s"
  shows "logged s (follower_drain_quorum s)"
proof -
  have "logged t (fold follower_quorum_response rs t)" if "persistence_connected t" for rs t
    using that
  proof (induction rs arbitrary: t)
    case (Cons r rs)
    note l = follower_quorum_response_logged [OF Cons.prems, of r]
    with Cons have "logged (follower_quorum_response r t) (fold follower_quorum_response rs (follower_quorum_response r t))"
      by (simp add: logged_connected [OF l])
    with l show ?case using logged_trans by simp
  qed simp
  then have "logged (s\<lparr>quorum_response := []\<rparr>) (follower_drain_quorum s)"
    using assms by (simp add: follower_drain_quorum_def)
  then show ?thesis by (rule logged_trans [OF logged_quiet [OF quiet_queues(2)]])
qed

lemma follower_time_step_logged:
  assumes "persistence_connected s" "follower_time_step ev (d, s) = Inr (c, w, d', s')"
  shows "logged s s'"
proof -
  from assms(2) obtain s1 where s1: "follower_drain_persistence s = Inr s1"
    and s': "s' = snd (retry_deferred_broadcast (follower_drain_quorum s1))"
    by (auto simp: follower_time_step_def Let_def split_beta split: option.splits)
  note l1 = logged_quiet [OF quiet_follower_drain_persistence [OF s1]]
  have "logged s1 (follower_drain_quorum s1)"
    using follower_drain_quorum_logged assms(1) l1 by (simp add: logged_connected)
  from logged_trans [OF l1 logged_trans [OF this logged_quiet [OF quiet_retry]]] s' show ?thesis by simp
qed

lemma handle_new_leader_logged:
  assumes "persistence_connected s"
  shows "logged s (snd (handle_new_leader cp ev r cb s t))"
proof -
  let ?s1 = "recognise_leader r s"
  have "persistence_connected ?s1" using assms by (simp add: recognise_leader_def)
  then have "logged ?s1 (snd (handle_new_leader cp ev r cb s t))"
    by (simp add: handle_new_leader_def Let_def apply_log_entry_logged logged_quiet)
  then show ?thesis by (rule logged_trans [OF recognise_leader_logged])
qed

lemma handle_heartbeat_quiet: "quiet s (snd (handle_heartbeat ev r cb s t))"
  by (simp add: handle_heartbeat_def Let_def quiet_trans [OF quiet_update_commit_index quiet_send_callback])

lemma follower_append_entries_logged:
  assumes "persistence_connected s" "follower_append_entries cp ev r cb (d, s) = (c, d', s')"
  shows "logged s s'"
  using assms(2) handle_new_leader_logged [OF assms(1), of cp ev r cb "election_timer d"]
    logged_quiet [OF handle_heartbeat_quiet, of s ev r cb "election_timer d"] apply_log_entry_logged [OF assms(1), of cp r cb]
  by (auto simp: follower_append_entries_def Let_def handle_non_consecutive_request_def
      send_unrecognized_leader_response_def logged_quiet split: prod.splits if_splits)

lemma follower_request_vote_logged:
  assumes "follower_request_vote r cb s = Inr (c, s')"
  shows "logged s s'"
proof -
  have "quiet (raise_next_term (rv_term r) s) s'"
    using assms by (auto simp: follower_request_vote_def Let_def send_callback_unwrap_Inr quiet_def
        insert_outstanding_def send_callback_responses split: if_splits)
  then show ?thesis by (rule logged_trans [OF raise_next_term_logged logged_quiet])
qed

lemma accept_vote_logged:
  assumes "persistence_connected s"
  shows "logged s (accept_vote r cb s)"
  by (rule loggedI [of _ _ "[PT_AppendVote (next_message_id s) (rv_term r) (rv_candidate_id r)]"])
     (use assms in \<open>simp_all add: accept_vote_def persistence_send_def Let_def insert_outstanding_def log_bytes_def\<close>)

lemma candidate_request_vote_logged:
  assumes "persistence_connected s"
  shows "logged s (snd (candidate_request_vote r cb s))"
proof -
  have "persistence_connected (raise_next_term (rv_term r) s)"
    using assms by (simp add: raise_next_term_def)
  then have "logged (raise_next_term (rv_term r) s) (snd (candidate_request_vote r cb s))"
    by (simp add: candidate_request_vote_def Let_def accept_vote_logged logged_quiet)
  then show ?thesis by (rule logged_trans [OF raise_next_term_logged])
qed

lemma leader_request_vote_eq: "leader_request_vote = candidate_request_vote"
  by (simp add: fun_eq_iff leader_request_vote_def candidate_request_vote_def)

lemma initiate_election_logged:
  assumes "persistence_connected s"
  shows "logged s (initiate_election s)"
  by (rule loggedI [of _ _ "[PT_AppendVote (next_message_id s) (next_term (vol s)) (identity s)]"])
     (use assms in \<open>simp_all add: initiate_election_def persistence_send_def Let_def insert_outstanding_def
        push_all_quorum_def log_bytes_def\<close>)

lemma candidate_append_entries_logged: "logged s (snd (candidate_append_entries ev r cb s))"
proof (cases "ae_term r \<ge> current_term (server_state s)")
  case True
  then have "logged (recognise_leader r s) (snd (candidate_append_entries ev r cb s))"
    by (simp add: candidate_append_entries_def Let_def logged_quiet)
  then show ?thesis by (rule logged_trans [OF recognise_leader_logged])
qed (simp add: candidate_append_entries_def logged_quiet)

lemma won_on_persisted_logged: "won_on_persisted r s s' \<Longrightarrow> logged s s'"
  by (rule logged_same) (auto simp: won_on_persisted_def become_leader_def remove_outstanding_def)

lemma won_on_vote_logged: "won_on_vote r s s' \<Longrightarrow> logged s s'"
  by (rule logged_same) (auto simp: won_on_vote_def become_leader_def remove_outstanding_def)

lemma candidate_time_step_logged:
  assumes "persistence_connected s" "candidate_time_step ev ev' (d, s) = Inr (c, w, d', s')"
  shows "logged s s'"
  using assms(2)
proof (cases rule: candidate_time_step_cases)
  case quiet
  then show ?thesis by (intro logged_quiet)
next
  case (election t)
  then have "persistence_connected t" using assms(1) by (simp add: quiet_def)
  then have "logged t (initiate_election t)" by (rule initiate_election_logged)
  from logged_trans [OF logged_quiet [OF election(1)] logged_trans [OF this logged_quiet [OF election(2)]]]
  show ?thesis .
next
  case (persisted r u)
  from logged_trans [OF logged_quiet [OF persisted(2)] won_on_persisted_logged [OF persisted(3)]] show ?thesis .
next
  case (voted r u)
  from logged_trans [OF logged_quiet [OF voted(2)] won_on_vote_logged [OF voted(3)]] show ?thesis .
qed

lemma append_entry_frame [simp]:
  "raft_log (append_entry e s) = raft_log s @ [e]"
  "persistence_work (append_entry e s) = persistence_work s"
  "persistence_connected (append_entry e s) = persistence_connected s"
  "term_votes (append_entry e s) = term_votes s"
  "next_message_id (append_entry e s) = next_message_id s"
  "quorum_worker_tasks (append_entry e s) = quorum_worker_tasks s"
  "server_state (append_entry e s) = server_state s"
  by (simp_all add: append_entry_def)

text \<open>The steps that the leader takes once an entry is built, for a write batch and for a no-op.\<close>

lemma append_and_queue_logged:
  assumes "persistence_connected s" "queue_persistence_task i e (append_entry e s) = (q, t)"
  shows "q" "logged s t"
proof -
  show "q" using assms by (simp add: queue_persistence_task_def persistence_send_def)
  show "logged s t"
    by (rule loggedI [of _ _ "[PT_AppendLog i (as_bytes e) i]"])
       (use assms in \<open>auto simp: queue_persistence_task_def persistence_send_def log_bytes_def\<close>)
qed

lemma update_volatile_state_logged: "logged s (update_volatile_state i s)"
  by (rule logged_same) (simp_all add: update_volatile_state_def)

lemma send_error_response_quiet: "send_error_response cp e cb s = Inr s' \<Longrightarrow> quiet s s'"
  by (auto simp: send_error_response_def)

lemma leader_write_batch_logged:
  assumes "persistence_connected s" "leader_write_batch cp ev b cb s = Inr s'"
  shows "logged s s'"
proof (cases "validate_write_batch cp b")
  case (Some e)
  with assms(2) have "quiet (s\<lparr>next_message_id := next_message_id s + 1\<rparr>) s'"
    by (auto simp: leader_write_batch_def Let_def dest: send_error_response_quiet)
  then show ?thesis by (rule logged_quiet [OF quiet_trans [OF quiet_message_id]])
next
  case None
  let ?i = "next_message_id s" and ?idx = "next_log_index (vol s)"
  let ?s1 = "s\<lparr>next_message_id := ?i + 1\<rparr>"
  from None assms(2) obtain e s2 q s3 where
    c: "create_and_append_log_entry cp ev b ?idx ?i ?s1 = Inr (e, s2)" and
    q: "queue_persistence_task ?i e s2 = (q, s3)" and
    s': "(if \<not> q then send_error_response cp ''Failed to queue persistence task'' cb s3
        else Inr (update_volatile_state ?idx (register_outstanding_message ?i ?idx (batch_len cp b) cb
                   (dispatch_to_quorum ?i e s3)))) = Inr s'"
    by (auto simp: leader_write_batch_def Let_def split: prod.splits)
  from c have s2: "s2 = append_entry e ?s1"
    by (auto simp: create_and_append_log_entry_def split: option.splits)
  have conn: "persistence_connected ?s1" using assms(1) by simp
  note aq = append_and_queue_logged [OF conn q [unfolded s2]]
  have "quiet s3 (register_outstanding_message ?i ?idx (batch_len cp b) cb (dispatch_to_quorum ?i e s3))"
    unfolding register_outstanding_message_def dispatch_to_quorum_def
    by (rule quiet_trans [OF quiet_push_all_quorum quiet_insert_outstanding])
  from logged_trans [OF aq(2) logged_trans [OF logged_quiet [OF this] update_volatile_state_logged]]
  have "logged ?s1 s'" using s' aq(1) by auto
  then show ?thesis by (rule logged_trans [OF logged_quiet [OF quiet_message_id]])
qed

lemma initialize_leadership_logged:
  assumes "persistence_connected s" "initialize_leadership cp ev s = Inr s'"
  shows "logged s s'"
proof -
  define s1 where "s1 = upd_vol (\<lambda>v. v\<lparr>next_log_index := of_nat (length (replication_log v))\<rparr>)
                 (s\<lparr>next_message_id := next_message_id s + 1\<rparr>)"
  define s2 where "s2 = push_all_quorum
                 (QT_StartHeartbeats (next_message_id s) (current_term (server_state s1)) (last_log_term (vol s1))
                    (last_log_index (vol s1)) (commit_index (vol s1))) s1"
  define s3 where "s3 = (if commit_index (vol s2) > 0 then broadcast_committed_entries (commit_index (vol s2)) s2 else s2)"
  define s4 where "s4 = s3\<lparr>next_message_id := next_message_id s3 + 1\<rparr>"
  let ?i = "next_message_id s3" and ?idx = "next_log_index (vol s3)"
  from assms(2) obtain e s5 q s6 where
    c: "create_and_append_noop_entry cp ev ?idx ?i s4 = Inr (e, s5)" and
    q: "queue_persistence_task ?i e s5 = (q, s6)" and
    s': "s' = update_volatile_state ?idx (register_noop_outstanding_message ?i ?idx (dispatch_to_quorum ?i e s6))"
    unfolding initialize_leadership_def Let_def s1_def [symmetric] s2_def [symmetric] s3_def [symmetric] s4_def [symmetric]
    by (auto split: prod.splits)
  have l1: "logged s s1" by (rule logged_same) (simp_all add: s1_def)
  have "quiet s1 s2" "quiet s2 s3" "quiet s3 s4" by (simp_all add: s2_def s3_def s4_def)
  then have l4: "logged s s4" using l1 logged_trans logged_quiet by meson
  from c have s5: "s5 = append_entry e s4"
    by (auto simp: create_and_append_noop_entry_def)
  have conn: "persistence_connected s4" using assms(1) logged_connected [OF l4] by simp
  note aq = append_and_queue_logged [OF conn q [unfolded s5]]
  have "quiet s6 (register_noop_outstanding_message ?i ?idx (dispatch_to_quorum ?i e s6))"
    unfolding register_noop_outstanding_message_def dispatch_to_quorum_def
    by (rule quiet_trans [OF quiet_push_all_quorum quiet_insert_outstanding])
  from logged_trans [OF aq(2) logged_trans [OF logged_quiet [OF this] update_volatile_state_logged]]
  have "logged s4 s'" using s' by simp
  with l4 show ?thesis by (rule logged_trans)
qed

lemma leader_time_step_logged:
  assumes "persistence_connected s" "leader_time_step cp ev (d, s) = Inr (c, w, d', s')"
  shows "logged s s'"
  using assms(2)
proof (cases rule: leader_time_step_cases)
  case (1 w0 t)
  have "logged s t"
    using 1(1) assms(1) initialize_leadership_logged by (auto simp: leader_initialize_def split: if_splits)
  from logged_trans [OF this logged_quiet [OF 1(2)]] show ?thesis .
qed

lemma leader_append_entries_logged: "logged s (snd (leader_append_entries ev r cb s))"
proof (cases "ae_term r > current_term (server_state s)")
  case True
  let ?s1 = "recognise_leader r s"
  let ?s2 = "push_all_quorum (QT_StopHeartbeats (next_message_id ?s1)) (?s1\<lparr>next_message_id := next_message_id ?s1 + 1\<rparr>)"
  have "logged ?s1 ?s2" by (rule logged_quiet [OF quiet_trans [OF quiet_message_id quiet_push_all_quorum]])
  moreover from True have "logged ?s2 (snd (leader_append_entries ev r cb s))"
    by (simp add: leader_append_entries_def leader_handle_new_leader_def Let_def logged_quiet)
  ultimately show ?thesis using logged_trans [OF recognise_leader_logged] logged_trans by blast
qed (simp add: leader_append_entries_def logged_quiet)

end
