(* ===== verification/Log_Consistency.thy ===== *)
theory Log_Consistency
  imports Write_Ahead
begin

text \<open>
  The shape of the replication log: the entry at position \<open>i\<close> has index \<open>i\<close>, is
  linked to its predecessor by index and term, and can be read back from its
  bytes; the recorded last index and term are those of the last entry. The
  follower's append and truncation, the leader's append and its initialisation
  keep this shape.
\<close>

section \<open>Well-formed logs\<close>

definition log_ok :: "capnp \<Rightarrow> OwnedLogEntry list \<Rightarrow> bool" where
  "log_ok cp L \<longleftrightarrow>
     (\<forall>i < length L.
        readable cp (as_bytes (L ! i)) \<and>
        entry_index cp (L ! i) = of_nat i \<and>
        entry_term cp (L ! i) \<noteq> 0 \<and>
        entry_prev_log_index cp (L ! i) = of_nat (i - 1) \<and>
        entry_prev_log_term cp (L ! i) = (if i = 0 then 0 else entry_term cp (L ! (i - 1))))"

definition last_term :: "capnp \<Rightarrow> OwnedLogEntry list \<Rightarrow> u64" where
  "last_term cp L = (if L = [] then 0 else entry_term cp (last L))"

definition log_wf :: "capnp \<Rightarrow> SharedState \<Rightarrow> bool" where
  "log_wf cp s \<longleftrightarrow>
     log_ok cp (raft_log s) \<and>
     last_log_index (vol s) = of_nat (length (raft_log s) - 1) \<and>
     last_log_term (vol s) = last_term cp (raft_log s)"

text \<open>A log entry as the wire carries it: the fields beside the data agree with the entry in the data.\<close>

definition wire_entry_ok :: "capnp \<Rightarrow> LogEntry \<Rightarrow> bool" where
  "wire_entry_ok cp e \<longleftrightarrow>
     (let owned = OwnedLogEntry (le_data e) in
      readable cp (le_data e) \<and> le_term e \<noteq> 0 \<and>
      entry_index cp owned = le_index e \<and> entry_term cp owned = le_term e \<and>
      entry_prev_log_index cp owned = le_prev_log_index e \<and>
      entry_prev_log_term cp owned = le_prev_log_term e)"

definition request_ok :: "capnp \<Rightarrow> LocalAppendEntries \<Rightarrow> bool" where
  "request_ok cp r \<longleftrightarrow>
     (case ae_entry r of
        None \<Rightarrow> True
      | Some e \<Rightarrow>
          wire_entry_ok cp e \<and>
          le_prev_log_index e = ae_prev_index r \<and> le_prev_log_term e = ae_prev_term r \<and>
          le_index e = (if ae_prev_term r = 0 then 0 else ae_prev_index r + 1))"

text \<open>A truncation point that the receiver's own log confirms.\<close>

definition truncate_ok :: "capnp \<Rightarrow> OwnedLogEntry list \<Rightarrow> LocalQuorumTaskResponseType \<Rightarrow> bool" where
  "truncate_ok cp L r \<longleftrightarrow>
     (case r of
        QR_TruncateLog _ t i \<Rightarrow>
          i \<noteq> u64_max \<and> (unat i < length L \<longrightarrow> entry_term cp (L ! unat i) = t)
      | _ \<Rightarrow> True)"

text \<open>The leader's next index is the end of its log.\<close>

definition leader_ready :: "SharedState \<Rightarrow> bool" where
  "leader_ready s \<longleftrightarrow> next_log_index (vol s) = of_nat (length (raft_log s))"

section \<open>Lemmas\<close>

lemma log_ok_Nil [simp]: "log_ok cp []"
  by (simp add: log_ok_def)

lemma log_ok_take: "log_ok cp L \<Longrightarrow> log_ok cp (take n L)"
  by (auto simp: log_ok_def)

lemma last_term_Nil [simp]: "last_term cp [] = 0"
  by (simp add: last_term_def)

lemma last_term_snoc [simp]: "last_term cp (L @ [e]) = entry_term cp e"
  by (simp add: last_term_def)

lemma last_term_0: "log_ok cp L \<Longrightarrow> last_term cp L = 0 \<Longrightarrow> L = []"
  by (cases L rule: rev_cases) (auto simp: log_ok_def)

lemma last_term_nth: "L \<noteq> [] \<Longrightarrow> last_term cp L = entry_term cp (L ! (length L - 1))"
  by (simp add: last_term_def last_conv_nth)

lemma log_ok_snoc:
  assumes "log_ok cp L" "readable cp (as_bytes e)" "entry_index cp e = of_nat (length L)"
    "entry_term cp e \<noteq> 0" "entry_prev_log_index cp e = of_nat (length L - 1)"
    "entry_prev_log_term cp e = last_term cp L"
  shows "log_ok cp (L @ [e])"
  unfolding log_ok_def
proof (intro allI impI)
  fix i
  assume "i < length (L @ [e])"
  then consider "i < length L" | "i = length L" by fastforce
  then show "readable cp (as_bytes ((L @ [e]) ! i)) \<and> entry_index cp ((L @ [e]) ! i) = of_nat i \<and>
      entry_term cp ((L @ [e]) ! i) \<noteq> 0 \<and> entry_prev_log_index cp ((L @ [e]) ! i) = of_nat (i - 1) \<and>
      entry_prev_log_term cp ((L @ [e]) ! i) = (if i = 0 then 0 else entry_term cp ((L @ [e]) ! (i - 1)))"
  proof cases
    case 1
    with assms(1) show ?thesis by (auto simp: log_ok_def nth_append)
  next
    case 2
    with assms last_term_nth [of L cp] show ?thesis by (cases "L = []") (simp_all add: nth_append)
  qed
qed

lemma log_wf_same:
  assumes "log_wf cp s" "raft_log s' = raft_log s" "last_log_index (vol s') = last_log_index (vol s)"
    "last_log_term (vol s') = last_log_term (vol s)"
  shows "log_wf cp s'"
  using assms by (simp add: log_wf_def)

lemma log_wf_quiet: "log_wf cp s \<Longrightarrow> quiet s s' \<Longrightarrow> log_wf cp s'"
  by (rule log_wf_same) (simp_all add: quiet_def)

lemma log_wf_recognise_leader [simp]: "log_wf cp (recognise_leader r s) = log_wf cp s"
  by (simp add: log_wf_def recognise_leader_def)

lemma log_wf_raise_next_term [simp]: "log_wf cp (raise_next_term t s) = log_wf cp s"
  by (simp add: log_wf_def raise_next_term_def)

lemma log_wf_accept_vote [simp]: "log_wf cp (accept_vote r cb s) = log_wf cp s"
  by (simp add: log_wf_def accept_vote_def persistence_send_def insert_outstanding_def Let_def)

lemma log_wf_initiate_election [simp]: "log_wf cp (initiate_election s) = log_wf cp s"
  by (simp add: log_wf_def initiate_election_def persistence_send_def insert_outstanding_def push_all_quorum_def Let_def)

text \<open>The follower appends an entry of a well-formed request in the right place.\<close>

lemma log_wf_append:
  assumes "log_wf cp s" "raft_log s' = raft_log s @ [e]" "readable cp (as_bytes e)"
    "entry_term cp e \<noteq> 0" "entry_index cp e = of_nat (length (raft_log s))"
    "entry_prev_log_index cp e = last_log_index (vol s)" "entry_prev_log_term cp e = last_log_term (vol s)"
    "last_log_index (vol s') = entry_index cp e" "last_log_term (vol s') = entry_term cp e"
  shows "log_wf cp s'"
  using assms log_ok_snoc [of cp "raft_log s" e] by (simp add: log_wf_def)

lemma update_commit_index_log [simp]:
  "last_log_index (vol (update_commit_index n s)) = last_log_index (vol s)"
  "last_log_term (vol (update_commit_index n s)) = last_log_term (vol s)"
  by (simp_all add: update_commit_index_def)

lemma apply_log_entry_wf:
  assumes "capnp_law cp" "log_wf cp s" "request_ok cp r" "persistence_connected s"
    "validate_append_entries r (last_log_index (vol s)) (last_log_term (vol s))"
  shows "log_wf cp (apply_log_entry cp r cb s)"
proof (cases "ae_entry r")
  case None
  have "log_entry_from_bytes cp [] = None"
    using assms(1) by (simp add: capnp_law_def log_entry_from_bytes_def)
  then have "quiet (s\<lparr>next_message_id := next_message_id s + 1\<rparr>) (apply_log_entry cp r cb s)"
    using None by (simp add: apply_log_entry_def Let_def)
  then show ?thesis
    using log_wf_quiet [OF assms(2) quiet_trans [OF quiet_message_id]] by blast
next
  case (Some e)
  let ?o = "OwnedLogEntry (le_data e)"
  have w: "wire_entry_ok cp e" "le_prev_log_index e = last_log_index (vol s)"
    "le_prev_log_term e = last_log_term (vol s)"
    "le_index e = (if last_log_term (vol s) = 0 then 0 else last_log_index (vol s) + 1)"
    using assms(3,5) Some by (simp_all add: request_ok_def validate_append_entries_def)
  then have rd: "readable cp (le_data e)" "entry_index cp ?o = le_index e" "entry_term cp ?o = le_term e"
    "le_term e \<noteq> 0" "entry_prev_log_index cp ?o = le_prev_log_index e"
    "entry_prev_log_term cp ?o = le_prev_log_term e"
    by (simp_all add: wire_entry_ok_def Let_def)
  have idx: "le_index e = of_nat (length (raft_log s))"
  proof (cases "raft_log s = []")
    case True
    then show ?thesis using w(4) assms(2) by (simp add: log_wf_def)
  next
    case False
    then have "last_log_term (vol s) \<noteq> 0" using assms(2) last_term_0 by (auto simp: log_wf_def)
    with False w(4) assms(2) show ?thesis
      by (cases "raft_log s" rule: rev_cases) (simp_all add: log_wf_def add.commute)
  qed
  have "raft_log (apply_log_entry cp r cb s) = raft_log s @ [?o]"
    "last_log_index (vol (apply_log_entry cp r cb s)) = le_index e"
    "last_log_term (vol (apply_log_entry cp r cb s)) = le_term e"
    using Some assms(4) read_back [OF rd(1)]
    by (simp_all add: apply_log_entry_def Let_def persistence_send_def insert_outstanding_def note_entry_def)
  with rd idx w show ?thesis by (intro log_wf_append [OF assms(2), where e = ?o]) simp_all
qed

lemma truncate_log_wf:
  assumes "log_wf cp s" "truncate_ok cp (raft_log s) (QR_TruncateLog n t i)"
  shows "log_wf cp (truncate_log t i s)"
proof (cases "unat (i + 1) < length (raft_log s)")
  case True
  from assms(2) have i: "unat (i + 1) = Suc (unat i)" by (simp add: truncate_ok_def unat_inc)
  with True assms(2) have t: "entry_term cp (raft_log s ! unat i) = t" by (simp add: truncate_ok_def)
  have "raft_log (truncate_log t i s) = take (Suc (unat i)) (raft_log s)"
    "last_log_index (vol (truncate_log t i s)) = i" "last_log_term (vol (truncate_log t i s)) = t"
    using True i by (simp_all add: truncate_log_def Let_def persistence_send_def)
  moreover have "last_term cp (take (Suc (unat i)) (raft_log s)) = t"
    using True i t by (simp add: take_Suc_nth)
  ultimately show ?thesis
    using True i assms(1) by (simp add: log_wf_def log_ok_take min_absorb2)
next
  case False
  with assms(1) show ?thesis by (simp add: truncate_log_def Let_def)
qed


section \<open>The leader appends well-formed entries\<close>

lemma built_new_log_entry:
  "list_all built_put_request cs \<Longrightarrow> built_log_entry (new_log_entry ev cs idx i s)"
  by (simp add: built_log_entry_def new_log_entry_def)

lemma built_copy_commands: "list_all built_put_request (map copy_command rs)"
  by (simp add: list_all_iff built_put_request_def copy_command_def)

lemma update_volatile_state_simps [simp]:
  "raft_log (update_volatile_state idx s) = raft_log s"
  "last_log_index (vol (update_volatile_state idx s)) = idx"
  "last_log_term (vol (update_volatile_state idx s)) = current_term (server_state s)"
  "next_log_index (vol (update_volatile_state idx s)) = idx + 1"
  "server_state (update_volatile_state idx s) = server_state s"
  by (simp_all add: update_volatile_state_def)

lemma append_built_wf:
  assumes "capnp_law cp" "log_wf cp s" "current_term (server_state s) \<noteq> 0" "list_all built_put_request cs"
    "build_owned_log_entry cp (new_log_entry ev cs (of_nat (length (raft_log s))) i s) = Inr e"
    "raft_log t = raft_log s @ [e]" "server_state t = server_state s"
  shows "log_wf cp (update_volatile_state (of_nat (length (raft_log s))) t)"
    "leader_ready (update_volatile_state (of_nat (length (raft_log s))) t)"
proof -
  note b = build_owned_log_entryD(2) [OF assms(1) built_new_log_entry [OF assms(4)] assms(5)]
    entry_fields_of_built [OF assms(1) built_new_log_entry [OF assms(4)] assms(5)]
  show "log_wf cp (update_volatile_state (of_nat (length (raft_log s))) t)"
    by (rule log_wf_append [OF assms(2), where e = e])
       (use b assms in \<open>simp_all add: new_log_entry_def\<close>)
  show "leader_ready (update_volatile_state (of_nat (length (raft_log s))) t)"
    using assms(6) by (simp add: leader_ready_def)
qed

lemma quiet_simps:
  assumes "quiet s s'"
  shows "raft_log s' = raft_log s" "next_log_index (vol s') = next_log_index (vol s)"
    "persistence_connected s' = persistence_connected s"
  using assms by (simp_all add: quiet_def)

lemma leader_ready_quiet: "leader_ready s \<Longrightarrow> quiet s s' \<Longrightarrow> leader_ready s'"
  by (simp add: leader_ready_def quiet_simps)

lemma register_frame [simp]:
  "raft_log (register_outstanding_message i idx z cb s) = raft_log s"
  "server_state (register_outstanding_message i idx z cb s) = server_state s"
  "raft_log (register_noop_outstanding_message i idx s) = raft_log s"
  "server_state (register_noop_outstanding_message i idx s) = server_state s"
  "raft_log (dispatch_to_quorum i e s) = raft_log s"
  "server_state (dispatch_to_quorum i e s) = server_state s"
  by (simp_all add: register_outstanding_message_def register_noop_outstanding_message_def dispatch_to_quorum_def
      insert_outstanding_def push_all_quorum_def)

lemma queue_frame:
  assumes "queue_persistence_task i e s = (q, t)"
  shows "raft_log t = raft_log s" "server_state t = server_state s"
  using assms by (auto simp: queue_persistence_task_def persistence_send_def split: if_splits)

lemma leader_write_batch_wf:
  assumes "capnp_law cp" "log_wf cp s" "leader_ready s" "current_term (server_state s) \<noteq> 0"
    "persistence_connected s" "leader_write_batch cp ev b cb s = Inr s'"
  shows "log_wf cp s' \<and> leader_ready s' \<and> server_state s' = server_state s"
proof (cases "validate_write_batch cp b")
  case (Some e)
  with assms(6) obtain m where s': "s' = send_callback cb m (s\<lparr>next_message_id := next_message_id s + 1\<rparr>)"
    by (auto simp: leader_write_batch_def Let_def send_error_response_def)
  with assms(2,3) show ?thesis by (simp add: log_wf_def leader_ready_def)
next
  case None
  let ?i = "next_message_id s" and ?idx = "of_nat (length (raft_log s)) :: u64"
  let ?s1 = "s\<lparr>next_message_id := ?i + 1\<rparr>"
  from assms(3) have idx: "next_log_index (vol s) = ?idx" by (simp add: leader_ready_def)
  from None assms(6) obtain e s2 q s3 where
    c: "create_and_append_log_entry cp ev b ?idx ?i ?s1 = Inr (e, s2)" and
    q: "queue_persistence_task ?i e s2 = (q, s3)" and
    s': "(if \<not> q then send_error_response cp ''Failed to queue persistence task'' cb s3
        else Inr (update_volatile_state ?idx (register_outstanding_message ?i ?idx (batch_len cp b) cb
                   (dispatch_to_quorum ?i e s3)))) = Inr s'"
    by (auto simp: leader_write_batch_def Let_def idx split: prod.splits)
  from c obtain rs where s2: "s2 = append_entry e ?s1"
    and e: "build_owned_log_entry cp (new_log_entry ev (map copy_command rs) ?idx ?i ?s1) = Inr e"
    by (auto simp: create_and_append_log_entry_def write_batch_with_message_def split: option.splits)
  have "q" using append_and_queue_logged(1) [of ?s1 ?i e q s3] q s2 assms(5) by simp
  with s' have s'_eq: "s' = update_volatile_state ?idx (register_outstanding_message ?i ?idx (batch_len cp b) cb
                   (dispatch_to_quorum ?i e s3))" by auto
  have wf1: "log_wf cp ?s1" using assms(2) by (simp add: log_wf_def)
  show ?thesis
    using append_built_wf [OF assms(1) wf1 _ built_copy_commands, where ev = ev and i = ?i and e = e] e assms(4) queue_frame [OF q] s2 s'_eq
    by simp
qed

lemma initialize_leadership_wf:
  assumes "capnp_law cp" "log_wf cp s" "current_term (server_state s) \<noteq> 0" "initialize_leadership cp ev s = Inr s'"
  shows "log_wf cp s' \<and> leader_ready s' \<and> server_state s' = server_state s"
proof -
  define s1 where "s1 = upd_vol (\<lambda>v. v\<lparr>next_log_index := of_nat (length (replication_log v))\<rparr>)
                 (s\<lparr>next_message_id := next_message_id s + 1\<rparr>)"
  define s2 where "s2 = push_all_quorum
                 (QT_StartHeartbeats (next_message_id s) (current_term (server_state s1)) (last_log_term (vol s1))
                    (last_log_index (vol s1)) (commit_index (vol s1))) s1"
  define s3 where "s3 = (if commit_index (vol s2) > 0 then broadcast_committed_entries (commit_index (vol s2)) s2 else s2)"
  define s4 where "s4 = s3\<lparr>next_message_id := next_message_id s3 + 1\<rparr>"
  let ?i = "next_message_id s3" and ?idx = "of_nat (length (raft_log s)) :: u64"
  have frame: "raft_log s4 = raft_log s" "server_state s4 = server_state s" "log_wf cp s4"
    "next_log_index (vol s3) = ?idx"
    using assms(2) by (simp_all add: s4_def s3_def s2_def s1_def push_all_quorum_def log_wf_def)
  from assms(4) obtain e s5 q s6 where
    c: "create_and_append_noop_entry cp ev ?idx ?i s4 = Inr (e, s5)" and
    q: "queue_persistence_task ?i e s5 = (q, s6)" and
    s': "s' = update_volatile_state ?idx (register_noop_outstanding_message ?i ?idx (dispatch_to_quorum ?i e s6))"
    unfolding initialize_leadership_def Let_def s1_def [symmetric] s2_def [symmetric] s3_def [symmetric]
      s4_def [symmetric] frame(4)
    by (auto split: prod.splits)
  from c have s5: "s5 = append_entry e s4"
    and e: "build_owned_log_entry cp (new_log_entry ev [] ?idx ?i s4) = Inr e"
    by (auto simp: create_and_append_noop_entry_def)
  show ?thesis
    using append_built_wf [OF assms(1) frame(3), of "[]" ev ?i e] e assms(3) frame queue_frame [OF q] s5 s'
    by simp
qed

end
