(* ===== verification/Vote_Safety.thy ===== *)
theory Vote_Safety
  imports Log_Consistency
begin

text \<open>
  A vote, once recorded for a term, stays: the handlers of the three roles only
  ever add votes for terms that have none, as long as every recorded term lies
  below the next term, and the rows that they send to the votes file are for such
  terms too.
\<close>

section \<open>Votes\<close>

definition votes_fresh :: "SharedState \<Rightarrow> bool" where
  "votes_fresh s \<longleftrightarrow> (\<forall>t. term_votes s t \<noteq> None \<longrightarrow> t < next_term (vol s))"

text \<open>The rows of the votes file that are on their way to the persistence worker.\<close>

definition pending_votes :: "SharedState \<Rightarrow> VoteRow list" where
  "pending_votes s = concat (map spec_vote (persistence_work s))"

text \<open>Rows for different terms that had no vote before and have one now.\<close>

definition new_votes :: "SharedState \<Rightarrow> SharedState \<Rightarrow> bool" where
  "new_votes s s' \<longleftrightarrow>
     (\<exists>rows. pending_votes s' = pending_votes s @ rows \<and> distinct (map vote_term rows) \<and>
        vote_term ` set rows \<inter> dom (term_votes s) = {} \<and> vote_term ` set rows \<subseteq> dom (term_votes s'))"

definition keeps_votes :: "SharedState \<Rightarrow> SharedState \<Rightarrow> bool" where
  "keeps_votes s s' \<longleftrightarrow>
     (votes_fresh s \<longrightarrow> votes_fresh s' \<and> term_votes s \<subseteq>\<^sub>m term_votes s' \<and> new_votes s s')"

lemma new_votes_none: "pending_votes s' = pending_votes s \<Longrightarrow> new_votes s s'"
  by (simp add: new_votes_def)

lemma new_votes_one:
  "pending_votes s' = pending_votes s @ [v] \<Longrightarrow> term_votes s (vote_term v) = None \<Longrightarrow>
   term_votes s' (vote_term v) \<noteq> None \<Longrightarrow> new_votes s s'"
  unfolding new_votes_def by (rule exI [of _ "[v]"]) auto

lemma fresh_union:
  "A \<inter> D = {} \<Longrightarrow> A \<subseteq> E \<Longrightarrow> B \<inter> E = {} \<Longrightarrow> B \<subseteq> F \<Longrightarrow> D \<subseteq> E \<Longrightarrow> E \<subseteq> F \<Longrightarrow>
   A \<inter> B = {} \<and> (A \<union> B) \<inter> D = {} \<and> A \<union> B \<subseteq> F"
  by blast

lemma new_votes_trans:
  assumes "new_votes s t" "new_votes t u" "term_votes s \<subseteq>\<^sub>m term_votes t" "term_votes t \<subseteq>\<^sub>m term_votes u"
  shows "new_votes s u"
proof -
  from assms(1) obtain rs where
    rs: "pending_votes t = pending_votes s @ rs" "distinct (map vote_term rs)"
      "vote_term ` set rs \<inter> dom (term_votes s) = {}" "vote_term ` set rs \<subseteq> dom (term_votes t)"
    unfolding new_votes_def by (elim exE conjE) (rule that)
  from assms(2) obtain qs where
    qs: "pending_votes u = pending_votes t @ qs" "distinct (map vote_term qs)"
      "vote_term ` set qs \<inter> dom (term_votes t) = {}" "vote_term ` set qs \<subseteq> dom (term_votes u)"
    unfolding new_votes_def by (elim exE conjE) (rule that)
  note fresh = fresh_union [OF rs(3,4) qs(3,4) map_le_implies_dom_le [OF assms(3)] map_le_implies_dom_le [OF assms(4)]]
  show ?thesis
    unfolding new_votes_def
    by (rule exI [of _ "rs @ qs"])
       (simp only: rs(1,2) qs(1,2) fresh append_assoc map_append distinct_append set_append set_map image_Un simp_thms)
qed

lemma pending_votes_frame [simp]:
  "pending_votes (bump_version s) = pending_votes s"
  "pending_votes (snd (retry_deferred_broadcast s)) = pending_votes s"
  "pending_votes (s\<lparr>quorum_response := q\<rparr>) = pending_votes s"
  "pending_votes (send_callback cb a s) = pending_votes s"
  by (simp_all add: pending_votes_def)

lemma keeps_votes_same:
  "term_votes s' = term_votes s \<Longrightarrow> next_term (vol s') = next_term (vol s) \<Longrightarrow> pending_votes s' = pending_votes s \<Longrightarrow>
   keeps_votes s s'"
  by (simp add: keeps_votes_def votes_fresh_def new_votes_none)

lemma keeps_votes_trans [trans]:
  assumes "keeps_votes s t" "keeps_votes t u"
  shows "keeps_votes s u"
  unfolding keeps_votes_def
proof
  assume "votes_fresh s"
  with assms have le: "term_votes s \<subseteq>\<^sub>m term_votes t" "term_votes t \<subseteq>\<^sub>m term_votes u"
    and "new_votes s t" "new_votes t u" "votes_fresh u"
    by (simp_all add: keeps_votes_def)
  then show "votes_fresh u \<and> term_votes s \<subseteq>\<^sub>m term_votes u \<and> new_votes s u"
    by (intro conjI map_le_trans [OF le] new_votes_trans [OF _ _ le])
qed

lemma keeps_votes_quiet: "quiet s s' \<Longrightarrow> keeps_votes s s'"
  by (rule keeps_votes_same) (simp_all add: quiet_def pending_votes_def)

lemma keeps_votes_raised:
  "term_votes s' = term_votes s \<Longrightarrow> next_term (vol s) \<le> next_term (vol s') \<Longrightarrow> pending_votes s' = pending_votes s \<Longrightarrow>
   keeps_votes s s'"
  by (auto simp: keeps_votes_def votes_fresh_def new_votes_none intro: less_le_trans)

lemma recognise_leader_votes:
  "next_term (vol s) \<le> ae_term r + 1 \<Longrightarrow> keeps_votes s (recognise_leader r s)"
  by (rule keeps_votes_raised) (simp_all add: recognise_leader_def pending_votes_def)

lemma le_inc: "(x :: u64) \<noteq> u64_max \<Longrightarrow> y \<le> x \<Longrightarrow> y \<le> x + 1"
  by (simp add: word_le_nat_alt unat_inc)

lemma raise_next_term_votes:
  assumes "t \<noteq> u64_max"
  shows "keeps_votes s (raise_next_term t s)" "t < next_term (vol (raise_next_term t s))"
proof -
  show "keeps_votes s (raise_next_term t s)"
    by (rule keeps_votes_raised) (use assms le_inc in \<open>simp_all add: raise_next_term_def pending_votes_def\<close>)
  show "t < next_term (vol (raise_next_term t s))"
    using assms word_less_inc [of t t] by (simp add: raise_next_term_def not_le)
qed

lemma accept_vote_votes:
  assumes "term_votes s (rv_term r) = None" "rv_term r < next_term (vol s)"
  shows "keeps_votes s (accept_vote r cb s)"
proof -
  have eq: "term_votes (accept_vote r cb s) =
      (if persistence_connected s then (term_votes s)(rv_term r \<mapsto> rv_candidate_id r) else term_votes s)"
    "next_term (vol (accept_vote r cb s)) = next_term (vol s)"
    "pending_votes (accept_vote r cb s) = (if persistence_connected s
       then pending_votes s @ [\<lparr> vote_term = rv_term r, vote_candidate_id = rv_candidate_id r \<rparr>] else pending_votes s)"
    by (simp_all add: accept_vote_def persistence_send_def insert_outstanding_def pending_votes_def Let_def)
  have "new_votes s (accept_vote r cb s)"
    using new_votes_one [of "accept_vote r cb s" s "\<lparr> vote_term = rv_term r, vote_candidate_id = rv_candidate_id r \<rparr>"]
      new_votes_none [of "accept_vote r cb s" s] assms(1)
    by (cases "persistence_connected s") (simp_all add: eq)
  then show ?thesis
    using assms by (auto simp: eq keeps_votes_def votes_fresh_def map_le_def split: if_splits)
qed

lemma should_accept_vote_unvoted: "should_accept_vote t lt li s \<Longrightarrow> term_votes s t = None"
  by (simp add: should_accept_vote_def split: if_splits)

lemma candidate_request_vote_votes:
  assumes "rv_term r \<noteq> u64_max"
  shows "keeps_votes s (snd (candidate_request_vote r cb s))"
proof -
  let ?s1 = "raise_next_term (rv_term r) s"
  note r = raise_next_term_votes [OF assms, of s]
  have "keeps_votes ?s1 (snd (candidate_request_vote r cb s))"
    using accept_vote_votes [OF should_accept_vote_unvoted r(2), of "rv_last_log_term r" "rv_last_log_index r" cb]
    by (simp add: candidate_request_vote_def Let_def keeps_votes_quiet)
  with r(1) show ?thesis by (rule keeps_votes_trans)
qed

lemma follower_request_vote_votes:
  assumes "rv_term r \<noteq> u64_max" "follower_request_vote r cb s = Inr (c, s')"
  shows "keeps_votes s s'"
proof -
  have "quiet (raise_next_term (rv_term r) s) s'"
    using assms(2) by (auto simp: follower_request_vote_def Let_def send_callback_unwrap_Inr quiet_def
        insert_outstanding_def send_callback_responses split: if_splits)
  from keeps_votes_trans [OF raise_next_term_votes(1) [OF assms(1)] keeps_votes_quiet [OF this]] show ?thesis .
qed

lemma initiate_election_votes:
  assumes "next_term (vol s) \<noteq> u64_max"
  shows "keeps_votes s (initiate_election s)"
proof -
  have eq: "term_votes (initiate_election s) = (term_votes s)(next_term (vol s) \<mapsto> identity s)"
    "next_term (vol (initiate_election s)) = next_term (vol s) + 1"
    "pending_votes (initiate_election s) = (if persistence_connected s
       then pending_votes s @ [\<lparr> vote_term = next_term (vol s), vote_candidate_id = identity s \<rparr>] else pending_votes s)"
    by (simp_all add: initiate_election_def persistence_send_def insert_outstanding_def push_all_quorum_def
        pending_votes_def Let_def)
  show ?thesis
    unfolding keeps_votes_def
  proof
    assume f: "votes_fresh s"
    then have none: "term_votes s (next_term (vol s)) = None" by (auto simp: votes_fresh_def)
    then have "new_votes s (initiate_election s)"
      using new_votes_one [of "initiate_election s" s "\<lparr> vote_term = next_term (vol s), vote_candidate_id = identity s \<rparr>"]
        new_votes_none [of "initiate_election s" s] none
      by (cases "persistence_connected s") (simp_all add: eq)
    moreover have "t < next_term (vol s) + 1" if "t \<le> next_term (vol s)" for t
      using that assms word_less_inc by blast
    ultimately show "votes_fresh (initiate_election s) \<and> term_votes s \<subseteq>\<^sub>m term_votes (initiate_election s) \<and>
        new_votes s (initiate_election s)"
      using f none by (auto simp: eq votes_fresh_def map_le_def)
  qed
qed

lemma apply_log_entry_votes [simp]:
  "term_votes (apply_log_entry cp r cb s) = term_votes s"
  "next_term (vol (apply_log_entry cp r cb s)) = next_term (vol s)"
  "server_state (apply_log_entry cp r cb s) = server_state s"
  "pending_votes (apply_log_entry cp r cb s) = pending_votes s"
  by (auto simp: pending_votes_def apply_log_entry_def Let_def persistence_send_def insert_outstanding_def note_entry_def
      update_commit_index_def split: option.splits)

lemma truncate_log_votes [simp]:
  "term_votes (truncate_log t i s) = term_votes s"
  "next_term (vol (truncate_log t i s)) = next_term (vol s)"
  "pending_votes (truncate_log t i s) = pending_votes s"
  by (simp_all add: pending_votes_def truncate_log_def persistence_send_def Let_def)

lemma follower_quorum_response_votes [simp]:
  "term_votes (follower_quorum_response r s) = term_votes s"
  "next_term (vol (follower_quorum_response r s)) = next_term (vol s)"
  "pending_votes (follower_quorum_response r s) = pending_votes s"
  by (simp_all add: follower_quorum_response_def split: LocalQuorumTaskResponseType.split)

lemma follower_drain_quorum_votes [simp]:
  "term_votes (follower_drain_quorum s) = term_votes s"
  "next_term (vol (follower_drain_quorum s)) = next_term (vol s)"
  "pending_votes (follower_drain_quorum s) = pending_votes s"
proof -
  have "term_votes (fold follower_quorum_response rs t) = term_votes t \<and>
      next_term (vol (fold follower_quorum_response rs t)) = next_term (vol t) \<and>
      pending_votes (fold follower_quorum_response rs t) = pending_votes t" for rs t
    by (induction rs arbitrary: t) simp_all
  then show "term_votes (follower_drain_quorum s) = term_votes s"
    "next_term (vol (follower_drain_quorum s)) = next_term (vol s)"
    "pending_votes (follower_drain_quorum s) = pending_votes s"
    by (simp_all add: follower_drain_quorum_def)
qed

lemma follower_persistence_response_queue:
  "follower_persistence_response r s = Inr s' \<Longrightarrow> quorum_response s' = quorum_response s"
  by (auto simp: follower_persistence_response_def follower_log_persisted_def follower_vote_persisted_def Let_def
      send_callback_unwrap_Inr remove_outstanding_def
      split: PersistenceResponseType.splits option.splits OutstandingMessageType.splits)

lemma follower_drain_persistence_queue:
  assumes "follower_drain_persistence s = Inr s'"
  shows "quorum_response s' = quorum_response s"
  by (rule fold_res_invariant [of "persistence_response s" "\<lambda>t. quorum_response t = quorum_response s"
        follower_persistence_response "s\<lparr>persistence_response := []\<rparr>" s'])
     (use assms follower_persistence_response_queue in \<open>auto simp: follower_drain_persistence_def\<close>)

lemma follower_time_step_cases:
  assumes "follower_time_step ev (d, s) = Inr (c, w, d', s')"
  obtains s1 where "quiet s s1" "s' = snd (retry_deferred_broadcast (follower_drain_quorum s1))"
    "quorum_response s1 = quorum_response s" "d' = d" "c = SC_None \<or> c = SC_Candidate new_candidate"
proof -
  from assms obtain s1 where s1: "follower_drain_persistence s = Inr s1"
    and s': "s' = snd (retry_deferred_broadcast (follower_drain_quorum s1))" "d' = d"
      "c = SC_None \<or> c = SC_Candidate new_candidate"
    by (auto simp: follower_time_step_def Let_def split_beta check_timeout_def split: option.splits if_splits)
  show thesis
    by (rule that [OF quiet_follower_drain_persistence [OF s1] s'(1) follower_drain_persistence_queue [OF s1] s'(2,3)])
qed

lemma follower_time_step_votes:
  assumes "follower_time_step ev (d, s) = Inr (c, w, d', s')"
  shows "keeps_votes s s'"
  using assms
proof (cases rule: follower_time_step_cases)
  case (1 s1)
  then have "pending_votes s' = pending_votes s"
    by (simp add: quiet_def) (simp add: pending_votes_def)
  with 1 show ?thesis by (intro keeps_votes_same) (simp_all add: quiet_def)
qed

lemma follower_append_entries_votes:
  assumes "ae_term r > current_term (server_state s) \<Longrightarrow> next_term (vol s) \<le> ae_term r + 1"
    "follower_append_entries cp ev r cb (d, s) = (c, d', s')"
  shows "keeps_votes s s'"
proof (cases "ae_term r > current_term (server_state s)")
  case True
  with assms(2) have "keeps_votes (recognise_leader r s) s'"
    by (auto simp: follower_append_entries_def handle_new_leader_def Let_def intro!: keeps_votes_same)
  with recognise_leader_votes [OF assms(1) [OF True]] show ?thesis by (rule keeps_votes_trans)
next
  case False
  have hb: "keeps_votes s (snd (handle_heartbeat ev r cb s (election_timer d)))"
    by (rule keeps_votes_quiet [OF handle_heartbeat_quiet])
  from False assms(2) have "s' = snd (handle_heartbeat ev r cb s (election_timer d)) \<or>
      (term_votes s' = term_votes s \<and> next_term (vol s') = next_term (vol s) \<and> pending_votes s' = pending_votes s)"
    by (auto simp: follower_append_entries_def Let_def handle_non_consecutive_request_def
        send_unrecognized_leader_response_def split: prod.splits if_splits)
  with hb keeps_votes_same show ?thesis by blast
qed

lemma candidate_append_entries_votes:
  assumes "ae_term r \<ge> current_term (server_state s) \<Longrightarrow> next_term (vol s) \<le> ae_term r + 1"
  shows "keeps_votes s (snd (candidate_append_entries ev r cb s))"
proof (cases "ae_term r \<ge> current_term (server_state s)")
  case True
  then have "keeps_votes (recognise_leader r s) (snd (candidate_append_entries ev r cb s))"
    by (simp add: candidate_append_entries_def Let_def keeps_votes_quiet)
  with recognise_leader_votes [OF assms [OF True]] show ?thesis by (rule keeps_votes_trans)
qed (simp add: candidate_append_entries_def keeps_votes_quiet)

lemma won_votes:
  "won_on_persisted p s s' \<Longrightarrow> keeps_votes s s'" "won_on_vote q s s' \<Longrightarrow> keeps_votes s s'"
  by (rule keeps_votes_same; auto simp: pending_votes_def won_on_persisted_def won_on_vote_def become_leader_def remove_outstanding_def)+

lemma candidate_time_step_votes:
  assumes "next_term (vol s) \<noteq> u64_max" "candidate_time_step ev ev' (d, s) = Inr (c, w, d', s')"
  shows "keeps_votes s s'"
  using assms(2)
proof (cases rule: candidate_time_step_cases)
  case quiet
  then show ?thesis by (intro keeps_votes_quiet)
next
  case (election t)
  then have "next_term (vol t) \<noteq> u64_max" using assms(1) by (simp add: quiet_def)
  from keeps_votes_trans [OF keeps_votes_quiet [OF election(1)]
      keeps_votes_trans [OF initiate_election_votes [OF this] keeps_votes_quiet [OF election(2)]]]
  show ?thesis .
next
  case (persisted r u)
  from keeps_votes_trans [OF keeps_votes_quiet [OF persisted(2)] won_votes(1) [OF persisted(3)]] show ?thesis .
next
  case (voted r u)
  from keeps_votes_trans [OF keeps_votes_quiet [OF voted(2)] won_votes(2) [OF voted(3)]] show ?thesis .
qed

lemma leader_append_entries_votes:
  assumes "ae_term r > current_term (server_state s) \<Longrightarrow> next_term (vol s) \<le> ae_term r + 1"
  shows "keeps_votes s (snd (leader_append_entries ev r cb s))"
proof (cases "ae_term r > current_term (server_state s)")
  case True
  then have "keeps_votes (recognise_leader r s) (snd (leader_append_entries ev r cb s))"
    by (intro keeps_votes_same)
       (simp_all add: pending_votes_def leader_append_entries_def leader_handle_new_leader_def push_all_quorum_def Let_def)
  with recognise_leader_votes [OF assms [OF True]] show ?thesis by (rule keeps_votes_trans)
qed (simp add: leader_append_entries_def keeps_votes_quiet)

lemma initialize_leadership_votes:
  assumes "initialize_leadership cp ev s = Inr s'"
  shows "term_votes s' = term_votes s" "next_term (vol s') = next_term (vol s)" "pending_votes s' = pending_votes s"
  using assms unfolding pending_votes_def
  by (auto simp: initialize_leadership_def create_and_append_noop_entry_def Let_def queue_persistence_task_def
      persistence_send_def update_volatile_state_def register_noop_outstanding_message_def dispatch_to_quorum_def
      append_entry_def insert_outstanding_def push_all_quorum_def split: if_splits prod.splits)

lemma leader_time_step_votes:
  assumes "leader_time_step cp ev (d, s) = Inr (c, w, d', s')"
  shows "keeps_votes s s'"
  using assms
proof (cases rule: leader_time_step_cases)
  case (1 w0 t)
  have "keeps_votes s t"
    using 1(1) initialize_leadership_votes [of cp ev s t]
    by (auto simp: leader_initialize_def intro: keeps_votes_same split: if_splits)
  from keeps_votes_trans [OF this keeps_votes_quiet [OF 1(2)]] show ?thesis .
qed

lemma leader_write_batch_votes:
  assumes "leader_write_batch cp ev b cb s = Inr s'"
  shows "keeps_votes s s'"
proof -
  have "term_votes s' = term_votes s \<and> next_term (vol s') = next_term (vol s) \<and> pending_votes s' = pending_votes s"
    using assms unfolding pending_votes_def
    by (auto simp: leader_write_batch_def create_and_append_log_entry_def Let_def queue_persistence_task_def
        persistence_send_def update_volatile_state_def register_outstanding_message_def dispatch_to_quorum_def
        append_entry_def insert_outstanding_def push_all_quorum_def send_error_response_def
        write_batch_with_message_def split: if_splits prod.splits option.splits)
  then show ?thesis by (simp add: keeps_votes_same)
qed

end
