(* ===== verification/Raft_Protocol.thy ===== *)
theory Raft_Protocol
  imports Vote_Safety
begin

text \<open>
  The contract of the \<open>RaftProtocol\<close> trait as a locale, its interpretations for
  the follower, the candidate, the leader and the executor's dispatch.
\<close>

section \<open>Well-formedness through the handlers\<close>

definition responses_ok :: "capnp \<Rightarrow> SharedState \<Rightarrow> bool" where
  "responses_ok cp s \<longleftrightarrow>
     persistence_connected s \<and>
     list_all (truncate_ok cp (raft_log s)) (quorum_response s) \<and>
     list_all (\<lambda>r. case r of QR_RequestVoteResponse _ t _ \<Rightarrow> t \<noteq> 0 | _ \<Rightarrow> True) (quorum_response s) \<and>
     list_all (\<lambda>r. case r of PR_VotePersisted _ t _ \<Rightarrow> t \<noteq> 0 | _ \<Rightarrow> True) (persistence_response s)"

lemma truncate_log_prefix: "\<exists>n. raft_log (truncate_log t i s) = take n (raft_log s)"
  by (auto simp: truncate_log_def persistence_send_def Let_def intro: exI [of _ "length (raft_log s)"])

lemma truncate_ok_take: "truncate_ok cp L r \<Longrightarrow> truncate_ok cp (take n L) r"
  by (cases r) (auto simp: truncate_ok_def)

lemma follower_drain_quorum_wf:
  assumes "log_wf cp s" "list_all (truncate_ok cp (raft_log s)) (quorum_response s)"
  shows "log_wf cp (follower_drain_quorum s)"
proof -
  have "log_wf cp (fold follower_quorum_response rs t)"
    if "log_wf cp t" "list_all (truncate_ok cp (raft_log t)) rs" for rs t
    using that
  proof (induction rs arbitrary: t)
    case (Cons r rs)
    have step: "log_wf cp (follower_quorum_response r t) \<and> (\<exists>n. raft_log (follower_quorum_response r t) = take n (raft_log t))"
    proof (cases r)
      case (QR_TruncateLog n x i)
      with Cons.prems have "log_wf cp (truncate_log x i t)" by (auto intro: truncate_log_wf)
      with QR_TruncateLog truncate_log_prefix [of x i t] show ?thesis
        by (simp add: follower_quorum_response_def log_wf_quiet [OF _ quiet_bump_version])
    qed (use Cons.prems in \<open>auto simp: follower_quorum_response_def intro: exI [of _ "length (raft_log t)"]\<close>)
    then obtain n where "raft_log (follower_quorum_response r t) = take n (raft_log t)" by blast
    with Cons.prems have "list_all (truncate_ok cp (raft_log (follower_quorum_response r t))) rs"
      by (auto simp: list_all_iff truncate_ok_take)
    with step Cons.IH show ?case by simp
  qed simp
  from this [of "s\<lparr>quorum_response := []\<rparr>" "quorum_response s"] assms show ?thesis
    by (simp add: follower_drain_quorum_def log_wf_def)
qed

lemma follower_time_step_wf:
  assumes "log_wf cp s" "responses_ok cp s" "follower_time_step ev (d, s) = Inr (c, w, d', s')"
  shows "log_wf cp s'"
  using assms(3)
proof (cases rule: follower_time_step_cases)
  case (1 s1)
  have "log_wf cp s1" using log_wf_quiet [OF assms(1) 1(1)] .
  moreover have "list_all (truncate_ok cp (raft_log s1)) (quorum_response s1)"
    using assms(2) 1(1,3) by (simp add: responses_ok_def quiet_def)
  ultimately have "log_wf cp (follower_drain_quorum s1)" by (rule follower_drain_quorum_wf)
  from log_wf_quiet [OF this quiet_retry] 1(2) show ?thesis by simp
qed

lemma follower_append_entries_wf:
  assumes "capnp_law cp" "log_wf cp s" "request_ok cp r" "persistence_connected s"
    "follower_append_entries cp ev r cb (d, s) = (c, d', s')"
  shows "log_wf cp s'"
proof -
  have new: "log_wf cp (snd (handle_new_leader cp ev r cb s t))" for t
  proof -
    have "persistence_connected (recognise_leader r s)" using assms(4) by (simp add: recognise_leader_def)
    with assms(1-3) show ?thesis
      by (simp add: handle_new_leader_def Let_def apply_log_entry_wf log_wf_quiet [OF _ quiet_send_callback])
  qed
  have hb: "log_wf cp (snd (handle_heartbeat ev r cb s t))" for t
    using log_wf_quiet [OF assms(2) handle_heartbeat_quiet] .
  show ?thesis
    using assms(5) new [of "election_timer d"] hb [of "election_timer d"] apply_log_entry_wf [OF assms(1-4), of cb]
      log_wf_quiet [OF assms(2) quiet_send_callback]
    by (auto simp: follower_append_entries_def Let_def handle_non_consecutive_request_def
        send_unrecognized_leader_response_def split: prod.splits if_splits)
qed

lemma follower_request_vote_wf:
  assumes "log_wf cp s" "follower_request_vote r cb s = Inr (c, s')"
  shows "log_wf cp s'"
proof -
  have "quiet (raise_next_term (rv_term r) s) s'"
    using assms(2) by (auto simp: follower_request_vote_def Let_def send_callback_unwrap_Inr quiet_def
        insert_outstanding_def send_callback_responses split: if_splits)
  with log_wf_quiet assms(1) show ?thesis using log_wf_raise_next_term by blast
qed

lemma candidate_request_vote_wf: "log_wf cp s \<Longrightarrow> log_wf cp (snd (candidate_request_vote r cb s))"
  by (simp add: candidate_request_vote_def Let_def log_wf_quiet [OF _ quiet_send_callback])

lemma candidate_append_entries_wf: "log_wf cp s \<Longrightarrow> log_wf cp (snd (candidate_append_entries ev r cb s))"
  by (simp add: candidate_append_entries_def Let_def log_wf_quiet [OF _ quiet_send_callback])

lemma leader_append_entries_wf: "log_wf cp s \<Longrightarrow> log_wf cp (snd (leader_append_entries ev r cb s))"
  by (simp add: leader_append_entries_def leader_handle_new_leader_def push_all_quorum_def Let_def log_wf_def
      recognise_leader_def)

lemma won_wf:
  "won_on_persisted p s s' \<Longrightarrow> log_wf cp s \<Longrightarrow> log_wf cp s'"
  "won_on_vote q s s' \<Longrightarrow> log_wf cp s \<Longrightarrow> log_wf cp s'"
  by (auto simp: won_on_persisted_def won_on_vote_def become_leader_def remove_outstanding_def log_wf_def)

lemma candidate_time_step_wf:
  assumes "log_wf cp s" "candidate_time_step ev ev' (d, s) = Inr (c, w, d', s')"
  shows "log_wf cp s'"
  using assms(2)
proof (cases rule: candidate_time_step_cases)
  case quiet
  then show ?thesis using assms(1) log_wf_quiet by blast
next
  case (election t)
  then show ?thesis using assms(1) log_wf_quiet log_wf_initiate_election by blast
next
  case (persisted r u)
  then show ?thesis using assms(1) log_wf_quiet won_wf(1) by blast
next
  case (voted r u)
  then show ?thesis using assms(1) log_wf_quiet won_wf(2) by blast
qed

lemma leader_time_step_wf:
  assumes "capnp_law cp" "log_wf cp s" "current_term (server_state s) \<noteq> 0"
    "initialized d \<Longrightarrow> leader_ready s" "leader_time_step cp ev (d, s) = Inr (c, w, d', s')"
  shows "log_wf cp s' \<and> leader_ready s' \<and> server_state s' = server_state s \<and> c = SC_None"
  using assms(5)
proof (cases rule: leader_time_step_cases)
  case (1 w0 t)
  have "log_wf cp t \<and> leader_ready t \<and> server_state t = server_state s"
    using 1(1) initialize_leadership_wf [OF assms(1-3)] assms(2,4) by (auto simp: leader_initialize_def split: if_splits)
  with 1(2,3) show ?thesis
    using log_wf_quiet leader_ready_quiet by (auto simp: quiet_def)
qed

section \<open>The contract of the protocol trait\<close>

locale raft_protocol =
  fixes cp :: capnp
    and request_vote :: "LocalRequestVoteRequest \<Rightarrow> callback \<Rightarrow> 'd \<Rightarrow> SharedState \<Rightarrow>
          (RaftMessageStateChange \<times> 'd \<times> SharedState) result"
    and append_entries :: "env \<Rightarrow> LocalAppendEntries \<Rightarrow> callback \<Rightarrow> 'd \<Rightarrow> SharedState \<Rightarrow>
          RaftMessageStateChange \<times> 'd \<times> SharedState"
    and time_step :: "env \<Rightarrow> env \<Rightarrow> 'd \<Rightarrow> SharedState \<Rightarrow>
          (RaftMessageStateChange \<times> u64 \<times> 'd \<times> SharedState) result"
    and recognises :: "'d \<Rightarrow> LocalAppendEntries \<Rightarrow> SharedState \<Rightarrow> bool"
    and role_inv :: "'d \<Rightarrow> SharedState \<Rightarrow> bool"
  assumes request_vote_logged:
      "persistence_connected s \<Longrightarrow> request_vote rq cb d s = Inr (c, d', s') \<Longrightarrow> logged s s'"
    and append_entries_logged:
      "persistence_connected s \<Longrightarrow> append_entries ev r cb d s = (c, d', s') \<Longrightarrow> logged s s'"
    and time_step_logged:
      "persistence_connected s \<Longrightarrow> time_step ev ev' d s = Inr (c, w, d', s') \<Longrightarrow> logged s s'"
    and request_vote_votes:
      "rv_term rq \<noteq> u64_max \<Longrightarrow> request_vote rq cb d s = Inr (c, d', s') \<Longrightarrow> keeps_votes s s'"
    and append_entries_votes:
      "(recognises d r s \<Longrightarrow> next_term (vol s) \<le> ae_term r + 1) \<Longrightarrow>
       append_entries ev r cb d s = (c, d', s') \<Longrightarrow> keeps_votes s s'"
    and time_step_votes:
      "next_term (vol s) \<noteq> u64_max \<Longrightarrow> time_step ev ev' d s = Inr (c, w, d', s') \<Longrightarrow> keeps_votes s s'"
    and request_vote_wf:
      "log_wf cp s \<Longrightarrow> request_vote rq cb d s = Inr (c, d', s') \<Longrightarrow> log_wf cp s'"
    and append_entries_wf:
      "capnp_law cp \<Longrightarrow> log_wf cp s \<Longrightarrow> request_ok cp r \<Longrightarrow> persistence_connected s \<Longrightarrow>
       append_entries ev r cb d s = (c, d', s') \<Longrightarrow> log_wf cp s'"
    and time_step_wf:
      "capnp_law cp \<Longrightarrow> log_wf cp s \<Longrightarrow> role_inv d s \<Longrightarrow> responses_ok cp s \<Longrightarrow>
       time_step ev ev' d s = Inr (c, w, d', s') \<Longrightarrow> log_wf cp s'"
begin

text \<open>Requests that arrive one after the other, while the delegate stays the same.\<close>

fun append_all :: "(env \<times> LocalAppendEntries \<times> callback) list \<Rightarrow> 'd \<Rightarrow> SharedState \<Rightarrow> SharedState" where
  "append_all [] d s = s"
| "append_all ((ev, r, cb) # rs) d s =
     (case append_entries ev r cb d s of (_, d', s') \<Rightarrow> append_all rs d' s')"

lemma append_all_logged: "persistence_connected s \<Longrightarrow> logged s (append_all rs d s)"
proof (induction rs arbitrary: d s)
  case (Cons x rs)
  obtain ev r cb where x: "x = (ev, r, cb)" by (cases x)
  obtain c d' s' where a: "append_entries ev r cb d s = (c, d', s')" by (metis prod_cases3)
  note l = append_entries_logged [OF Cons.prems a]
  with Cons have "logged s' (append_all rs d' s')" by (simp add: logged_connected)
  from logged_trans [OF l this] show ?case by (simp add: x a)
qed simp

lemma append_all_wf:
  assumes "capnp_law cp"
  shows "log_wf cp s \<Longrightarrow> persistence_connected s \<Longrightarrow> list_all (\<lambda>(_, r, _). request_ok cp r) rs \<Longrightarrow>
    log_wf cp (append_all rs d s)"
proof (induction rs arbitrary: d s)
  case (Cons x rs)
  obtain ev r cb where x: "x = (ev, r, cb)" by (cases x)
  obtain c d' s' where a: "append_entries ev r cb d s = (c, d', s')" by (metis prod_cases3)
  have "log_wf cp s'" using append_entries_wf [OF assms Cons.prems(1) _ Cons.prems(2) a] Cons.prems(3) x by simp
  with Cons.IH Cons.prems append_entries_logged [OF Cons.prems(2) a] show ?case
    by (simp add: x a logged_connected)
qed simp

end


text \<open>The handlers of the three roles in the shape of the trait.\<close>

definition follower_recognises :: "LocalAppendEntries \<Rightarrow> SharedState \<Rightarrow> bool" where
  "follower_recognises r s \<longleftrightarrow> ae_term r > current_term (server_state s)"

definition candidate_recognises :: "LocalAppendEntries \<Rightarrow> SharedState \<Rightarrow> bool" where
  "candidate_recognises r s \<longleftrightarrow> ae_term r \<ge> current_term (server_state s)"

definition leader_inv :: "RaftLeaderStateDelegate \<Rightarrow> SharedState \<Rightarrow> bool" where
  "leader_inv d s \<longleftrightarrow> current_term (server_state s) \<noteq> 0 \<and> (initialized d \<longrightarrow> leader_ready s)"

interpretation follower: raft_protocol cp
  "\<lambda>r cb d s. bind_res (follower_request_vote r cb s) (\<lambda>(c, s'). Inr (c, d, s'))"
  "\<lambda>ev r cb d s. follower_append_entries cp ev r cb (d, s)"
  "\<lambda>ev ev' d s. follower_time_step ev (d, s)"
  "\<lambda>d. follower_recognises" "\<lambda>d s. True"
  for cp
proof (unfold_locales, goal_cases)
  case (1 s rq cb d c d' s') then show ?case by (auto intro: follower_request_vote_logged)
next
  case (2 s ev r cb d c d' s') then show ?case by (rule follower_append_entries_logged)
next
  case (3 s ev ev' d c w d' s') then show ?case by (rule follower_time_step_logged)
next
  case (4 rq cb d s c d' s') then show ?case by (auto intro: follower_request_vote_votes)
next
  case (5 d r s ev cb c d' s') then show ?case
    by (intro follower_append_entries_votes [of s r cp ev cb d c d' s']) (simp_all add: follower_recognises_def)
next
  case (6 s ev ev' d c w d' s') from 6(2) show ?case by (rule follower_time_step_votes)
next
  case (7 s rq cb d c d' s') then show ?case by (auto intro: follower_request_vote_wf)
next
  case (8 s r ev cb d c d' s') then show ?case by (rule follower_append_entries_wf)
next
  case (9 s d ev ev' c w d' s') from 9(2,4,5) show ?case by (rule follower_time_step_wf)
qed

interpretation candidate: raft_protocol cp
  "\<lambda>r cb d s. case candidate_request_vote r cb s of (c, s') \<Rightarrow> Inr (c, d, s')"
  "\<lambda>ev r cb d s. case candidate_append_entries ev r cb s of (c, s') \<Rightarrow> (c, d, s')"
  "\<lambda>ev ev' d s. candidate_time_step ev ev' (d, s)"
  "\<lambda>d. candidate_recognises" "\<lambda>d s. True"
  for cp
proof (unfold_locales, goal_cases)
  case (1 s rq cb d c d' s') then show ?case using candidate_request_vote_logged [of s rq cb] by (auto split: prod.splits)
next
  case (2 s ev r cb d c d' s') then show ?case using candidate_append_entries_logged [of s ev r cb] by (auto split: prod.splits)
next
  case (3 s ev ev' d c w d' s') then show ?case by (rule candidate_time_step_logged)
next
  case (4 rq cb d s c d' s') then show ?case using candidate_request_vote_votes [of rq s cb] by (auto split: prod.splits)
next
  case (5 d r s ev cb c d' s') then show ?case
    using candidate_append_entries_votes [of s r ev cb] by (auto simp: candidate_recognises_def split: prod.splits)
next
  case (6 s ev ev' d c w d' s') then show ?case by (rule candidate_time_step_votes)
next
  case (7 s rq cb d c d' s') then show ?case using candidate_request_vote_wf [of cp s rq cb] by (auto split: prod.splits)
next
  case (8 s r ev cb d c d' s') then show ?case using candidate_append_entries_wf [of cp s ev r cb] by (auto split: prod.splits)
next
  case (9 s d ev ev' c w d' s') from 9(2,5) show ?case by (rule candidate_time_step_wf)
qed

interpretation leader: raft_protocol cp
  "\<lambda>r cb d s. case leader_request_vote r cb s of (c, s') \<Rightarrow> Inr (c, d, s')"
  "\<lambda>ev r cb d s. case leader_append_entries ev r cb s of (c, s') \<Rightarrow> (c, d, s')"
  "\<lambda>ev ev' d s. leader_time_step cp ev (d, s)"
  "\<lambda>d. follower_recognises" leader_inv
  for cp
proof (unfold_locales, goal_cases)
  case (1 s rq cb d c d' s') then show ?case
    using candidate_request_vote_logged [of s rq cb] by (auto simp: leader_request_vote_eq split: prod.splits)
next
  case (2 s ev r cb d c d' s') then show ?case using leader_append_entries_logged [of s ev r cb] by (auto split: prod.splits)
next
  case (3 s ev ev' d c w d' s') then show ?case by (rule leader_time_step_logged)
next
  case (4 rq cb d s c d' s') then show ?case
    using candidate_request_vote_votes [of rq s cb] by (auto simp: leader_request_vote_eq split: prod.splits)
next
  case (5 d r s ev cb c d' s') then show ?case
    using leader_append_entries_votes [of s r ev cb] by (auto simp: follower_recognises_def split: prod.splits)
next
  case (6 s ev ev' d c w d' s') from 6(2) show ?case by (rule leader_time_step_votes)
next
  case (7 s rq cb d c d' s') then show ?case
    using candidate_request_vote_wf [of cp s rq cb] by (auto simp: leader_request_vote_eq split: prod.splits)
next
  case (8 s r ev cb d c d' s') then show ?case using leader_append_entries_wf [of cp s ev r cb] by (auto split: prod.splits)
next
  case (9 s d ev ev' c w d' s') then show ?case
    using leader_time_step_wf [of cp s d ev c w d' s'] by (simp add: leader_inv_def)
qed

text \<open>The dynamic dispatch of the executor satisfies the same contract.\<close>

definition delegate_recognises :: "Delegate \<Rightarrow> LocalAppendEntries \<Rightarrow> SharedState \<Rightarrow> bool" where
  "delegate_recognises d r s =
     (case d of Candidate_Delegate _ \<Rightarrow> candidate_recognises r s | _ \<Rightarrow> follower_recognises r s)"

definition delegate_inv :: "Delegate \<Rightarrow> SharedState \<Rightarrow> bool" where
  "delegate_inv d s = (case d of Leader_Delegate l \<Rightarrow> leader_inv l s | _ \<Rightarrow> True)"

lemma delegate_time_stepE:
  assumes "delegate_time_step cp ev ev' d s = Inr (c, w, d', s')"
  obtains (follower) f f' where "d = Follower_Delegate f" "d' = Follower_Delegate f'"
      "follower_time_step ev (f, s) = Inr (c, w, f', s')"
  | (candidate) k k' where "d = Candidate_Delegate k" "d' = Candidate_Delegate k'"
      "candidate_time_step ev ev' (k, s) = Inr (c, w, k', s')"
  | (leader) l l' where "d = Leader_Delegate l" "d' = Leader_Delegate l'"
      "leader_time_step cp ev (l, s) = Inr (c, w, l', s')"
  using assms by (cases d) (auto simp: delegate_time_step_def)

lemma delegate_request_voteE:
  assumes "delegate_request_vote r cb d s = Inr (c, d', s')"
  obtains (follower) f where "d = Follower_Delegate f" "follower_request_vote r cb s = Inr (c, s')"
  | (other) "s' = snd (candidate_request_vote r cb s)" "c = fst (candidate_request_vote r cb s)"
  using assms by (cases d) (auto simp: delegate_request_vote_def leader_request_vote_eq split: prod.splits)

lemma delegate_append_entriesE:
  assumes "delegate_append_entries cp ev r cb d s = (c, d', s')"
  obtains (follower) f f' where "d = Follower_Delegate f" "d' = Follower_Delegate f'"
      "follower_append_entries cp ev r cb (f, s) = (c, f', s')"
  | (candidate) k where "d = Candidate_Delegate k" "d' = d" "candidate_append_entries ev r cb s = (c, s')"
  | (leader) l where "d = Leader_Delegate l" "d' = d" "leader_append_entries ev r cb s = (c, s')"
  using assms by (cases d) (auto simp: delegate_append_entries_def split: prod.splits)

interpretation dispatch: raft_protocol cp
  delegate_request_vote "delegate_append_entries cp" "delegate_time_step cp" delegate_recognises delegate_inv
  for cp
proof (unfold_locales, goal_cases)
  case (1 s rq cb d c d' s') from 1(2) show ?case
    using candidate_request_vote_logged [OF 1(1), of rq cb] follower_request_vote_logged
    by (cases rule: delegate_request_voteE) auto
next
  case (2 s ev r cb d c d' s') from 2(2) show ?case
    using candidate_append_entries_logged [of s ev r cb] leader_append_entries_logged [of s ev r cb]
      follower_append_entries_logged [OF 2(1)]
    by (cases rule: delegate_append_entriesE) auto
next
  case (3 s ev ev' d c w d' s') from 3(2) show ?case
    by (cases rule: delegate_time_stepE) (rule follower_time_step_logged [OF 3(1)] candidate_time_step_logged [OF 3(1)]
      leader_time_step_logged [OF 3(1)], assumption)+
next
  case (4 rq cb d s c d' s') from 4(2) show ?case
    using candidate_request_vote_votes [OF 4(1), of s cb] follower_request_vote_votes [OF 4(1)]
    by (cases rule: delegate_request_voteE) auto
next
  case (5 d r s ev cb c d' s') from 5(2) show ?case
  proof (cases rule: delegate_append_entriesE)
    case (follower f f') with 5(1) show ?thesis
      using follower_append_entries_votes [of s r cp ev cb f c f' s']
      by (simp add: delegate_recognises_def follower_recognises_def)
  next
    case (candidate k) with 5(1) show ?thesis
      using candidate_append_entries_votes [of s r ev cb]
      by (simp add: delegate_recognises_def candidate_recognises_def)
  next
    case (leader l) with 5(1) show ?thesis
      using leader_append_entries_votes [of s r ev cb]
      by (simp add: delegate_recognises_def follower_recognises_def)
  qed
next
  case (6 s ev ev' d c w d' s') from 6(2) show ?case
    by (cases rule: delegate_time_stepE) (rule follower_time_step_votes candidate_time_step_votes [OF 6(1)]
      leader_time_step_votes, assumption)+
next
  case (7 s rq cb d c d' s') from 7(2) show ?case
    using candidate_request_vote_wf [OF 7(1), of rq cb] follower_request_vote_wf [OF 7(1)]
    by (cases rule: delegate_request_voteE) auto
next
  case (8 s r ev cb d c d' s') from 8(5) show ?case
    using candidate_append_entries_wf [OF 8(2), of ev r cb] leader_append_entries_wf [OF 8(2), of ev r cb]
      follower_append_entries_wf [OF 8(1-4)]
    by (cases rule: delegate_append_entriesE) auto
next
  case (9 s d ev ev' c w d' s') from 9(5) show ?case
  proof (cases rule: delegate_time_stepE)
    case (follower f f') then show ?thesis by (intro follower_time_step_wf [OF 9(2,4)])
  next
    case (candidate k k') then show ?thesis by (intro candidate_time_step_wf [OF 9(2)])
  next
    case (leader l l') with 9(1-3) show ?thesis
      using leader_time_step_wf [of cp s l ev c w l' s'] by (simp add: leader_inv_def delegate_inv_def)
  qed
qed

end
