(* ===== verification/Node_Runs.thy ===== *)
theory Node_Runs
  imports Raft_Protocol
begin

text \<open>
  The runs of a node: sequences of time steps, accepted messages and responses
  of the other workers. What one step does to the log, the votes and the
  persistence queue is carried along every run.
\<close>

section \<open>Runs of a node\<close>

text \<open>
  What can happen to a node: the worker takes a time step or accepts a message,
  or other threads put responses on its queues.
\<close>

datatype input =
    Time_Step env env
  | Accept env LocalRaftMessagePayload callback
  | Respond "PersistenceResponseType list" "LocalQuorumTaskResponseType list"

fun exec :: "capnp \<Rightarrow> input \<Rightarrow> Executor \<Rightarrow> Executor result" where
  "exec cp (Time_Step ev ev') x = bind_res (time_step cp ev ev' x) (\<lambda>(_, y). Inr y)"
| "exec cp (Accept ev m cb) x = accept cp ev (m, cb) x"
| "exec cp (Respond prs qrs) x =
     Inr (x\<lparr>shared_state := (shared_state x)\<lparr>persistence_response := persistence_response (shared_state x) @ prs,
                                              quorum_response := quorum_response (shared_state x) @ qrs\<rparr>\<rparr>)"

inductive node_steps :: "capnp \<Rightarrow> (input \<Rightarrow> Executor \<Rightarrow> bool) \<Rightarrow> Executor \<Rightarrow> Executor \<Rightarrow> bool"
  for cp promise x where
  start: "node_steps cp promise x x"
| step: "node_steps cp promise x y \<Longrightarrow> promise i y \<Longrightarrow> exec cp i y = Inr z \<Longrightarrow> node_steps cp promise x z"

inductive_cases node_steps_stepE: "node_steps cp promise x z"

lemma node_steps_invariant:
  assumes "node_steps cp promise x y" "P x"
    "\<And>i u v. P u \<Longrightarrow> promise i u \<Longrightarrow> exec cp i u = Inr v \<Longrightarrow> P v"
  shows "P y"
  using assms by (induction rule: node_steps.induct) auto

lemma exec_logged:
  assumes "persistence_connected (shared_state x)" "exec cp i x = Inr y"
  shows "logged (shared_state x) (shared_state y)"
proof (cases i)
  case (Time_Step ev ev')
  with assms obtain c w d s where "delegate_time_step cp ev ev' (state_delegate x) (shared_state x) = Inr (c, w, d, s)"
    "shared_state y = s"
    by (auto simp: time_step_def)
  with dispatch.time_step_logged [OF assms(1)] show ?thesis by blast
next
  case (Accept ev m cb)
  show ?thesis
  proof (cases m)
    case (Msg_RequestVote r)
    with Accept assms obtain c d s where "delegate_request_vote r cb (state_delegate x) (shared_state x) = Inr (c, d, s)"
      "shared_state y = s"
      by (auto simp: accept_def)
    with dispatch.request_vote_logged [OF assms(1)] show ?thesis by blast
  next
    case (Msg_AppendEntries r)
    with Accept assms obtain c d s where "delegate_append_entries cp ev r cb (state_delegate x) (shared_state x) = (c, d, s)"
      "shared_state y = s"
      by (auto simp: accept_def split: prod.splits)
    with dispatch.append_entries_logged [OF assms(1)] show ?thesis by blast
  next
    case Msg_GetRaftState
    with Accept assms(2) show ?thesis by (auto simp: accept_def logged_quiet)
  next
    case (Msg_WriteBatch b)
    with Accept assms show ?thesis
      using leader_write_batch_logged by (auto simp: accept_def logged_quiet split: if_splits)
  qed
next
  case (Respond prs qrs)
  with assms(2) show ?thesis by (auto intro!: logged_same)
qed

lemma node_steps_logged:
  assumes "node_steps cp promise x y" "persistence_connected (shared_state x)"
  shows "logged (shared_state x) (shared_state y)"
proof -
  have "logged (shared_state x) (shared_state y) \<and> persistence_connected (shared_state y)"
    using assms(1)
  proof (rule node_steps_invariant)
    fix i u v
    assume "logged (shared_state x) (shared_state u) \<and> persistence_connected (shared_state u)" "exec cp i u = Inr v"
    then show "logged (shared_state x) (shared_state v) \<and> persistence_connected (shared_state v)"
      using exec_logged logged_trans logged_connected by meson
  qed (simp add: assms(2))
  then show ?thesis ..
qed

section \<open>One vote per term\<close>

text \<open>
  What the votes rely on: no term counter is at the end of its range, and a
  recognised leader's term is not older than the terms this node has taken part in.
\<close>

fun votes_promise :: "input \<Rightarrow> Executor \<Rightarrow> bool" where
  "votes_promise (Time_Step _ _) x = (next_term (vol (shared_state x)) \<noteq> u64_max)"
| "votes_promise (Accept _ (Msg_RequestVote r) _) x = (rv_term r \<noteq> u64_max)"
| "votes_promise (Accept _ (Msg_AppendEntries r) _) x =
     (delegate_recognises (state_delegate x) r (shared_state x) \<longrightarrow> next_term (vol (shared_state x)) \<le> ae_term r + 1)"
| "votes_promise _ x = True"

lemma exec_votes:
  assumes "votes_promise i x" "exec cp i x = Inr y"
  shows "keeps_votes (shared_state x) (shared_state y)"
proof (cases i)
  case (Time_Step ev ev')
  with assms obtain c w d s where "delegate_time_step cp ev ev' (state_delegate x) (shared_state x) = Inr (c, w, d, s)"
    "shared_state y = s"
    by (auto simp: time_step_def)
  with dispatch.time_step_votes Time_Step assms(1) show ?thesis by auto
next
  case (Accept ev m cb)
  show ?thesis
  proof (cases m)
    case (Msg_RequestVote r)
    with Accept assms obtain c d s where "delegate_request_vote r cb (state_delegate x) (shared_state x) = Inr (c, d, s)"
      "shared_state y = s"
      by (auto simp: accept_def)
    with dispatch.request_vote_votes Accept Msg_RequestVote assms(1) show ?thesis by auto
  next
    case (Msg_AppendEntries r)
    with Accept assms obtain c d s where a: "delegate_append_entries cp ev r cb (state_delegate x) (shared_state x) = (c, d, s)"
      "shared_state y = s"
      by (auto simp: accept_def split: prod.splits)
    have "keeps_votes (shared_state x) s"
      using assms(1) Accept Msg_AppendEntries by (intro dispatch.append_entries_votes [OF _ a(1)]) simp
    with a(2) show ?thesis by simp
  next
    case Msg_GetRaftState
    with Accept assms(2) show ?thesis by (auto simp: accept_def keeps_votes_quiet)
  next
    case (Msg_WriteBatch b)
    with Accept assms show ?thesis
      using leader_write_batch_votes by (auto simp: accept_def keeps_votes_quiet split: if_splits)
  qed
next
  case (Respond prs qrs)
  with assms(2) show ?thesis by (auto simp: pending_votes_def intro!: keeps_votes_same)
qed

lemma node_steps_votes:
  assumes "node_steps cp votes_promise x y"
  shows "keeps_votes (shared_state x) (shared_state y)"
  using assms
proof (rule node_steps_invariant)
  show "keeps_votes (shared_state x) (shared_state x)" by (rule keeps_votes_same) simp_all
next
  fix i u v
  assume "keeps_votes (shared_state x) (shared_state u)" "votes_promise i u" "exec cp i u = Inr v"
  then show "keeps_votes (shared_state x) (shared_state v)"
    using exec_votes keeps_votes_trans by meson
qed

section \<open>The shape of the log along a run\<close>

definition node_inv :: "capnp \<Rightarrow> Executor \<Rightarrow> bool" where
  "node_inv cp x \<longleftrightarrow>
     log_wf cp (shared_state x) \<and> persistence_connected (shared_state x) \<and>
     delegate_inv (state_delegate x) (shared_state x)"

text \<open>
  What the shape of the log relies on: requests carry entries whose fields agree
  with their data, a truncation point lies in the log it truncates, terms are
  positive, and a leader takes its first time step before it accepts a write.
\<close>

fun log_promise :: "capnp \<Rightarrow> input \<Rightarrow> Executor \<Rightarrow> bool" where
  "log_promise cp (Time_Step _ _) x = responses_ok cp (shared_state x)"
| "log_promise cp (Accept _ (Msg_AppendEntries r) _) x = request_ok cp r"
| "log_promise cp (Accept _ (Msg_WriteBatch _) _) x =
     (case state_delegate x of Leader_Delegate l \<Rightarrow> initialized l | _ \<Rightarrow> True)"
| "log_promise cp _ x = True"

lemma delegate_inv_simps [simp]:
  "delegate_inv (Follower_Delegate f) s" "delegate_inv (Candidate_Delegate k) s"
  "delegate_inv (Leader_Delegate l) s = leader_inv l s"
  by (simp_all add: delegate_inv_def)

lemma apply_change_simps [simp]:
  "apply_change SC_None d = d" "apply_change (SC_Follower f) d = Follower_Delegate f"
  "apply_change (SC_Candidate k) d = Candidate_Delegate k" "apply_change (SC_Leader l) d = Leader_Delegate l"
  by (simp_all add: apply_change_def)

lemma leader_time_step_initialized:
  "leader_time_step cp ev (d, s) = Inr (c, w, d', s') \<Longrightarrow> initialized d'"
  by (erule leader_time_step_cases) (auto simp: leader_initialize_def split: if_splits)

lemma candidate_elected:
  assumes "responses_ok cp s" "candidate_time_step ev ev' (k, s) = Inr (c, w, k', s')"
  shows "c = SC_None \<or> c = SC_Leader (new_leader ev) \<and> current_term (server_state s') \<noteq> 0"
  using assms(2)
proof (cases rule: candidate_time_step_cases)
  case (persisted r u)
  then obtain i t n where "r = PR_VotePersisted i t n" "current_term (server_state s') = t"
    by (auto simp: won_on_persisted_def become_leader_def)
  with persisted assms(1) show ?thesis by (auto simp: responses_ok_def list_all_iff)
next
  case (voted r u)
  then obtain i t v where "r = QR_RequestVoteResponse i t v" "current_term (server_state s') = t"
    by (auto simp: won_on_vote_def become_leader_def)
  with voted assms(1) show ?thesis by (auto simp: responses_ok_def list_all_iff)
qed simp_all

lemma delegate_time_step_inv:
  assumes "capnp_law cp" "log_wf cp s" "delegate_inv d s" "responses_ok cp s"
    "delegate_time_step cp ev ev' d s = Inr (c, w, d', s')"
  shows "delegate_inv (apply_change c d') s'"
  using assms(5)
proof (cases rule: delegate_time_stepE)
  case (follower f f')
  from follower(3) show ?thesis by (rule follower_time_step_cases) (use follower in auto)
next
  case (candidate k k')
  from candidate_elected [OF assms(4) candidate(3)] candidate(2) show ?thesis
    by (auto simp: leader_inv_def new_leader_def)
next
  case (leader l l')
  then show ?thesis
    using leader_time_step_wf [OF assms(1,2) _ _ leader(3)] leader_time_step_initialized [OF leader(3)] assms(3)
    by (auto simp: leader_inv_def)
qed

lemma candidate_request_vote_frame [simp]:
  "fst (candidate_request_vote r cb s) = SC_None"
  "server_state (snd (candidate_request_vote r cb s)) = server_state s"
  "raft_log (snd (candidate_request_vote r cb s)) = raft_log s"
  "next_log_index (vol (snd (candidate_request_vote r cb s))) = next_log_index (vol s)"
  by (simp_all add: candidate_request_vote_def accept_vote_def raise_next_term_def persistence_send_def
      insert_outstanding_def Let_def)

lemma delegate_request_vote_inv:
  assumes "delegate_inv d s" "delegate_request_vote r cb d s = Inr (c, d', s')"
  shows "delegate_inv (apply_change c d') s'"
  using assms
  by (cases d) (auto simp: delegate_request_vote_def leader_request_vote_eq follower_request_vote_def Let_def
      leader_inv_def leader_ready_def split_beta split: if_splits)

lemma delegate_append_entries_inv:
  assumes "delegate_inv d s" "delegate_append_entries cp ev r cb d s = (c, d', s')"
  shows "delegate_inv (apply_change c d') s'"
  using assms(2)
proof (cases rule: delegate_append_entriesE)
  case (follower f f')
  then show ?thesis by (auto simp: follower_append_entries_def Let_def split: prod.splits)
next
  case (candidate k)
  then show ?thesis by (auto simp: candidate_append_entries_def Let_def split: if_splits)
next
  case (leader l)
  with assms(1) show ?thesis
    by (auto simp: leader_append_entries_def leader_handle_new_leader_def Let_def leader_inv_def leader_ready_def
        split: if_splits)
qed

lemma delegate_inv_quiet: "delegate_inv d s \<Longrightarrow> quiet s s' \<Longrightarrow> delegate_inv d s'"
  using leader_ready_quiet by (cases d) (auto simp: leader_inv_def quiet_def)

lemma exec_inv:
  assumes "capnp_law cp" "node_inv cp x" "log_promise cp i x" "exec cp i x = Inr y"
  shows "node_inv cp y"
proof -
  let ?s = "shared_state x" and ?d = "state_delegate x"
  from assms(2) have inv: "log_wf cp ?s" "persistence_connected ?s" "delegate_inv ?d ?s"
    by (simp_all add: node_inv_def)
  have conn: "persistence_connected (shared_state y)"
    using logged_connected [OF exec_logged [OF inv(2) assms(4)]] inv(2) by simp
  have quiet_inv: "log_wf cp t \<and> delegate_inv ?d t" if "quiet ?s t" for t
    using log_wf_quiet [OF inv(1) that] delegate_inv_quiet [OF inv(3) that] ..
  have "log_wf cp (shared_state y) \<and> delegate_inv (state_delegate y) (shared_state y)"
  proof (cases i)
    case (Time_Step ev ev')
    with assms(3,4) obtain c w d s where t: "delegate_time_step cp ev ev' ?d ?s = Inr (c, w, d, s)"
      and y: "y = \<lparr> state_delegate = apply_change c d, shared_state = s \<rparr>" and ok: "responses_ok cp ?s"
      by (auto simp: time_step_def)
    show ?thesis
      using dispatch.time_step_wf [OF assms(1) inv(1,3) ok t] delegate_time_step_inv [OF assms(1) inv(1,3) ok t] y
      by simp
  next
    case (Respond prs qrs)
    with assms(4) have "state_delegate y = ?d" "quiet ?s (shared_state y)"
      by (auto simp: quiet_def)
    then show ?thesis using quiet_inv by simp
  next
    case (Accept ev m cb)
    show ?thesis
    proof (cases m)
      case (Msg_RequestVote r)
      with Accept assms(4) obtain c d s where t: "delegate_request_vote r cb ?d ?s = Inr (c, d, s)"
        and y: "y = \<lparr> state_delegate = apply_change c d, shared_state = s \<rparr>"
        by (auto simp: accept_def)
      show ?thesis using dispatch.request_vote_wf [OF inv(1) t] delegate_request_vote_inv [OF inv(3) t] y by simp
    next
      case (Msg_AppendEntries r)
      with Accept assms(3,4) obtain c d s where t: "delegate_append_entries cp ev r cb ?d ?s = (c, d, s)"
        and y: "y = \<lparr> state_delegate = apply_change c d, shared_state = s \<rparr>" and ok: "request_ok cp r"
        by (auto simp: accept_def split: prod.splits)
      show ?thesis
        using dispatch.append_entries_wf [OF assms(1) inv(1) ok inv(2) t] delegate_append_entries_inv [OF inv(3) t] y
        by simp
    next
      case Msg_GetRaftState
      with Accept assms(4) have "state_delegate y = ?d" "quiet ?s (shared_state y)" by (auto simp: accept_def)
      then show ?thesis using quiet_inv by simp
    next
      case (Msg_WriteBatch b)
      show ?thesis
      proof (cases ?d)
        case (Leader_Delegate l)
        with Accept Msg_WriteBatch assms(3,4) have "leader_write_batch cp ev b cb ?s = Inr (shared_state y)"
          "state_delegate y = ?d" "initialized l"
          by (auto simp: accept_def get_node_type_def)
        with leader_write_batch_wf [OF assms(1) inv(1) _ _ inv(2)] inv(3) Leader_Delegate show ?thesis
          by (auto simp: leader_inv_def)
      qed (use Accept Msg_WriteBatch assms(4) quiet_inv [OF quiet_send_callback] in
            \<open>auto simp: accept_def get_node_type_def\<close>)
    qed
  qed
  with conn show ?thesis by (simp add: node_inv_def)
qed

lemma node_steps_inv:
  assumes "capnp_law cp" "node_steps cp (log_promise cp) x y" "node_inv cp x"
  shows "node_inv cp y"
  using assms(2,3) exec_inv [OF assms(1)] by (rule node_steps_invariant)

end
