(* ===== verification/Quorum_Messages.thy ===== *)
theory Quorum_Messages
  imports Capnp_Messages
begin

text \<open>
  The messages between nodes, \<open>transport/capnp/owned_message.rs\<close>. The code that
  the Cap'n Proto compiler generates for \<open>RemoteQuorumMessage\<close> is a parameter: a
  record \<open>wire\<close> with \<open>get_root\<close> on the bytes of a message and the builder that
  serialises one. \<open>wire_law\<close> is its documented round trip.
\<close>

section \<open>Lossy conversion to UTF-8\<close>

text \<open>
  \<open>String::from_utf8_lossy\<close>: the longest start of the bytes that is one character,
  or else the longest start of an ill-formed sequence, which becomes U+FFFD.
\<close>

fun utf8_step :: "u8 list \<Rightarrow> bool \<times> nat" where
  "utf8_step [] = (True, 0)"
| "utf8_step (b0 # bs) =
     (if b0 < 0x80 then (True, 1)
      else if 0xC2 \<le> b0 \<and> b0 \<le> 0xDF then
        (case bs of b1 # _ \<Rightarrow> (if utf8_cont b1 then (True, 2) else (False, 1)) | [] \<Rightarrow> (False, 1))
      else if 0xE0 \<le> b0 \<and> b0 \<le> 0xEF then
        (case bs of
           b1 # r \<Rightarrow>
             (if utf8_second b0 b1
              then (case r of b2 # _ \<Rightarrow> (if utf8_cont b2 then (True, 3) else (False, 2)) | [] \<Rightarrow> (False, 2))
              else (False, 1))
         | [] \<Rightarrow> (False, 1))
      else if 0xF0 \<le> b0 \<and> b0 \<le> 0xF4 then
        (case bs of
           b1 # r \<Rightarrow>
             (if utf8_second b0 b1
              then (case r of
                      b2 # r' \<Rightarrow>
                        (if utf8_cont b2
                         then (case r' of b3 # _ \<Rightarrow> (if utf8_cont b3 then (True, 4) else (False, 3)) | [] \<Rightarrow> (False, 3))
                         else (False, 2))
                    | [] \<Rightarrow> (False, 2))
              else (False, 1))
         | [] \<Rightarrow> (False, 1))
      else (False, 1))"

definition replacement_char :: "u8 list" where
  "replacement_char = [0xEF, 0xBF, 0xBD]"

lemma utf8_step_pos: "bs \<noteq> [] \<Longrightarrow> 0 < snd (utf8_step bs)"
  by (cases bs) (auto split: list.splits)

function from_utf8_lossy :: "u8 list \<Rightarrow> text_bytes" where
  "from_utf8_lossy bs =
     (if bs = [] then []
      else
        let (ok, n) = utf8_step bs in
        (if ok then take n bs else replacement_char) @ from_utf8_lossy (drop n bs))"
  by pat_completeness auto
termination
proof (relation "measure length")
  fix bs x ok n
  assume "bs \<noteq> []" "x = utf8_step bs" "(ok, n) = x"
  then have "n = snd (utf8_step bs)" by (metis snd_conv)
  with utf8_step_pos [of bs] \<open>bs \<noteq> []\<close> show "(drop n bs, bs) \<in> measure length" by simp
qed simp

declare from_utf8_lossy.simps [simp del]

section \<open>The schema\<close>

record RemoteLogEntry =
  rle_index :: u64
  rle_data :: "u8 list option"
  rle_batch_index :: u64
  rle_term :: u64
  rle_prev_log_term :: u64
  rle_prev_log_index :: u64
  rle_message_id :: u64

text \<open>
  \<open>rae_entry\<close> is \<^const>\<open>None\<close> when \<open>has_entry\<close> is false, and \<open>Some None\<close> when
  \<open>get_entry\<close> fails.
\<close>

record RemoteAppendEntriesRequest =
  rae_term :: u64
  rae_leader_id :: u32
  rae_prev_log_index :: u64
  rae_prev_log_term :: u64
  rae_request_id :: u64
  rae_entry :: "RemoteLogEntry option option"
  rae_commit_index :: u64

record RemoteAppendEntriesAcknowledge =
  ack_last_log_term :: u64
  ack_last_log_index :: u64
  ack_request_id :: u64
  ack_ok :: bool

record RemoteVoteRequest =
  rvq_term :: u64
  rvq_candidate_id :: u32
  rvq_last_log_index :: u64
  rvq_last_log_term :: u64
  rvq_request_id :: u64

record RemoteVoteResponse =
  rvr_vote_granted :: bool
  rvr_request_id :: u64
  rvr_term :: u64

record RemotePutRequest =
  rpq_id :: "text_bytes option"
  rpq_payload :: "text_bytes option"
  rpq_node_id :: u32

record RemotePutBatchRequest =
  rpb_put_requests :: "RemotePutRequest list option"
  rpb_batch_id :: "text_bytes option"

text \<open>\<open>RemotePutResponse\<close> has the fields of \<open>InternalPutResponse\<close>.\<close>

record RemotePutBatchResponse =
  rpr_responses :: "InternalPutResponse list option"
  rpr_batch_id :: "text_bytes option"

record RemoteConnectRequest =
  rcq_node_id :: u32

record RemoteConnectResponse =
  rcr_ok :: bool

record RemoteTruncateLogRequest =
  rtq_prev_term :: u64
  rtq_prev_index :: u64
  rtq_term :: u64
  rtq_leader_id :: u32
  rtq_request_id :: u64

record RemoteTruncateLogResponse =
  rtr_request_id :: u64
  rtr_ok :: bool

text \<open>A member of the union is a pointer, so reading it can fail.\<close>

datatype message_payload =
    ConnectRequest "RemoteConnectRequest option"
  | ConnectResponse "RemoteConnectResponse option"
  | VoteRequest "RemoteVoteRequest option"
  | VoteResponse "RemoteVoteResponse option"
  | AppendEntriesRequest "RemoteAppendEntriesRequest option"
  | AppendEntriesAcknowledge "RemoteAppendEntriesAcknowledge option"
  | PutBatchRequest "RemotePutBatchRequest option"
  | PutBatchResponse "RemotePutBatchResponse option"
  | TruncateLogRequest "RemoteTruncateLogRequest option"
  | TruncateLogResponse "RemoteTruncateLogResponse option"

text \<open>\<open>get_quorum_message\<close> is \<open>get_root\<close>, then \<open>which\<close>: the outer and the inner option.\<close>

record wire =
  get_quorum_message :: "u8 list \<Rightarrow> message_payload option option"
  write_quorum_message :: "message_payload \<Rightarrow> u8 list"

section \<open>Owned messages\<close>

datatype OwnedQuorumMessage = OwnedQuorumMessage (message_bytes: "u8 list")

definition quorum_message_from_bytes :: "capnp \<Rightarrow> u8 list \<Rightarrow> OwnedQuorumMessage option" where
  "quorum_message_from_bytes cp bytes =
     (case read_flat cp bytes of None \<Rightarrow> None | Some _ \<Rightarrow> Some (OwnedQuorumMessage bytes))"

definition quorum_with_message ::
  "capnp \<Rightarrow> wire \<Rightarrow> OwnedQuorumMessage \<Rightarrow> (message_payload option \<Rightarrow> 'r) \<Rightarrow> 'r option" where
  "quorum_with_message cp wr m f =
     (case read_flat cp (message_bytes m) of
        None \<Rightarrow> None
      | Some _ \<Rightarrow> map_option f (get_quorum_message wr (message_bytes m)))"

definition build_owned_message :: "wire \<Rightarrow> message_payload \<Rightarrow> OwnedQuorumMessage" where
  "build_owned_message wr p = OwnedQuorumMessage (write_quorum_message wr p)"

section \<open>The builders\<close>

definition build_heartbeat_message :: "wire \<Rightarrow> u64 \<Rightarrow> u32 \<Rightarrow> u64 \<Rightarrow> u64 \<Rightarrow> u64 \<Rightarrow> u64 \<Rightarrow> OwnedQuorumMessage" where
  "build_heartbeat_message wr t leader prev_log_index prev_log_term commit request_id =
     build_owned_message wr (AppendEntriesRequest (Some
       \<lparr> rae_term = t, rae_leader_id = leader, rae_prev_log_index = prev_log_index,
         rae_prev_log_term = prev_log_term, rae_request_id = request_id, rae_entry = None,
         rae_commit_index = commit \<rparr>))"

definition build_vote_request_message :: "wire \<Rightarrow> u64 \<Rightarrow> u32 \<Rightarrow> u64 \<Rightarrow> u64 \<Rightarrow> u64 \<Rightarrow> OwnedQuorumMessage" where
  "build_vote_request_message wr t candidate_id last_log_index' last_log_term' request_id =
     build_owned_message wr (VoteRequest (Some
       \<lparr> rvq_term = t, rvq_candidate_id = candidate_id, rvq_last_log_index = last_log_index',
         rvq_last_log_term = last_log_term', rvq_request_id = request_id \<rparr>))"

definition build_vote_response_message :: "wire \<Rightarrow> bool \<Rightarrow> u64 \<Rightarrow> u64 \<Rightarrow> OwnedQuorumMessage" where
  "build_vote_response_message wr vote_granted request_id t =
     build_owned_message wr (VoteResponse (Some
       \<lparr> rvr_vote_granted = vote_granted, rvr_request_id = request_id, rvr_term = t \<rparr>))"

text \<open>The entry of an append request: its fields, and all of its bytes as the data.\<close>

definition remote_log_entry :: "OwnedLogEntry \<Rightarrow> InternalLogEntry \<Rightarrow> RemoteLogEntry" where
  "remote_log_entry log_entry reader =
     \<lparr> rle_index = ile_index reader, rle_data = Some (as_bytes log_entry), rle_batch_index = ile_index reader,
       rle_term = ile_term reader, rle_prev_log_term = ile_prev_log_term reader,
       rle_prev_log_index = ile_prev_log_index reader, rle_message_id = ile_message_id reader \<rparr>"

definition build_append_entries_message ::
  "capnp \<Rightarrow> wire \<Rightarrow> u64 \<Rightarrow> u32 \<Rightarrow> u64 \<Rightarrow> u64 \<Rightarrow> u64 \<Rightarrow> u64 \<Rightarrow> OwnedLogEntry option \<Rightarrow> OwnedQuorumMessage" where
  "build_append_entries_message cp wr t leader prev_log_index prev_log_term request_id commit entry =
     build_owned_message wr (AppendEntriesRequest (Some
       \<lparr> rae_term = t, rae_leader_id = leader, rae_prev_log_index = prev_log_index,
         rae_prev_log_term = prev_log_term, rae_request_id = request_id,
         rae_entry =
           (case entry of
              None \<Rightarrow> None
            | Some log_entry \<Rightarrow> map_option Some (log_entry_with_message cp log_entry (remote_log_entry log_entry))),
         rae_commit_index = commit \<rparr>))"

definition build_append_entries_ack_message :: "wire \<Rightarrow> u64 \<Rightarrow> u64 \<Rightarrow> u64 \<Rightarrow> bool \<Rightarrow> OwnedQuorumMessage" where
  "build_append_entries_ack_message wr last_log_term' last_log_index' request_id ok =
     build_owned_message wr (AppendEntriesAcknowledge (Some
       \<lparr> ack_last_log_term = last_log_term', ack_last_log_index = last_log_index',
         ack_request_id = request_id, ack_ok = ok \<rparr>))"

text \<open>
  A batch for another node. A field that cannot be read keeps its default, and so
  does the whole union when the batch cannot be parsed: its first member.
\<close>

definition remote_put_request :: "InternalPutRequest \<Rightarrow> RemotePutRequest" where
  "remote_put_request r =
     \<lparr> rpq_id = Some (unwrap_or (put_id r) []),
       rpq_payload = Some (unwrap_or (map_option from_utf8_lossy (put_payload r)) []),
       rpq_node_id = put_node_id r \<rparr>"

definition build_put_batch_request_message :: "capnp \<Rightarrow> wire \<Rightarrow> OwnedWriteBatch \<Rightarrow> OwnedQuorumMessage" where
  "build_put_batch_request_message cp wr batch =
     build_owned_message wr
       (case write_batch_with_message cp batch (\<lambda>reader.
               PutBatchRequest (Some
                 \<lparr> rpb_put_requests = Some (map remote_put_request (unwrap_or (iwb_requests reader) [])),
                   rpb_batch_id = Some (unwrap_or (iwb_batch_id reader) []) \<rparr>)) of
          Some p \<Rightarrow> p
        | None \<Rightarrow> ConnectRequest (Some \<lparr> rcq_node_id = 0 \<rparr>))"

definition write_batch_response_with_message ::
  "capnp \<Rightarrow> OwnedWriteBatchResponse \<Rightarrow> (InternalWriteBatchResponse \<Rightarrow> 'r) \<Rightarrow> 'r option" where
  "write_batch_response_with_message cp b f =
     (case read_flat cp (response_bytes b) of
        None \<Rightarrow> None
      | Some _ \<Rightarrow> map_option f (get_write_batch_response cp (response_bytes b)))"

definition copy_put_response :: "InternalPutResponse \<Rightarrow> InternalPutResponse" where
  "copy_put_response r =
     \<lparr> ipr_id = Some (unwrap_or (ipr_id r) []),
       ipr_response_type = Some (unwrap_or (ipr_response_type r) Unspecified),
       ipr_message = Some (unwrap_or (ipr_message r) []),
       ipr_node_id = ipr_node_id r,
       ipr_batch_id = Some (unwrap_or (ipr_batch_id r) []) \<rparr>"

definition build_put_batch_response_message ::
  "capnp \<Rightarrow> wire \<Rightarrow> OwnedWriteBatchResponse \<Rightarrow> text_bytes \<Rightarrow> OwnedQuorumMessage" where
  "build_put_batch_response_message cp wr response batch_id =
     build_owned_message wr
       (case write_batch_response_with_message cp response (\<lambda>reader.
               PutBatchResponse (Some
                 \<lparr> rpr_responses = Some (map copy_put_response (unwrap_or (iwr_responses reader) [])),
                   rpr_batch_id = Some batch_id \<rparr>)) of
          Some p \<Rightarrow> p
        | None \<Rightarrow> ConnectRequest (Some \<lparr> rcq_node_id = 0 \<rparr>))"

definition build_truncate_log_request_message :: "wire \<Rightarrow> u64 \<Rightarrow> u64 \<Rightarrow> u64 \<Rightarrow> u32 \<Rightarrow> u64 \<Rightarrow> OwnedQuorumMessage" where
  "build_truncate_log_request_message wr prev_term prev_index t leader request_id =
     build_owned_message wr (TruncateLogRequest (Some
       \<lparr> rtq_prev_term = prev_term, rtq_prev_index = prev_index, rtq_term = t, rtq_leader_id = leader,
         rtq_request_id = request_id \<rparr>))"

definition build_truncate_log_response_message :: "wire \<Rightarrow> u64 \<Rightarrow> bool \<Rightarrow> OwnedQuorumMessage" where
  "build_truncate_log_response_message wr request_id ok =
     build_owned_message wr (TruncateLogResponse (Some \<lparr> rtr_request_id = request_id, rtr_ok = ok \<rparr>))"

section \<open>What the program relies on\<close>

text \<open>A payload that a builder can hold: nothing in it is in error.\<close>

fun built_payload :: "message_payload \<Rightarrow> bool" where
  "built_payload (ConnectRequest r) = (r \<noteq> None)"
| "built_payload (ConnectResponse r) = (r \<noteq> None)"
| "built_payload (VoteRequest r) = (r \<noteq> None)"
| "built_payload (VoteResponse r) = (r \<noteq> None)"
| "built_payload (AppendEntriesRequest r) =
     (case r of None \<Rightarrow> False
      | Some q \<Rightarrow> (case rae_entry q of None \<Rightarrow> True | Some None \<Rightarrow> False | Some (Some e) \<Rightarrow> rle_data e \<noteq> None))"
| "built_payload (AppendEntriesAcknowledge r) = (r \<noteq> None)"
| "built_payload (PutBatchRequest r) =
     (case r of None \<Rightarrow> False
      | Some q \<Rightarrow> rpb_batch_id q \<noteq> None \<and>
          (case rpb_put_requests q of None \<Rightarrow> False
           | Some rs \<Rightarrow> list_all (\<lambda>p. rpq_id p \<noteq> None \<and> rpq_payload p \<noteq> None) rs))"
| "built_payload (PutBatchResponse r) =
     (case r of None \<Rightarrow> False
      | Some q \<Rightarrow> rpr_batch_id q \<noteq> None \<and>
          (case rpr_responses q of None \<Rightarrow> False
           | Some rs \<Rightarrow> list_all (\<lambda>p. ipr_id p \<noteq> None \<and> ipr_response_type p \<noteq> None \<and> ipr_message p \<noteq> None \<and>
                                      ipr_batch_id p \<noteq> None) rs))"
| "built_payload (TruncateLogRequest r) = (r \<noteq> None)"
| "built_payload (TruncateLogResponse r) = (r \<noteq> None)"

text \<open>
  The documented behaviour of the library: a message it has written and can read
  holds the values that were set.
\<close>

definition wire_law :: "capnp \<Rightarrow> wire \<Rightarrow> bool" where
  "wire_law cp wr \<longleftrightarrow>
     (\<forall>p. built_payload p \<longrightarrow> read_flat cp (write_quorum_message wr p) \<noteq> None \<longrightarrow>
        get_quorum_message wr (write_quorum_message wr p) = Some (Some p))"

text \<open>A message within the reader's size limit.\<close>

definition wire_fits :: "capnp \<Rightarrow> OwnedQuorumMessage \<Rightarrow> bool" where
  "wire_fits cp m \<longleftrightarrow> read_flat cp (message_bytes m) \<noteq> None"

section \<open>Lemmas\<close>

lemma quorum_with_built:
  assumes "wire_law cp wr" "built_payload p" "wire_fits cp (build_owned_message wr p)"
  shows "quorum_with_message cp wr (build_owned_message wr p) f = Some (f (Some p))"
  using assms unfolding wire_law_def wire_fits_def build_owned_message_def quorum_with_message_def
  by (auto split: option.splits)

text \<open>The four kinds of first byte, and the others.\<close>

lemma lead_byte_cases:
  fixes b :: u8
  obtains (ascii) "b < 0x80"
  | (two) "\<not> b < 0x80" "0xC2 \<le> b \<and> b \<le> 0xDF"
  | (three) "\<not> b < 0x80" "\<not> (0xC2 \<le> b \<and> b \<le> 0xDF)" "0xE0 \<le> b \<and> b \<le> 0xEF"
  | (four) "\<not> b < 0x80" "\<not> (0xC2 \<le> b \<and> b \<le> 0xDF)" "\<not> (0xE0 \<le> b \<and> b \<le> 0xEF)" "0xF0 \<le> b \<and> b \<le> 0xF4"
  | (bad) "\<not> b < 0x80" "\<not> (0xC2 \<le> b \<and> b \<le> 0xDF)" "\<not> (0xE0 \<le> b \<and> b \<le> 0xEF)" "\<not> (0xF0 \<le> b \<and> b \<le> 0xF4)"
  by blast

declare utf8_valid.simps(2) [simp del] utf8_step.simps(2) [simp del]

lemma utf8_ascii:
  assumes "b0 < (0x80 :: u8)"
  shows "utf8_valid (b0 # bs) = utf8_valid bs" "utf8_step (b0 # bs) = (True, 1)"
  using assms by (simp_all only: utf8_valid.simps(2) utf8_step.simps(2) if_True)

lemma utf8_two:
  assumes "\<not> b0 < (0x80 :: u8)" "0xC2 \<le> b0 \<and> b0 \<le> 0xDF"
  shows "utf8_valid (b0 # bs) = (case bs of b1 # r \<Rightarrow> utf8_cont b1 \<and> utf8_valid r | _ \<Rightarrow> False)"
    "utf8_step (b0 # bs) = (case bs of b1 # _ \<Rightarrow> (if utf8_cont b1 then (True, 2) else (False, 1)) | [] \<Rightarrow> (False, 1))"
  using assms by (simp_all only: utf8_valid.simps(2) utf8_step.simps(2) if_True if_False simp_thms)

lemma utf8_three:
  assumes "\<not> b0 < (0x80 :: u8)" "\<not> (0xC2 \<le> b0 \<and> b0 \<le> 0xDF)" "0xE0 \<le> b0 \<and> b0 \<le> 0xEF"
  shows "utf8_valid (b0 # bs) =
      (case bs of b1 # b2 # r \<Rightarrow> utf8_second b0 b1 \<and> utf8_cont b2 \<and> utf8_valid r | _ \<Rightarrow> False)"
    "utf8_step (b0 # bs) =
      (case bs of
           b1 # r \<Rightarrow>
             (if utf8_second b0 b1
              then (case r of b2 # _ \<Rightarrow> (if utf8_cont b2 then (True, 3) else (False, 2)) | [] \<Rightarrow> (False, 2))
              else (False, 1))
         | [] \<Rightarrow> (False, 1))"
  using assms by (simp_all only: utf8_valid.simps(2) utf8_step.simps(2) if_True if_False simp_thms)

lemma utf8_four:
  assumes "\<not> b0 < (0x80 :: u8)" "\<not> (0xC2 \<le> b0 \<and> b0 \<le> 0xDF)" "\<not> (0xE0 \<le> b0 \<and> b0 \<le> 0xEF)" "0xF0 \<le> b0 \<and> b0 \<le> 0xF4"
  shows "utf8_valid (b0 # bs) =
      (case bs of b1 # b2 # b3 # r \<Rightarrow>
           utf8_second b0 b1 \<and> utf8_cont b2 \<and> utf8_cont b3 \<and> utf8_valid r | _ \<Rightarrow> False)"
    "utf8_step (b0 # bs) =
      (case bs of
           b1 # r \<Rightarrow>
             (if utf8_second b0 b1
              then (case r of
                      b2 # r' \<Rightarrow>
                        (if utf8_cont b2
                         then (case r' of b3 # _ \<Rightarrow> (if utf8_cont b3 then (True, 4) else (False, 3)) | [] \<Rightarrow> (False, 3))
                         else (False, 2))
                    | [] \<Rightarrow> (False, 2))
              else (False, 1))
         | [] \<Rightarrow> (False, 1))"
  using assms by (simp_all only: utf8_valid.simps(2) utf8_step.simps(2) if_True if_False simp_thms)

lemma utf8_bad:
  assumes "\<not> b0 < (0x80 :: u8)" "\<not> (0xC2 \<le> b0 \<and> b0 \<le> 0xDF)" "\<not> (0xE0 \<le> b0 \<and> b0 \<le> 0xEF)" "\<not> (0xF0 \<le> b0 \<and> b0 \<le> 0xF4)"
  shows "\<not> utf8_valid (b0 # bs)" "utf8_step (b0 # bs) = (False, 1)"
  using assms by (simp_all only: utf8_valid.simps(2) utf8_step.simps(2) if_True if_False simp_thms)

lemma utf8_valid_step:
  assumes "bs \<noteq> []"
  shows "utf8_valid bs \<longleftrightarrow> fst (utf8_step bs) \<and> utf8_valid (drop (snd (utf8_step bs)) bs)"
proof -
  from assms obtain b0 r where bs: "bs = b0 # r" by (cases bs) auto
  show ?thesis
  proof (cases b0 rule: lead_byte_cases)
    case ascii
    then show ?thesis unfolding bs by (simp add: utf8_ascii)
  next
    case two
    then show ?thesis unfolding bs by (simp add: utf8_two split: list.split)
  next
    case three
    show ?thesis unfolding bs by (simp add: utf8_three [OF three] split: list.split)
  next
    case four
    show ?thesis unfolding bs by (simp add: utf8_four [OF four] split: list.split)
  next
    case bad
    show ?thesis unfolding bs by (simp add: utf8_bad [OF bad])
  qed
qed

lemma utf8_step_okD:
  assumes "fst (utf8_step bs)" "bs \<noteq> []"
  shows "utf8_valid (take (snd (utf8_step bs)) bs @ r) = utf8_valid r"
proof -
  from assms(2) obtain b0 q where bs: "bs = b0 # q" by (cases bs) auto
  show ?thesis
  proof (cases b0 rule: lead_byte_cases)
    case ascii
    with bs show ?thesis by (simp add: utf8_ascii)
  next
    case two
    with assms(1) bs show ?thesis by (auto simp: utf8_two [OF two] split: list.splits if_split_asm)
  next
    case three
    with assms(1) bs show ?thesis by (auto simp: utf8_three [OF three] split: list.splits if_split_asm)
  next
    case four
    with assms(1) bs show ?thesis by (auto simp: utf8_four [OF four] split: list.splits if_split_asm)
  next
    case bad
    with assms(1) bs show ?thesis by (simp add: utf8_bad)
  qed
qed

lemma from_utf8_lossy_Nil [simp]: "from_utf8_lossy [] = []"
  by (subst from_utf8_lossy.simps) simp

lemma from_utf8_lossy_valid: "utf8_valid bs \<Longrightarrow> from_utf8_lossy bs = bs"
proof (induction bs rule: from_utf8_lossy.induct)
  case (1 bs)
  show ?case
  proof (cases "bs = []")
    case False
    obtain ok n where st: "utf8_step bs = (ok, n)" by fastforce
    with utf8_valid_step [OF False] 1(2) have "ok" "utf8_valid (drop n bs)" by simp_all
    with 1(1) [OF False refl] st have "from_utf8_lossy (drop n bs) = drop n bs" by simp
    with False st \<open>ok\<close> show ?thesis by (subst from_utf8_lossy.simps) simp
  qed simp
qed

lemma replacement_char_valid: "utf8_valid (replacement_char @ r) = utf8_valid r"
  by (simp add: replacement_char_def utf8_second_def utf8_cont_def utf8_valid.simps(2))

lemma from_utf8_lossy_is_valid: "utf8_valid (from_utf8_lossy bs)"
proof (induction bs rule: from_utf8_lossy.induct)
  case (1 bs)
  show ?case
  proof (cases "bs = []")
    case False
    obtain ok n where st: "utf8_step bs = (ok, n)" by fastforce
    with 1 [OF False refl] have "utf8_valid (from_utf8_lossy (drop n bs))" by simp
    then show ?thesis
      using False st utf8_step_okD [of bs] replacement_char_valid
      by (subst from_utf8_lossy.simps) simp
  qed simp
qed

end
