(* ===== verification/Wire_Instance.thy ===== *)
theory Wire_Instance
  imports Quorum_Messages Capnp_Instance
begin

text \<open>
  A concrete codec for the messages between nodes that satisfies
  \<^const>\<open>wire_law\<close>: a tag, the numbers of the message, and its texts. It stands
  for the generated code in the concrete runs of the development.
\<close>

section \<open>Encoding\<close>

definition enc_words :: "u64 list \<Rightarrow> u8 list" where
  "enc_words ws = concat (map (\<lambda>v. enc_nat (unat v)) ws)"

definition enc_response :: "InternalPutResponse \<Rightarrow> u8 list" where
  "enc_response r =
     enc_bytes (unwrap_or (ipr_id r) []) @
     enc_nat (case unwrap_or (ipr_response_type r) Unspecified of Unspecified \<Rightarrow> 0 | Ok \<Rightarrow> 1 | Invalid \<Rightarrow> 2) @
     enc_bytes (unwrap_or (ipr_message r) []) @ enc_nat (unat (ipr_node_id r)) @
     enc_bytes (unwrap_or (ipr_batch_id r) [])"

definition dec_response :: "u8 list \<Rightarrow> (InternalPutResponse \<times> u8 list) option" where
  "dec_response bs =
     (case dec_bytes bs of None \<Rightarrow> None | Some (i, bs1) \<Rightarrow>
      case dec_nat bs1 of None \<Rightarrow> None | Some (t, bs2) \<Rightarrow>
      case dec_bytes bs2 of None \<Rightarrow> None | Some (m, bs3) \<Rightarrow>
      case dec_nat bs3 of None \<Rightarrow> None | Some (n, bs4) \<Rightarrow>
      case dec_bytes bs4 of None \<Rightarrow> None | Some (b, bs5) \<Rightarrow>
        Some (\<lparr> ipr_id = Some i,
                ipr_response_type = Some (if t = 0 then Unspecified else if t = 1 then Ok else Invalid),
                ipr_message = Some m, ipr_node_id = of_nat n, ipr_batch_id = Some b \<rparr>, bs5))"

fun dec_response_list :: "nat \<Rightarrow> u8 list \<Rightarrow> (InternalPutResponse list \<times> u8 list) option" where
  "dec_response_list 0 bs = Some ([], bs)"
| "dec_response_list (Suc n) bs =
     (case dec_response bs of None \<Rightarrow> None | Some (r, bs1) \<Rightarrow>
        map_option (\<lambda>(rs, bs2). (r # rs, bs2)) (dec_response_list n bs1))"

text \<open>Put requests for another node have the fields of the internal ones.\<close>

definition to_internal :: "RemotePutRequest \<Rightarrow> InternalPutRequest" where
  "to_internal r = \<lparr> put_id = rpq_id r, put_payload = rpq_payload r, put_node_id = rpq_node_id r \<rparr>"

definition of_internal :: "InternalPutRequest \<Rightarrow> RemotePutRequest" where
  "of_internal r = \<lparr> rpq_id = put_id r, rpq_payload = put_payload r, rpq_node_id = put_node_id r \<rparr>"

definition enc_append :: "RemoteAppendEntriesRequest \<Rightarrow> u8 list" where
  "enc_append q =
     (let ws = [rae_term q, ucast (rae_leader_id q), rae_prev_log_index q, rae_prev_log_term q, rae_request_id q,
                rae_commit_index q] in
      case rae_entry q of
        Some (Some e) \<Rightarrow>
          enc_nat 5 @ enc_words (ws @ [rle_index e, rle_batch_index e, rle_term e, rle_prev_log_term e,
                                       rle_prev_log_index e, rle_message_id e]) @
          enc_bytes (unwrap_or (rle_data e) [])
      | _ \<Rightarrow> enc_nat 4 @ enc_words ws)"

fun enc_payload :: "message_payload \<Rightarrow> u8 list" where
  "enc_payload (ConnectRequest (Some r)) = enc_nat 0 @ enc_words [ucast (rcq_node_id r)]"
| "enc_payload (ConnectResponse (Some r)) = enc_nat 1 @ enc_words [if rcr_ok r then 1 else 0]"
| "enc_payload (VoteRequest (Some r)) =
     enc_nat 2 @ enc_words [rvq_term r, ucast (rvq_candidate_id r), rvq_last_log_index r, rvq_last_log_term r,
                            rvq_request_id r]"
| "enc_payload (VoteResponse (Some r)) =
     enc_nat 3 @ enc_words [if rvr_vote_granted r then 1 else 0, rvr_request_id r, rvr_term r]"
| "enc_payload (AppendEntriesRequest (Some r)) = enc_append r"
| "enc_payload (AppendEntriesAcknowledge (Some r)) =
     enc_nat 6 @ enc_words [ack_last_log_term r, ack_last_log_index r, ack_request_id r, if ack_ok r then 1 else 0]"
| "enc_payload (PutBatchRequest (Some r)) =
     enc_nat 7 @ enc_bytes (unwrap_or (rpb_batch_id r) []) @
     enc_puts (map to_internal (unwrap_or (rpb_put_requests r) []))"
| "enc_payload (PutBatchResponse (Some r)) =
     enc_nat 8 @ enc_bytes (unwrap_or (rpr_batch_id r) []) @
     (let rs = unwrap_or (rpr_responses r) [] in enc_nat (length rs) @ concat (map enc_response rs))"
| "enc_payload (TruncateLogRequest (Some r)) =
     enc_nat 9 @ enc_words [rtq_prev_term r, rtq_prev_index r, rtq_term r, ucast (rtq_leader_id r), rtq_request_id r]"
| "enc_payload (TruncateLogResponse (Some r)) =
     enc_nat 10 @ enc_words [rtr_request_id r, if rtr_ok r then 1 else 0]"
| "enc_payload _ = enc_nat 0"

section \<open>Decoding\<close>

definition dec_append :: "u64 list \<Rightarrow> RemoteLogEntry option \<Rightarrow> message_payload" where
  "dec_append ws e =
     AppendEntriesRequest (Some
       \<lparr> rae_term = ws ! 0, rae_leader_id = ucast (ws ! 1), rae_prev_log_index = ws ! 2, rae_prev_log_term = ws ! 3,
         rae_request_id = ws ! 4, rae_entry = map_option Some e, rae_commit_index = ws ! 5 \<rparr>)"

definition with_words :: "nat \<Rightarrow> u8 list \<Rightarrow> (u64 list \<Rightarrow> u8 list \<Rightarrow> message_payload option) \<Rightarrow> message_payload option" where
  "with_words n bs f = (case dec_words n bs of None \<Rightarrow> None | Some (ws, r) \<Rightarrow> f ws r)"

definition dec_tagged :: "nat \<Rightarrow> u8 list \<Rightarrow> message_payload option" where
  "dec_tagged tag bs =
     (if tag = 0 then with_words 1 bs (\<lambda>ws _. Some (ConnectRequest (Some \<lparr> rcq_node_id = ucast (ws ! 0) \<rparr>)))
      else if tag = 1 then with_words 1 bs (\<lambda>ws _. Some (ConnectResponse (Some \<lparr> rcr_ok = (ws ! 0 \<noteq> 0) \<rparr>)))
      else if tag = 2 then with_words 5 bs (\<lambda>ws _. Some (VoteRequest (Some
        \<lparr> rvq_term = ws ! 0, rvq_candidate_id = ucast (ws ! 1), rvq_last_log_index = ws ! 2,
          rvq_last_log_term = ws ! 3, rvq_request_id = ws ! 4 \<rparr>)))
      else if tag = 3 then with_words 3 bs (\<lambda>ws _. Some (VoteResponse (Some
        \<lparr> rvr_vote_granted = (ws ! 0 \<noteq> 0), rvr_request_id = ws ! 1, rvr_term = ws ! 2 \<rparr>)))
      else if tag = 4 then with_words 6 bs (\<lambda>ws _. Some (dec_append ws None))
      else if tag = 5 then with_words 12 bs (\<lambda>ws r.
        case dec_bytes r of None \<Rightarrow> None | Some (d, _) \<Rightarrow> Some (dec_append ws (Some
          \<lparr> rle_index = ws ! 6, rle_data = Some d, rle_batch_index = ws ! 7, rle_term = ws ! 8,
            rle_prev_log_term = ws ! 9, rle_prev_log_index = ws ! 10, rle_message_id = ws ! 11 \<rparr>)))
      else if tag = 6 then with_words 4 bs (\<lambda>ws _. Some (AppendEntriesAcknowledge (Some
        \<lparr> ack_last_log_term = ws ! 0, ack_last_log_index = ws ! 1, ack_request_id = ws ! 2, ack_ok = (ws ! 3 \<noteq> 0) \<rparr>)))
      else if tag = 7 then
        (case dec_bytes bs of None \<Rightarrow> None | Some (b, r) \<Rightarrow>
         case dec_puts r of None \<Rightarrow> None | Some (ps, _) \<Rightarrow>
           Some (PutBatchRequest (Some \<lparr> rpb_put_requests = Some (map of_internal ps), rpb_batch_id = Some b \<rparr>)))
      else if tag = 8 then
        (case dec_bytes bs of None \<Rightarrow> None | Some (b, r) \<Rightarrow>
         case dec_nat r of None \<Rightarrow> None | Some (n, r1) \<Rightarrow>
         case dec_response_list n r1 of None \<Rightarrow> None | Some (rs, _) \<Rightarrow>
           Some (PutBatchResponse (Some \<lparr> rpr_responses = Some rs, rpr_batch_id = Some b \<rparr>)))
      else if tag = 9 then with_words 5 bs (\<lambda>ws _. Some (TruncateLogRequest (Some
        \<lparr> rtq_prev_term = ws ! 0, rtq_prev_index = ws ! 1, rtq_term = ws ! 2, rtq_leader_id = ucast (ws ! 3),
          rtq_request_id = ws ! 4 \<rparr>)))
      else if tag = 10 then with_words 2 bs (\<lambda>ws _. Some (TruncateLogResponse (Some
        \<lparr> rtr_request_id = ws ! 0, rtr_ok = (ws ! 1 \<noteq> 0) \<rparr>)))
      else None)"

definition sample_wire :: wire where
  "sample_wire =
     \<lparr> get_quorum_message = (\<lambda>bs. map_option (\<lambda>(tag, r). dec_tagged tag r) (dec_nat (frame_body bs))),
       write_quorum_message = (\<lambda>p. frame (enc_payload p)) \<rparr>"

section \<open>The codec satisfies the law\<close>

lemma with_enc_words: "length ws = n \<Longrightarrow> with_words n (enc_words ws @ r) f = f ws r"
  using dec_enc_words [of ws r] by (simp add: with_words_def enc_words_def)

lemma with_enc_words_end: "length ws = n \<Longrightarrow> with_words n (enc_words ws) f = f ws []"
  using with_enc_words [of ws n "[]"] by simp

lemma ucast_u32_u64 [simp]: "ucast (ucast (x :: u32) :: u64) = x"
  by (simp add: unsigned_ucast_eq) (transfer, simp)

lemma of_to_internal: "of_internal (to_internal r) = r"
  by (simp add: of_internal_def to_internal_def)

lemma dec_enc_response:
  assumes "ipr_id p \<noteq> None" "ipr_response_type p \<noteq> None" "ipr_message p \<noteq> None" "ipr_batch_id p \<noteq> None"
  shows "dec_response (enc_response p @ r) = Some (p, r)"
proof -
  from assms obtain i t m n b where "p = \<lparr> ipr_id = Some i, ipr_response_type = Some t, ipr_message = Some m,
      ipr_node_id = n, ipr_batch_id = Some b \<rparr>"
    by (cases p) auto
  then show ?thesis
    by (cases t) (simp_all add: dec_response_def enc_response_def)
qed

lemma dec_enc_response_list:
  "list_all (\<lambda>p. ipr_id p \<noteq> None \<and> ipr_response_type p \<noteq> None \<and> ipr_message p \<noteq> None \<and> ipr_batch_id p \<noteq> None) rs \<Longrightarrow>
   dec_response_list (length rs) (concat (map enc_response rs)) = Some (rs, [])"
  by (induction rs) (simp_all add: dec_enc_response)

lemma dec_enc_append:
  assumes "built_payload (AppendEntriesRequest (Some q))"
  obtains tag r where "enc_append q = enc_nat tag @ r" "dec_tagged tag r = Some (AppendEntriesRequest (Some q))"
proof (cases "rae_entry q")
  case None
  then show ?thesis
    using that [of 4] by (simp add: enc_append_def dec_tagged_def with_enc_words_end dec_append_def)
next
  case (Some x)
  with assms obtain e d where e: "rae_entry q = Some (Some e)" "rle_data e = Some d"
    by (auto split: option.splits)
  have "dec_bytes (enc_bytes d) = Some (d, [])" using dec_enc_bytes [of d "[]"] by simp
  with e show ?thesis
    using that [of 5] by (cases q; cases e) (simp add: enc_append_def dec_tagged_def with_enc_words dec_append_def)
qed

lemma dec_enc_payload:
  assumes "built_payload p"
  shows "\<exists>tag r. enc_payload p = enc_nat tag @ r \<and> dec_tagged tag r = Some p"
proof (cases p)
  case (AppendEntriesRequest q)
  with assms obtain a where a: "p = AppendEntriesRequest (Some a)" by (cases q) auto
  from assms [unfolded a] obtain tag r where
    "enc_append a = enc_nat tag @ r" "dec_tagged tag r = Some (AppendEntriesRequest (Some a))"
    by (rule dec_enc_append)
  with a show ?thesis by auto
next
  case (PutBatchRequest q)
  with assms obtain b ps where q: "q = Some \<lparr> rpb_put_requests = Some ps, rpb_batch_id = Some b \<rparr>"
    "list_all (\<lambda>p. rpq_id p \<noteq> None \<and> rpq_payload p \<noteq> None) ps"
    by (cases q; cases "the q") (auto split: option.splits)
  then have "list_all built_put_request (map to_internal ps)"
    by (simp add: list.pred_map built_put_request_def to_internal_def comp_def)
  from dec_enc_puts [OF this, of "[]"] have "dec_puts (enc_puts (map to_internal ps)) = Some (map to_internal ps, [])"
    by simp
  with q PutBatchRequest show ?thesis
    by (intro exI [of _ 7] exI [of _ "enc_bytes b @ enc_puts (map to_internal ps)"]) (simp add: dec_tagged_def of_to_internal comp_def)
next
  case (PutBatchResponse q)
  with assms obtain b rs where q: "q = Some \<lparr> rpr_responses = Some rs, rpr_batch_id = Some b \<rparr>"
    "list_all (\<lambda>p. ipr_id p \<noteq> None \<and> ipr_response_type p \<noteq> None \<and> ipr_message p \<noteq> None \<and> ipr_batch_id p \<noteq> None) rs"
    by (cases q; cases "the q") (auto split: option.splits)
  with dec_enc_response_list [OF q(2)] PutBatchResponse show ?thesis
    by (intro exI [of _ 8] exI [of _ "enc_bytes b @ enc_nat (length rs) @ concat (map enc_response rs)"]) (simp add: dec_tagged_def)
next
  case (ConnectRequest q)
  with assms obtain r where p: "p = ConnectRequest (Some r)" by auto
  show ?thesis unfolding p
    by (intro exI conjI, rule enc_payload.simps(1), simp add: dec_tagged_def with_enc_words_end)
next
  case (ConnectResponse q)
  with assms obtain r where p: "p = ConnectResponse (Some r)" by auto
  show ?thesis unfolding p
    by (intro exI conjI, rule enc_payload.simps(2), simp add: dec_tagged_def with_enc_words_end)
next
  case (VoteRequest q)
  with assms obtain r where p: "p = VoteRequest (Some r)" by auto
  show ?thesis unfolding p
    by (intro exI conjI, rule enc_payload.simps(3), simp add: dec_tagged_def with_enc_words_end)
next
  case (VoteResponse q)
  with assms obtain r where p: "p = VoteResponse (Some r)" by auto
  show ?thesis unfolding p
    by (intro exI conjI, rule enc_payload.simps(4), simp add: dec_tagged_def with_enc_words_end)
next
  case (AppendEntriesAcknowledge q)
  with assms obtain r where p: "p = AppendEntriesAcknowledge (Some r)" by auto
  show ?thesis unfolding p
    by (intro exI conjI, rule enc_payload.simps(6), simp add: dec_tagged_def with_enc_words_end)
next
  case (TruncateLogRequest q)
  with assms obtain r where p: "p = TruncateLogRequest (Some r)" by auto
  show ?thesis unfolding p
    by (intro exI conjI, rule enc_payload.simps(9), simp add: dec_tagged_def with_enc_words_end)
next
  case (TruncateLogResponse q)
  with assms obtain r where p: "p = TruncateLogResponse (Some r)" by auto
  show ?thesis unfolding p
    by (intro exI conjI, rule enc_payload.simps(10), simp add: dec_tagged_def with_enc_words_end)
qed

lemma sample_wire_law: "wire_law sample_capnp sample_wire"
proof -
  have "get_quorum_message sample_wire (write_quorum_message sample_wire p) = Some (Some p)" if b: "built_payload p" for p
    using dec_enc_payload [OF b] by (auto simp: sample_wire_def frame_body_def frame_def)
  then show ?thesis by (simp add: wire_law_def)
qed

lemma sample_wire_fits: "wire_fits sample_capnp (build_owned_message sample_wire p)"
  by (simp add: wire_fits_def build_owned_message_def sample_wire_def sample_capnp_def read_frame_len_def frame_def)

end
