(* ===== verification/Quorum_Worker.thy ===== *)
theory Quorum_Worker
  imports Raft_State Quorum_Messages
begin

text \<open>
  The worker that talks to one other node, \<open>quorum/quorum_worker\<close>: the messages
  it sends for the tasks of the state machine (\<open>outbound.rs\<close>), what it does with
  the messages it receives (\<open>inbound.rs\<close>), the answers it forwards when the state
  machine has handled a request (\<open>pending.rs\<close>), and its loop (\<open>mod.rs\<close>).

  The shared queues hold what the worker pushed and has not yet popped. The
  outbound channel accepts a message while its receiver exists, and \<open>qw_sent\<close>
  lists what it accepted; the inbound channel holds the messages to be received
  and whether its sender is gone. A oneshot channel is a name from the counter
  \<open>qw_next_callback\<close>. The start times that only feed latency metrics are left out.
\<close>

section \<open>Write responses\<close>

datatype WriteStatus = Status_Ok | Status_InternalServerError

record WriteResponse =
  wresp_message :: OwnedWriteBatchResponse
  wresp_status :: WriteStatus

definition write_response_error :: "capnp \<Rightarrow> WriteResponse result" where
  "write_response_error cp =
     bind_res (build_owned_write_batch_response cp empty_write_batch_response) (\<lambda>m.
       Inr \<lparr> wresp_message = m, wresp_status = Status_InternalServerError \<rparr>)"

definition write_response_success :: "OwnedWriteBatchResponse \<Rightarrow> WriteResponse" where
  "write_response_success m = \<lparr> wresp_message = m, wresp_status = Status_Ok \<rparr>"

section \<open>The state of the worker\<close>

record OngoingBackfill =
  from_term :: u64
  from_index :: u64

datatype PendingQuorumTaskEnum =
    Pending_Vote u64 u64
  | Pending_AppendEntries u64 u64 u64
  | Pending_PutBatch text_bytes

record PendingQuorumTask =
  pt_callback :: callback
  pt_task :: PendingQuorumTaskEnum

record QuorumWorker =
  qw_work_queue :: "LocalQuorumWorkerTaskType list"
  qw_response_queue :: "LocalQuorumTaskResponseType list"
  qw_task_queue :: "(LocalRaftMessagePayload \<times> callback) list"
  qw_outbound_tx :: bool
  qw_outbound_open :: bool
  qw_sent :: "OwnedQuorumMessage list"
  qw_inbound_rx :: "(OwnedQuorumMessage list \<times> bool) option"
  qw_self_id :: u32
  qw_member_id :: u64
  qw_term :: u64
  qw_prev_log_index :: u64
  qw_prev_log_term :: u64
  qw_commit_index :: u64
  qw_next_index :: u64
  qw_send_heartbeats :: bool
  qw_last_heartbeat :: u128
  qw_ongoing_backfill :: "OngoingBackfill option"
  qw_pending_write_batches :: "text_bytes \<rightharpoonup> callback"
  qw_pending_append_entries :: "u64 set"
  qw_max_message_size_bytes :: usize
  qw_pending_tasks :: "PendingQuorumTask list"
  qw_next_callback :: callback
  qw_write_responses :: "(callback \<times> WriteResponse) list"

definition MAX_MESSAGES_PER_ITERATION :: nat where
  "MAX_MESSAGES_PER_ITERATION = 32"

definition HEARTBEAT_INTERVAL_MS :: u128 where
  "HEARTBEAT_INTERVAL_MS = 100"

definition new_quorum_worker :: "u32 \<Rightarrow> u64 \<Rightarrow> u64 \<Rightarrow> usize \<Rightarrow> QuorumWorker" where
  "new_quorum_worker self_id nxt_index member_id max_size =
     \<lparr> qw_work_queue = [], qw_response_queue = [], qw_task_queue = [],
       qw_outbound_tx = False, qw_outbound_open = False, qw_sent = [], qw_inbound_rx = None,
       qw_self_id = self_id, qw_member_id = member_id,
       qw_term = 0, qw_prev_log_index = 0, qw_prev_log_term = 0, qw_commit_index = 0, qw_next_index = nxt_index,
       qw_send_heartbeats = False, qw_last_heartbeat = 0,
       qw_ongoing_backfill = None, qw_pending_write_batches = (\<lambda>_. None), qw_pending_append_entries = {},
       qw_max_message_size_bytes = max_size,
       qw_pending_tasks = [], qw_next_callback = 0, qw_write_responses = [] \<rparr>"

definition push_response :: "LocalQuorumTaskResponseType \<Rightarrow> QuorumWorker \<Rightarrow> QuorumWorker" where
  "push_response r w = w\<lparr>qw_response_queue := qw_response_queue w @ [r]\<rparr>"

section \<open>Outbound\<close>

definition send_message :: "OwnedQuorumMessage \<Rightarrow> QuorumWorker \<Rightarrow> bool \<times> QuorumWorker" where
  "send_message msg w =
     (if qw_outbound_tx w then
        (if qw_outbound_open w then (True, w\<lparr>qw_sent := qw_sent w @ [msg]\<rparr>) else (False, w))
      else (False, w))"

definition send_heartbeat_if_needed :: "wire \<Rightarrow> u128 \<Rightarrow> QuorumWorker \<Rightarrow> QuorumWorker" where
  "send_heartbeat_if_needed wr now w =
     (if \<not> qw_send_heartbeats w then w
      else if now - qw_last_heartbeat w < HEARTBEAT_INTERVAL_MS then w
      else
        snd (send_message
              (build_heartbeat_message wr (qw_term w) (qw_self_id w) (qw_prev_log_index w) (qw_prev_log_term w)
                 (qw_commit_index w) 0)
              (w\<lparr>qw_last_heartbeat := now\<rparr>)))"

definition send_vote_request :: "wire \<Rightarrow> u64 \<Rightarrow> u64 \<Rightarrow> u64 \<Rightarrow> u64 \<Rightarrow> QuorumWorker \<Rightarrow> QuorumWorker" where
  "send_vote_request wr i t last_index last_term w =
     snd (send_message (build_vote_request_message wr t (qw_self_id w) last_index last_term i) w)"

definition send_append_entries ::
  "capnp \<Rightarrow> wire \<Rightarrow> u128 \<Rightarrow> u64 \<Rightarrow> OwnedLogEntry \<Rightarrow> u64 \<Rightarrow> QuorumWorker \<Rightarrow> QuorumWorker" where
  "send_append_entries cp wr now i entry new_commit_index w =
     (let prev_idx = entry_prev_log_index cp entry;
          w1 = w\<lparr>qw_prev_log_term := entry_term cp entry,
                 qw_prev_log_index := entry_index cp entry,
                 qw_commit_index := new_commit_index,
                 qw_pending_append_entries := insert i (qw_pending_append_entries w)\<rparr>;
          msg = build_append_entries_message cp wr (qw_term w1) (qw_self_id w1) prev_idx
                  (entry_prev_log_term cp entry) i new_commit_index (Some entry);
          (_, w2) = send_message msg w1 in
      w2\<lparr>qw_last_heartbeat := now\<rparr>)"

definition send_write_batch :: "capnp \<Rightarrow> wire \<Rightarrow> WriteBatch \<Rightarrow> QuorumWorker \<Rightarrow> QuorumWorker" where
  "send_write_batch cp wr batch w =
     snd (send_message (build_put_batch_request_message cp wr (wb_message batch))
           (w\<lparr>qw_pending_write_batches := (qw_pending_write_batches w)(wb_batch_id batch \<mapsto> wb_callback batch)\<rparr>))"

definition send_truncate_log :: "wire \<Rightarrow> u64 \<Rightarrow> u64 \<Rightarrow> QuorumWorker \<Rightarrow> QuorumWorker" where
  "send_truncate_log wr prev_term prev_index w =
     snd (send_message (build_truncate_log_request_message wr prev_term prev_index (qw_term w) (qw_self_id w) 0) w)"

text \<open>The message for one entry of a backfill, and the loop, which stops at the first failed send.\<close>

definition backfill_message :: "capnp \<Rightarrow> wire \<Rightarrow> QuorumWorker \<Rightarrow> OwnedLogEntry \<Rightarrow> OwnedQuorumMessage" where
  "backfill_message cp wr w entry =
     build_append_entries_message cp wr (qw_term w) (qw_self_id w) (entry_prev_log_index cp entry)
       (entry_prev_log_term cp entry) (entry_message_id cp entry) (qw_commit_index w) (Some entry)"

fun backfill_loop :: "capnp \<Rightarrow> wire \<Rightarrow> OwnedLogEntry list \<Rightarrow> QuorumWorker \<Rightarrow> QuorumWorker" where
  "backfill_loop cp wr [] w = w"
| "backfill_loop cp wr (entry # entries) w =
     (let (sent, w1) = send_message (backfill_message cp wr w entry) w in
      if sent then backfill_loop cp wr entries w1 else w1)"

definition send_backfill_entries ::
  "capnp \<Rightarrow> wire \<Rightarrow> u128 \<Rightarrow> OwnedLogEntry list \<Rightarrow> QuorumWorker \<Rightarrow> QuorumWorker" where
  "send_backfill_entries cp wr now entries w =
     (if entries = [] then w
      else (backfill_loop cp wr entries w)\<lparr>qw_ongoing_backfill := None, qw_last_heartbeat := now\<rparr>)"

section \<open>Inbound\<close>

text \<open>The channels are drained up to the limit: the messages, what is left, and whether the sender was gone.\<close>

fun collect_messages :: "nat \<Rightarrow> 'm list \<Rightarrow> bool \<Rightarrow> 'm list \<times> 'm list \<times> bool" where
  "collect_messages 0 q gone = ([], q, False)"
| "collect_messages (Suc n) [] gone = ([], [], gone)"
| "collect_messages (Suc n) (m # q) gone =
     (let (ms, q', d) = collect_messages n q gone in (m # ms, q', d))"

definition on_vote_response :: "u64 \<Rightarrow> u64 \<Rightarrow> bool \<Rightarrow> QuorumWorker \<Rightarrow> QuorumWorker" where
  "on_vote_response request_id t vote_granted w = push_response (QR_RequestVoteResponse request_id t vote_granted) w"

definition on_append_entries_ack :: "u64 \<Rightarrow> u64 \<Rightarrow> u64 \<Rightarrow> bool \<Rightarrow> QuorumWorker \<Rightarrow> QuorumWorker" where
  "on_append_entries_ack request_id last_index last_term ok w =
     (let w1 = w\<lparr>qw_pending_append_entries := qw_pending_append_entries w - {request_id}\<rparr> in
      if \<not> ok then
        (if qw_ongoing_backfill w1 = None then
           push_response (QR_BackfillLog (qw_member_id w1) last_term last_index)
             (w1\<lparr>qw_ongoing_backfill := Some \<lparr> from_term = last_term, from_index = last_index \<rparr>\<rparr>)
         else w1)
      else if request_id \<noteq> 0 then push_response (QR_AppendEntries request_id ok) w1
      else w1)"

text \<open>\<open>.map(|s| s.to_string().unwrap_or_default()).unwrap_or_default()\<close>\<close>

definition text_or_default :: "text_bytes option \<Rightarrow> text_bytes" where
  "text_or_default t = unwrap_or (map_option (\<lambda>s. unwrap_or (to_str s) []) t) []"

definition on_put_batch_response_capnp :: "capnp \<Rightarrow> RemotePutBatchResponse \<Rightarrow> QuorumWorker \<Rightarrow> QuorumWorker result" where
  "on_put_batch_response_capnp cp resp w =
     (let batch_id = text_or_default (rpr_batch_id resp) in
      case qw_pending_write_batches w batch_id of
        None \<Rightarrow> Inr w
      | Some cb \<Rightarrow>
          bind_res (build_owned_write_batch_response cp
              \<lparr> iwr_responses = Some (map copy_put_response (unwrap_or (rpr_responses resp) [])),
                iwr_batch_id = Some batch_id \<rparr>) (\<lambda>message.
            Inr (w\<lparr>qw_pending_write_batches := (qw_pending_write_batches w)(batch_id := None),
                   qw_write_responses := qw_write_responses w @ [(cb, write_response_success message)]\<rparr>)))"

definition on_truncate_log_response :: "u64 \<Rightarrow> bool \<Rightarrow> QuorumWorker \<Rightarrow> QuorumWorker" where
  "on_truncate_log_response request_id ok w =
     (push_response (QR_TruncateLogResponse request_id ok) w)\<lparr>qw_ongoing_backfill := None\<rparr>"

text \<open>A request for the state machine: a fresh channel, the message, and the task that waits for the answer.\<close>

definition push_request :: "LocalRaftMessagePayload \<Rightarrow> PendingQuorumTaskEnum \<Rightarrow> QuorumWorker \<Rightarrow> QuorumWorker" where
  "push_request payload task w =
     w\<lparr>qw_task_queue := qw_task_queue w @ [(payload, qw_next_callback w)],
       qw_pending_tasks := qw_pending_tasks w @ [\<lparr> pt_callback = qw_next_callback w, pt_task = task \<rparr>],
       qw_next_callback := Suc (qw_next_callback w)\<rparr>"

definition proto_entry :: "RemoteLogEntry \<Rightarrow> LogEntry" where
  "proto_entry e =
     \<lparr> le_index = rle_index e, le_data = unwrap_or (rle_data e) [], le_batch_index = rle_batch_index e,
       le_term = rle_term e, le_prev_log_term = rle_prev_log_term e, le_prev_log_index = rle_prev_log_index e,
       le_message_id = rle_message_id e \<rparr>"

definition local_append_entries :: "RemoteAppendEntriesRequest \<Rightarrow> LocalAppendEntries" where
  "local_append_entries req =
     \<lparr> ae_term = rae_term req, ae_leader_id = rae_leader_id req, ae_prev_index = rae_prev_log_index req,
       ae_prev_term = rae_prev_log_term req, ae_request_id = rae_request_id req,
       ae_entry = (case rae_entry req of Some (Some e) \<Rightarrow> Some (proto_entry e) | _ \<Rightarrow> None),
       ae_commit_index = rae_commit_index req \<rparr>"

definition on_append_entries_request_capnp :: "RemoteAppendEntriesRequest \<Rightarrow> QuorumWorker \<Rightarrow> QuorumWorker" where
  "on_append_entries_request_capnp req w =
     (let (entry_idx, entry_tm) =
        (case rae_entry req of Some (Some e) \<Rightarrow> (rle_index e, rle_term e) | _ \<Rightarrow> (0, 0)) in
      push_request (Msg_AppendEntries (local_append_entries req))
        (Pending_AppendEntries (rae_request_id req) entry_idx entry_tm) w)"

definition on_truncate_log_request :: "wire \<Rightarrow> u64 \<Rightarrow> u64 \<Rightarrow> u64 \<Rightarrow> QuorumWorker \<Rightarrow> QuorumWorker" where
  "on_truncate_log_request wr prev_term prev_index request_id w =
     snd (send_message (build_truncate_log_response_message wr request_id True)
           (push_response (QR_TruncateLog (qw_member_id w) prev_term prev_index) w))"

definition on_vote_request :: "u64 \<Rightarrow> u32 \<Rightarrow> u64 \<Rightarrow> u64 \<Rightarrow> u64 \<Rightarrow> QuorumWorker \<Rightarrow> QuorumWorker" where
  "on_vote_request t candidate_id last_index last_term request_id w =
     push_request
       (Msg_RequestVote \<lparr> rv_term = t, rv_candidate_id = candidate_id, rv_last_log_index = last_index,
                          rv_last_log_term = last_term \<rparr>)
       (Pending_Vote request_id t) w"

text \<open>The batch that is rebuilt from a forwarded request.\<close>

definition internal_put_request :: "RemotePutRequest \<Rightarrow> InternalPutRequest" where
  "internal_put_request r =
     \<lparr> put_id = Some (unwrap_or (rpq_id r) []), put_payload = Some (unwrap_or (rpq_payload r) []),
       put_node_id = rpq_node_id r \<rparr>"

definition on_put_batch_request_capnp :: "capnp \<Rightarrow> RemotePutBatchRequest \<Rightarrow> QuorumWorker \<Rightarrow> QuorumWorker result" where
  "on_put_batch_request_capnp cp req w =
     (let batch_id = text_or_default (rpb_batch_id req) in
      bind_res (build_owned_write_batch cp
          \<lparr> iwb_batch_id = Some batch_id,
            iwb_requests = Some (map internal_put_request (unwrap_or (rpb_put_requests req) [])) \<rparr>) (\<lambda>message.
        Inr (push_request (Msg_WriteBatch message) (Pending_PutBatch batch_id) w)))"

text \<open>A message that cannot be read is logged and dropped.\<close>

definition handle_payload :: "capnp \<Rightarrow> wire \<Rightarrow> message_payload \<Rightarrow> QuorumWorker \<Rightarrow> QuorumWorker result" where
  "handle_payload cp wr payload w =
     (case payload of
        VoteResponse (Some r) \<Rightarrow> Inr (on_vote_response (rvr_request_id r) (rvr_term r) (rvr_vote_granted r) w)
      | AppendEntriesAcknowledge (Some a) \<Rightarrow>
          Inr (on_append_entries_ack (ack_request_id a) (ack_last_log_index a) (ack_last_log_term a) (ack_ok a) w)
      | PutBatchResponse (Some r) \<Rightarrow> on_put_batch_response_capnp cp r w
      | TruncateLogResponse (Some r) \<Rightarrow> Inr (on_truncate_log_response (rtr_request_id r) (rtr_ok r) w)
      | AppendEntriesRequest (Some r) \<Rightarrow> Inr (on_append_entries_request_capnp r w)
      | VoteRequest (Some r) \<Rightarrow>
          Inr (on_vote_request (rvq_term r) (rvq_candidate_id r) (rvq_last_log_index r) (rvq_last_log_term r)
                 (rvq_request_id r) w)
      | PutBatchRequest (Some r) \<Rightarrow> on_put_batch_request_capnp cp r w
      | TruncateLogRequest (Some r) \<Rightarrow>
          Inr (on_truncate_log_request wr (rtq_prev_term r) (rtq_prev_index r) (rtq_request_id r) w)
      | _ \<Rightarrow> Inr w)"

definition handle_inbound_message :: "capnp \<Rightarrow> wire \<Rightarrow> OwnedQuorumMessage \<Rightarrow> QuorumWorker \<Rightarrow> QuorumWorker result" where
  "handle_inbound_message cp wr msg w =
     (case quorum_with_message cp wr msg id of
        Some (Some payload) \<Rightarrow> handle_payload cp wr payload w
      | _ \<Rightarrow> Inr w)"

definition process_incoming_messages :: "capnp \<Rightarrow> wire \<Rightarrow> QuorumWorker \<Rightarrow> QuorumWorker result" where
  "process_incoming_messages cp wr w =
     (case qw_inbound_rx w of
        None \<Rightarrow> Inr w
      | Some (q, gone) \<Rightarrow>
          (let (messages, q', disconnected) = collect_messages MAX_MESSAGES_PER_ITERATION q gone in
           fold_res (handle_inbound_message cp wr) messages
             (w\<lparr>qw_inbound_rx := (if disconnected then None else Some (q', gone))\<rparr>)))"

section \<open>Answers of the state machine\<close>

datatype try_recv = TR_Ok LocalRaftResponsePayload | TR_Empty | TR_Closed

definition handle_pending_task_response ::
  "capnp \<Rightarrow> wire \<Rightarrow> PendingQuorumTaskEnum \<Rightarrow> LocalRaftResponsePayload \<Rightarrow> QuorumWorker \<Rightarrow> QuorumWorker" where
  "handle_pending_task_response cp wr task response w =
     (case response of
        Resp_RequestVote granted \<Rightarrow>
          (case task of
             Pending_Vote request_id t \<Rightarrow> snd (send_message (build_vote_response_message wr granted request_id t) w)
           | _ \<Rightarrow> w)
      | Resp_AppendEntries ae_resp \<Rightarrow>
          (case task of
             Pending_AppendEntries request_id log_index t \<Rightarrow>
               (let (ok, last_index, last_term, w1) =
                  (case ae_resp of
                     AE_Ok \<Rightarrow> (True, log_index, t, w)
                   | AE_UnrecognizedLeader \<Rightarrow> (False, log_index, t, w)
                   | AE_WantedPreviousEntry last_term last_index \<Rightarrow> (False, last_index, last_term, w)
                   | AE_TruncateLog prev_term prev_index \<Rightarrow>
                       (False, prev_index, prev_term,
                        push_response (QR_TruncateLog (qw_member_id w) prev_term prev_index) w)) in
                snd (send_message (build_append_entries_ack_message wr last_term last_index request_id ok) w1))
           | _ \<Rightarrow> w)
      | Resp_WriteBatch write_resp \<Rightarrow>
          (case task of
             Pending_PutBatch batch_id \<Rightarrow>
               snd (send_message (build_put_batch_response_message cp wr (wr_message write_resp) batch_id) w)
           | _ \<Rightarrow> w)
      | _ \<Rightarrow> w)"

text \<open>The pass over the enumerated tasks collects the indices to remove; they are removed from the last to the first.\<close>

fun pending_loop ::
  "capnp \<Rightarrow> wire \<Rightarrow> (callback \<Rightarrow> try_recv) \<Rightarrow> nat \<Rightarrow> PendingQuorumTask list \<Rightarrow> QuorumWorker \<Rightarrow>
     nat list \<times> QuorumWorker" where
  "pending_loop cp wr recv i [] w = ([], w)"
| "pending_loop cp wr recv i (pt # pts) w =
     (case recv (pt_callback pt) of
        TR_Ok response \<Rightarrow>
          (let (is, w') = pending_loop cp wr recv (Suc i) pts (handle_pending_task_response cp wr (pt_task pt) response w)
           in (i # is, w'))
      | TR_Empty \<Rightarrow> pending_loop cp wr recv (Suc i) pts w
      | TR_Closed \<Rightarrow> (let (is, w') = pending_loop cp wr recv (Suc i) pts w in (i # is, w')))"

definition remove_at :: "nat \<Rightarrow> 'a list \<Rightarrow> 'a list" where
  "remove_at i xs = take i xs @ drop (Suc i) xs"

definition process_pending_task_responses ::
  "capnp \<Rightarrow> wire \<Rightarrow> (callback \<Rightarrow> try_recv) \<Rightarrow> QuorumWorker \<Rightarrow> QuorumWorker" where
  "process_pending_task_responses cp wr recv w =
     (let (to_remove, w1) = pending_loop cp wr recv 0 (qw_pending_tasks w) w in
      w1\<lparr>qw_pending_tasks := fold remove_at (rev to_remove) (qw_pending_tasks w1)\<rparr>)"

section \<open>The work queue\<close>

definition process_quorum_task :: "capnp \<Rightarrow> wire \<Rightarrow> u128 \<Rightarrow> LocalQuorumWorkerTaskType \<Rightarrow> QuorumWorker \<Rightarrow> QuorumWorker" where
  "process_quorum_task cp wr now task w =
     (case task of
        QT_StartHeartbeats _ t prev_term prev_index commit \<Rightarrow>
          w\<lparr>qw_send_heartbeats := True, qw_term := t, qw_prev_log_term := prev_term, qw_prev_log_index := prev_index,
            qw_commit_index := commit\<rparr>
      | QT_StopHeartbeats _ \<Rightarrow> w\<lparr>qw_send_heartbeats := False\<rparr>
      | QT_RequestVote i t last_term last_index \<Rightarrow> send_vote_request wr i t last_index last_term w
      | QT_AppendEntries i entry commit \<Rightarrow> send_append_entries cp wr now i entry commit w
      | QT_BackfillLog data \<Rightarrow> send_backfill_entries cp wr now data w
      | QT_WriteBatch batch \<Rightarrow> send_write_batch cp wr batch w
      | QT_TruncateLog _ prev_term prev_index \<Rightarrow> send_truncate_log wr prev_term prev_index w
      | QT_UpdateCommitIndex commit \<Rightarrow> w\<lparr>qw_commit_index := commit\<rparr>)"

text \<open>At most \<open>MAX_MESSAGES_PER_ITERATION\<close> tasks; \<open>clock\<close> gives the time read for each.\<close>

fun work_queue_loop :: "capnp \<Rightarrow> wire \<Rightarrow> (nat \<Rightarrow> u128) \<Rightarrow> nat \<Rightarrow> QuorumWorker \<Rightarrow> QuorumWorker" where
  "work_queue_loop cp wr clock 0 w = w"
| "work_queue_loop cp wr clock (Suc n) w =
     (case qw_work_queue w of
        [] \<Rightarrow> w
      | task # q \<Rightarrow> work_queue_loop cp wr clock n (process_quorum_task cp wr (clock n) task (w\<lparr>qw_work_queue := q\<rparr>)))"

definition process_work_queue :: "capnp \<Rightarrow> wire \<Rightarrow> (nat \<Rightarrow> u128) \<Rightarrow> QuorumWorker \<Rightarrow> QuorumWorker" where
  "process_work_queue cp wr clock w = work_queue_loop cp wr clock MAX_MESSAGES_PER_ITERATION w"

section \<open>The loop\<close>

text \<open>
  The answers of the stream manager: whether it still has the outbound connection,
  whether it can connect (and then whether the other side still listens), and the
  inbound queue it has for the member.
\<close>

record StreamManager =
  has_outbound_connection :: bool
  get_or_connect :: "bool option"
  get_inbound_queue :: "(OwnedQuorumMessage list \<times> bool) option"

definition ensure_connections :: "StreamManager \<Rightarrow> QuorumWorker \<Rightarrow> bool \<times> QuorumWorker" where
  "ensure_connections sm w =
     (let w1 = (if qw_outbound_tx w \<and> \<not> has_outbound_connection sm then w\<lparr>qw_outbound_tx := False\<rparr> else w) in
      if \<not> qw_outbound_tx w1 \<and> get_or_connect sm = None then (False, w1)
      else
        let w2 = (if \<not> qw_outbound_tx w1
                  then w1\<lparr>qw_outbound_tx := True, qw_outbound_open := the (get_or_connect sm)\<rparr> else w1);
            w3 = (if qw_inbound_rx w2 = None \<and> get_inbound_queue sm \<noteq> None
                  then w2\<lparr>qw_inbound_rx := get_inbound_queue sm\<rparr> else w2) in
        (qw_outbound_tx w3, w3))"

definition reset_connections :: "QuorumWorker \<Rightarrow> QuorumWorker" where
  "reset_connections w = w\<lparr>qw_outbound_tx := False, qw_inbound_rx := None\<rparr>"

definition worker_iteration ::
  "capnp \<Rightarrow> wire \<Rightarrow> StreamManager \<Rightarrow> (callback \<Rightarrow> try_recv) \<Rightarrow> u128 \<Rightarrow> (nat \<Rightarrow> u128) \<Rightarrow> QuorumWorker \<Rightarrow> QuorumWorker result" where
  "worker_iteration cp wr sm recv now clock w =
     (let (connected, w1) = ensure_connections sm w in
      if \<not> connected then Inr w1
      else
        bind_res (process_incoming_messages cp wr w1) (\<lambda>w2.
          Inr (process_work_queue cp wr clock
                (send_heartbeat_if_needed wr now
                  (process_pending_task_responses cp wr recv w2)))))"

end
