(* ===== verification/Sample_Runs.thy ===== *)
theory Sample_Runs
  imports Startup_State Raft_Executor Capnp_Instance Wire_Instance Quorum_Worker
begin

text \<open>
  Concrete nodes for the concrete runs of the development: a clock, the state of a
  node that starts with an empty log in a cluster of three, a follower of a given
  leader, and a connected quorum worker.
\<close>

definition sample_env :: env where
  "sample_env = \<lparr> now_millis = 5000, gen_range = (\<lambda>lo hi. lo) \<rparr>"

text \<open>A node that starts with an empty log, in a cluster of three.\<close>

definition empty_recovered :: RecoveredData where
  "empty_recovered =
     \<lparr> rd_replication_log = [], rd_term_start_index = (\<lambda>_. None), rd_last_log_index = 0, rd_last_log_term = 0,
       rd_term_votes = (\<lambda>_. None), rd_next_term = 1, rd_log_entry_end_offsets = [] \<rparr>"

definition sample_state :: "u32 \<Rightarrow> SharedState" where
  "sample_state node =
     create_shared_state (\<lambda>_. True) (\<lambda>_. True) empty_recovered create_commit_state 2 node 2 65536"

definition sample_follower :: "u64 \<Rightarrow> u32 \<Rightarrow> Executor" where
  "sample_follower t leader =
     \<lparr> state_delegate = Follower_Delegate (new_follower sample_env),
       shared_state = (sample_state 2)\<lparr>server_state := \<lparr> current_term = t, leader_id = leader \<rparr>\<rparr> \<rparr>"

definition sample_sender :: QuorumWorker where
  "sample_sender = (new_quorum_worker 1 0 2 65536)\<lparr>qw_outbound_tx := True, qw_outbound_open := True, qw_term := 1\<rparr>"

lemma sample_sender_simps [simp]:
  "qw_outbound_tx sample_sender" "qw_outbound_open sample_sender" "qw_sent sample_sender = []"
  "qw_self_id sample_sender = 1" "qw_term sample_sender = 1" "qw_response_queue sample_sender = []"
  "qw_task_queue sample_sender = []" "qw_pending_tasks sample_sender = []" "qw_last_heartbeat sample_sender = 0"
  "qw_ongoing_backfill sample_sender = None"
  by (simp_all add: sample_sender_def new_quorum_worker_def)

end
