(* ===== verification/Replication_Channel.thy ===== *)
theory Replication_Channel
  imports Node_Runs Sample_Runs
begin

text \<open>
  What passes between two nodes. The messages of one node's quorum worker arrive
  at the other's as the requests that were meant: append requests carry
  well-formed entries, so the promise about requests on which the shape of the
  log rests is kept by the sending worker, and a backfill leaves the follower with
  the log of the leader.
\<close>

section \<open>Lemmas on the worker\<close>

lemma send_message_open:
  "qw_outbound_tx w \<Longrightarrow> qw_outbound_open w \<Longrightarrow> send_message m w = (True, w\<lparr>qw_sent := qw_sent w @ [m]\<rparr>)"
  by (simp add: send_message_def)

lemma send_message_simps [simp]:
  "qw_response_queue (snd (send_message m w)) = qw_response_queue w"
  "qw_task_queue (snd (send_message m w)) = qw_task_queue w"
  "qw_pending_tasks (snd (send_message m w)) = qw_pending_tasks w"
  "qw_ongoing_backfill (snd (send_message m w)) = qw_ongoing_backfill w"
  "qw_member_id (snd (send_message m w)) = qw_member_id w"
  "qw_last_heartbeat (snd (send_message m w)) = qw_last_heartbeat w"
  "qw_send_heartbeats (snd (send_message m w)) = qw_send_heartbeats w"
  "qw_term (snd (send_message m w)) = qw_term w"
  "qw_self_id (snd (send_message m w)) = qw_self_id w"
  "qw_outbound_tx (snd (send_message m w)) = qw_outbound_tx w"
  "qw_outbound_open (snd (send_message m w)) = qw_outbound_open w"
  by (simp_all add: send_message_def)

lemma handle_built:
  assumes "wire_law cp wr" "built_payload p" "wire_fits cp (build_owned_message wr p)"
  shows "handle_inbound_message cp wr (build_owned_message wr p) w = handle_payload cp wr p w"
  by (simp add: handle_inbound_message_def quorum_with_built [OF assms])

section \<open>Append requests\<close>

text \<open>An entry that can be read, as it appears in the request at the other node.\<close>

definition wire_entry :: "capnp \<Rightarrow> OwnedLogEntry \<Rightarrow> LogEntry" where
  "wire_entry cp e =
     \<lparr> le_index = entry_index cp e, le_data = as_bytes e, le_batch_index = entry_index cp e,
       le_term = entry_term cp e, le_prev_log_term = entry_prev_log_term cp e,
       le_prev_log_index = entry_prev_log_index cp e, le_message_id = entry_message_id cp e \<rparr>"

definition append_request :: "capnp \<Rightarrow> u64 \<Rightarrow> u32 \<Rightarrow> u64 \<Rightarrow> u64 \<Rightarrow> OwnedLogEntry \<Rightarrow> LocalAppendEntries" where
  "append_request cp t leader rid commit e =
     \<lparr> ae_term = t, ae_leader_id = leader, ae_prev_index = entry_prev_log_index cp e,
       ae_prev_term = entry_prev_log_term cp e, ae_request_id = rid, ae_entry = Some (wire_entry cp e),
       ae_commit_index = commit \<rparr>"

lemma entry_with_message:
  assumes "entry_term cp e \<noteq> 0"
  obtains m where "\<And>f :: InternalLogEntry \<Rightarrow> 'r. log_entry_with_message cp e f = Some (f m)"
    "entry_index cp e = ile_index m" "entry_term cp e = ile_term m" "entry_prev_log_index cp e = ile_prev_log_index m"
    "entry_prev_log_term cp e = ile_prev_log_term m" "entry_message_id cp e = ile_message_id m"
proof -
  from assms obtain m where m: "read_flat cp (as_bytes e) \<noteq> None" "get_log_entry cp (as_bytes e) = Some m"
    by (auto simp: entry_term_def log_entry_with_message_def split: option.splits)
  then have "log_entry_with_message cp e f = Some (f m)" for f :: "InternalLogEntry \<Rightarrow> 'x"
    by (auto simp: log_entry_with_message_def)
  with that show thesis
    using m by (auto simp: log_entry_with_message_def entry_index_def entry_term_def entry_prev_log_index_def
        entry_prev_log_term_def entry_message_id_def)
qed

lemma append_message_arrives:
  assumes "wire_law cp wr" "entry_term cp e \<noteq> 0"
    and fits: "wire_fits cp (build_append_entries_message cp wr t leader (entry_prev_log_index cp e)
      (entry_prev_log_term cp e) rid commit (Some e))"
  shows "handle_inbound_message cp wr (build_append_entries_message cp wr t leader (entry_prev_log_index cp e)
      (entry_prev_log_term cp e) rid commit (Some e)) w =
    Inr (push_request (Msg_AppendEntries (append_request cp t leader rid commit e))
          (Pending_AppendEntries rid (entry_index cp e) (entry_term cp e)) w)"
proof -
  obtain m where m: "\<And>f :: InternalLogEntry \<Rightarrow> RemoteLogEntry. log_entry_with_message cp e f = Some (f m)"
    "entry_index cp e = ile_index m" "entry_term cp e = ile_term m" "entry_prev_log_index cp e = ile_prev_log_index m"
    "entry_prev_log_term cp e = ile_prev_log_term m" "entry_message_id cp e = ile_message_id m"
    by (rule entry_with_message [OF assms(2)]) blast
  note built = fits [unfolded build_append_entries_message_def]
  show ?thesis
    unfolding build_append_entries_message_def
    by (subst handle_built [OF assms(1) _ built])
       (simp_all add: m(1) remote_log_entry_def handle_payload_def on_append_entries_request_capnp_def
          local_append_entries_def proto_entry_def append_request_def wire_entry_def m(2-6))
qed

lemma append_request_ok:
  assumes "log_ok cp L" "i < length L"
  shows "request_ok cp (append_request cp t leader rid commit (L ! i))"
proof -
  have e: "readable cp (as_bytes (L ! i))" "entry_index cp (L ! i) = of_nat i" "entry_term cp (L ! i) \<noteq> 0"
    "entry_prev_log_index cp (L ! i) = of_nat (i - 1)"
    "entry_prev_log_term cp (L ! i) = (if i = 0 then 0 else entry_term cp (L ! (i - 1)))"
    using assms by (simp_all add: log_ok_def)
  have "entry_term cp (L ! (i - 1)) \<noteq> 0"
    using assms by (simp add: log_ok_def)
  moreover have "i \<noteq> 0 \<Longrightarrow> (of_nat i :: u64) = of_nat (i - 1) + 1"
    by (cases i) simp_all
  ultimately show ?thesis
    using e by (cases "L ! i") (auto simp: request_ok_def append_request_def wire_entry_def wire_entry_ok_def)
qed

section \<open>Backfill\<close>

text \<open>The sending worker sends one message for each entry, in order.\<close>

lemma backfill_message_sent [simp]: "backfill_message cp wr (w\<lparr>qw_sent := ms\<rparr>) e = backfill_message cp wr w e"
  by (simp add: backfill_message_def)

lemma backfill_loop_open:
  "qw_outbound_tx w \<Longrightarrow> qw_outbound_open w \<Longrightarrow>
   backfill_loop cp wr es w = w\<lparr>qw_sent := qw_sent w @ map (backfill_message cp wr w) es\<rparr>"
proof (induction es arbitrary: w)
  case (Cons e es)
  then show ?case using Cons.IH [of "w\<lparr>qw_sent := qw_sent w @ [backfill_message cp wr w e]\<rparr>"]
    by (simp add: send_message_open)
qed simp

text \<open>The receiving worker turns them into requests for its state machine.\<close>

lemma push_request_simps [simp]:
  "qw_task_queue (push_request m t w) = qw_task_queue w @ [(m, qw_next_callback w)]"
  "qw_next_callback (push_request m t w) = Suc (qw_next_callback w)"
  by (simp_all add: push_request_def)

definition backfill_requests_of :: "capnp \<Rightarrow> QuorumWorker \<Rightarrow> OwnedLogEntry list \<Rightarrow> nat \<Rightarrow> (LocalRaftMessagePayload \<times> callback) list" where
  "backfill_requests_of cp w es n =
     zip (map (\<lambda>e. Msg_AppendEntries (append_request cp (qw_term w) (qw_self_id w) (entry_message_id cp e) (qw_commit_index w) e)) es)
         [n ..< n + length es]"

lemma backfill_arrives:
  assumes "wire_law cp wr" "list_all (\<lambda>e. entry_term cp e \<noteq> 0 \<and> wire_fits cp (backfill_message cp wr w e)) es"
  shows "\<exists>p'. fold_res (handle_inbound_message cp wr) (map (backfill_message cp wr w) es) p = Inr p' \<and>
    qw_task_queue p' = qw_task_queue p @ backfill_requests_of cp w es (qw_next_callback p)"
  using assms(2)
proof (induction es arbitrary: p)
  case (Cons e es)
  let ?p = "push_request (Msg_AppendEntries (append_request cp (qw_term w) (qw_self_id w) (entry_message_id cp e) (qw_commit_index w) e))
          (Pending_AppendEntries (entry_message_id cp e) (entry_index cp e) (entry_term cp e)) p"
  from Cons.prems have "handle_inbound_message cp wr (backfill_message cp wr w e) p = Inr ?p"
    unfolding backfill_message_def by (intro append_message_arrives [OF assms(1)]) simp_all
  with Cons.IH [of ?p] Cons.prems show ?case
    by (auto simp: backfill_requests_of_def upt_conv_Cons simp del: upt_Suc)
qed (simp add: backfill_requests_of_def)

text \<open>The follower appends the entry of each request.\<close>

lemma apply_log_entry_appends:
  assumes "persistence_connected s" "ae_entry r = Some e" "readable cp (le_data e)"
  shows "raft_log (apply_log_entry cp r cb s) = raft_log s @ [OwnedLogEntry (le_data e)]"
    "server_state (apply_log_entry cp r cb s) = server_state s"
    "persistence_connected (apply_log_entry cp r cb s)"
  using assms read_back [OF assms(3)]
  by (simp_all add: apply_log_entry_def note_entry_def Let_def persistence_send_def insert_outstanding_def
      update_commit_index_def)

definition following :: "capnp \<Rightarrow> u64 \<Rightarrow> u32 \<Rightarrow> OwnedLogEntry list \<Rightarrow> Executor \<Rightarrow> bool" where
  "following cp t leader L x \<longleftrightarrow>
     (\<exists>f. state_delegate x = Follower_Delegate f) \<and> log_wf cp (shared_state x) \<and>
     raft_log (shared_state x) = L \<and> persistence_connected (shared_state x) \<and>
     server_state (shared_state x) = \<lparr> current_term = t, leader_id = leader \<rparr>"

lemma accept_append_request:
  assumes "capnp_law cp" "log_ok cp L" "k < length L" "following cp t leader (take k L) x" "rid \<noteq> 0"
  shows "\<exists>x'. accept cp ev (Msg_AppendEntries (append_request cp t leader rid commit (L ! k)), cb) x = Inr x' \<and>
    following cp t leader (take (Suc k) L) x'"
proof -
  let ?r = "append_request cp t leader rid commit (L ! k)" and ?s = "shared_state x"
  from assms(4) obtain f where f: "state_delegate x = Follower_Delegate f" by (auto simp: following_def)
  have s: "log_wf cp ?s" "raft_log ?s = take k L" "persistence_connected ?s"
    "server_state ?s = \<lparr> current_term = t, leader_id = leader \<rparr>"
    using assms(4) by (simp_all add: following_def)
  have last: "last_log_index (vol ?s) = of_nat (k - 1)" "last_log_term (vol ?s) = last_term cp (take k L)"
    using s(1,2) assms(3) by (simp_all add: log_wf_def min_absorb2)
  have "last_term cp (take k L) = (if k = 0 then 0 else entry_term cp (L ! (k - 1)))"
    using assms(3) by (cases k) (simp_all add: take_Suc_nth)
  with last have valid: "validate_append_entries ?r (last_log_index (vol ?s)) (last_log_term (vol ?s))"
    using assms(2,3) by (simp add: validate_append_entries_def append_request_def log_ok_def)
  have rd: "readable cp (as_bytes (L ! k))" using assms(2,3) by (simp add: log_ok_def)
  let ?s' = "apply_log_entry cp ?r cb ?s"
  have "log_wf cp ?s'"
    by (rule apply_log_entry_wf [OF assms(1) s(1) append_request_ok [OF assms(2,3)] s(3) valid])
  moreover have "raft_log ?s' = take (Suc k) L" "server_state ?s' = server_state ?s" "persistence_connected ?s'"
    using apply_log_entry_appends [OF s(3), of ?r "wire_entry cp (L ! k)" cp cb] rd s(2) assms(3)
    by (simp_all add: append_request_def wire_entry_def take_Suc_nth)
  moreover have "accept cp ev (Msg_AppendEntries ?r, cb) x =
      Inr \<lparr> state_delegate = Follower_Delegate (f\<lparr>election_timer := reset_timer ev (election_timer f)\<rparr>),
            shared_state = ?s' \<rparr>"
    using f s(4) valid assms(5)
    by (simp add: accept_def delegate_append_entries_def follower_append_entries_def append_request_def)
  ultimately show ?thesis using s(4) by (simp add: following_def)
qed

lemma accept_backfill:
  assumes "capnp_law cp" "log_ok cp L" "list_all (\<lambda>e. entry_message_id cp e \<noteq> 0) L"
  shows "following cp (qw_term w) (qw_self_id w) (take k L) x \<Longrightarrow>
    \<exists>x'. fold_res (accept cp ev) (backfill_requests_of cp w (drop k L) n) x = Inr x' \<and>
         following cp (qw_term w) (qw_self_id w) L x'"
proof (induction "length L - k" arbitrary: k x n)
  case 0
  then show ?case by (auto simp: backfill_requests_of_def)
next
  case (Suc m)
  then have k: "k < length L" by simp
  have d: "drop k L = L ! k # drop (Suc k) L" using k by (simp add: Cons_nth_drop_Suc)
  have "entry_message_id cp (L ! k) \<noteq> 0" using assms(3) k by (simp add: list_all_length)
  from accept_append_request [OF assms(1,2) k Suc.prems this] obtain x1 where
    x1: "accept cp ev (Msg_AppendEntries (append_request cp (qw_term w) (qw_self_id w) (entry_message_id cp (L ! k))
           (qw_commit_index w) (L ! k)), n) x = Inr x1"
      "following cp (qw_term w) (qw_self_id w) (take (Suc k) L) x1" by blast
  have "m = length L - Suc k" using Suc.hyps(2) by simp
  from Suc.hyps(1) [OF this x1(2), of "Suc n"] x1(1) d show ?case
    by (simp add: backfill_requests_of_def upt_conv_Cons del: upt_Suc)
qed

section \<open>Properties\<close>

text \<open>
  C9: A backfill replicates the log. The leader's worker sends the entries from
  \<open>k\<close> on; its messages become requests in the other node's worker; when that
  node's state machine, a follower of this leader that holds the first \<open>k\<close>
  entries, has accepted them in order, its log is the leader's log.
\<close>

theorem backfill_replicates_log:
  assumes "capnp_law cp" "wire_law cp wr" "log_ok cp L" "k < length L"
    and ids: "list_all (\<lambda>e. entry_message_id cp e \<noteq> 0) L"
    and fits: "list_all (\<lambda>e. wire_fits cp (backfill_message cp wr w e)) L"
    and "qw_outbound_tx w" "qw_outbound_open w"
    and fl: "following cp (qw_term w) (qw_self_id w) (take k L) x"
    and w': "w' = send_backfill_entries cp wr now (drop k L) w"
  shows "\<exists>p' x'.
    fold_res (handle_inbound_message cp wr) (drop (length (qw_sent w)) (qw_sent w')) p = Inr p' \<and>
    fold_res (accept cp ev) (drop (length (qw_task_queue p)) (qw_task_queue p')) x = Inr x' \<and>
    raft_log (shared_state x') = L \<and> log_wf cp (shared_state x') \<and> qw_ongoing_backfill w' = None"
proof -
  have sent: "drop (length (qw_sent w)) (qw_sent w') = map (backfill_message cp wr w) (drop k L)"
    "qw_ongoing_backfill w' = None"
    using assms(4) w' by (simp_all add: send_backfill_entries_def backfill_loop_open assms(7,8))
  have "list_all (\<lambda>e. entry_term cp e \<noteq> 0 \<and> wire_fits cp (backfill_message cp wr w e)) (drop k L)"
    using assms(3) fits by (auto simp: list_all_length log_ok_def)
  from backfill_arrives [OF assms(2) this, of p] obtain p' where
    p': "fold_res (handle_inbound_message cp wr) (map (backfill_message cp wr w) (drop k L)) p = Inr p'"
      "qw_task_queue p' = qw_task_queue p @ backfill_requests_of cp w (drop k L) (qw_next_callback p)" by blast
  from accept_backfill [OF assms(1,3) ids fl, of ev "qw_next_callback p"] obtain x' where
    "fold_res (accept cp ev) (backfill_requests_of cp w (drop k L) (qw_next_callback p)) x = Inr x'"
    "following cp (qw_term w) (qw_self_id w) L x'" by blast
  with p' sent show ?thesis by (auto simp: following_def)
qed

lemma sample_log_ok: "log_ok sample_capnp sample_log"
  by (auto simp: log_ok_def sample_log_def less_Suc_eq)

lemma sample_follower_following: "following sample_capnp t leader [] (sample_follower t leader)"
  by (simp add: following_def sample_follower_def sample_state_def create_shared_state_def create_volatile_state_def
      empty_recovered_def log_wf_def)

theorem backfill_replicates_log_witness:
  "\<exists>p' x'.
    fold_res (handle_inbound_message sample_capnp sample_wire)
      (qw_sent (send_backfill_entries sample_capnp sample_wire 100 sample_log sample_sender))
      (new_quorum_worker 2 0 1 65536) = Inr p' \<and>
    fold_res (accept sample_capnp sample_env) (qw_task_queue p') (sample_follower 1 1) = Inr x' \<and>
    raft_log (shared_state x') = sample_log"
proof -
  have "\<exists>p' x'.
    fold_res (handle_inbound_message sample_capnp sample_wire)
      (drop (length (qw_sent sample_sender)) (qw_sent (send_backfill_entries sample_capnp sample_wire 100 (drop 0 sample_log) sample_sender)))
      (new_quorum_worker 2 0 1 65536) = Inr p' \<and>
    fold_res (accept sample_capnp sample_env)
      (drop (length (qw_task_queue (new_quorum_worker 2 0 1 65536))) (qw_task_queue p')) (sample_follower 1 1) = Inr x' \<and>
    raft_log (shared_state x') = sample_log \<and> log_wf sample_capnp (shared_state x') \<and>
    qw_ongoing_backfill (send_backfill_entries sample_capnp sample_wire 100 (drop 0 sample_log) sample_sender) = None"
  proof (rule backfill_replicates_log [OF sample_capnp_law sample_wire_law sample_log_ok])
    show "list_all (\<lambda>e. wire_fits sample_capnp (backfill_message sample_capnp sample_wire sample_sender e)) sample_log"
      by (simp add: list_all_iff backfill_message_def build_append_entries_message_def sample_wire_fits)
    show "following sample_capnp (qw_term sample_sender) (qw_self_id sample_sender) (take 0 sample_log) (sample_follower 1 1)"
      using sample_follower_following by (simp add: sample_sender_def new_quorum_worker_def)
  qed (simp_all add: sample_log_def sample_sender_def)
  then show ?thesis by (auto simp: sample_sender_def new_quorum_worker_def)
qed

text \<open>
  C19: The promise about append requests is kept by the sender. The message that
  the worker sends for entry \<open>i\<close> of a well-formed log reaches the other node's
  state machine as one request, which is well-formed, carries the bytes of that
  entry and the given request id, and is awaited by one pending task.
\<close>

theorem sent_append_request_ok:
  assumes "wire_law cp wr" "log_ok cp L" "i < length L" "qw_outbound_tx w" "qw_outbound_open w"
    and w': "w' = send_append_entries cp wr now rid (L ! i) commit w"
    and "wire_fits cp (last (qw_sent w'))"
  shows "\<exists>r t. handle_inbound_message cp wr (last (qw_sent w')) p = Inr (push_request (Msg_AppendEntries r) t p) \<and>
     request_ok cp r \<and> map_option le_data (ae_entry r) = Some (as_bytes (L ! i)) \<and>
     ae_term r = qw_term w \<and> ae_leader_id r = qw_self_id w \<and> ae_request_id r = rid \<and> ae_commit_index r = commit"
proof -
  have last: "last (qw_sent w') = build_append_entries_message cp wr (qw_term w) (qw_self_id w)
      (entry_prev_log_index cp (L ! i)) (entry_prev_log_term cp (L ! i)) rid commit (Some (L ! i))"
    using assms(4,5) w' by (simp add: send_append_entries_def Let_def send_message_open)
  have t: "entry_term cp (L ! i) \<noteq> 0" using assms(2,3) by (simp add: log_ok_def)
  show ?thesis
    using append_message_arrives [OF assms(1) t assms(7) [unfolded last], of p] append_request_ok [OF assms(2,3)] last
    by (intro exI conjI, simp) (simp_all add: append_request_def wire_entry_def)
qed

theorem sent_append_request_ok_witness:
  "\<exists>r t. handle_inbound_message sample_capnp sample_wire
       (last (qw_sent (send_append_entries sample_capnp sample_wire 100 3 (sample_log ! 1) 0 sample_sender)))
       (new_quorum_worker 2 0 1 65536) = Inr (push_request (Msg_AppendEntries r) t (new_quorum_worker 2 0 1 65536)) \<and>
     request_ok sample_capnp r \<and> ae_request_id r = 3"
proof -
  have "wire_fits sample_capnp
     (last (qw_sent (send_append_entries sample_capnp sample_wire 100 3 (sample_log ! 1) 0 sample_sender)))"
    by (simp add: send_append_entries_def send_message_open sample_sender_def build_append_entries_message_def
        sample_wire_fits)
  from sent_append_request_ok [OF sample_wire_law sample_log_ok _ _ _ refl this, of "new_quorum_worker 2 0 1 65536"]
  show ?thesis by (auto simp: sample_log_def sample_sender_def)
qed

end
