(* ===== verification/Step_System.thy ===== *)
theory Step_System
  imports Kraft_Prelude "HOL-Library.Multiset"
begin

text \<open>
  Contracts of a component that is driven by a sequence of events, each of which may
  panic: an invariant that every admissible event keeps, and a ledger in which every
  event is entered exactly once. The client connections, the quorum worker and the
  claiming of spots in the task buffer are such components.
\<close>

section \<open>Invariants\<close>

locale step_system =
  fixes step :: "'e \<Rightarrow> 's \<Rightarrow> 's result"
    and admissible :: "'e \<Rightarrow> bool"
    and inv :: "'s \<Rightarrow> bool"
  assumes step_inv: "admissible e \<Longrightarrow> inv s \<Longrightarrow> step e s = Inr s' \<Longrightarrow> inv s'"
begin

lemma run_inv:
  assumes "list_all admissible es" "inv s" "fold_res step es s = Inr s'"
  shows "inv s'"
  by (rule fold_res_invariant [where P = inv, OF _ assms(2,3)]) (use assms(1) step_inv in \<open>auto simp: list_all_iff\<close>)

end

section \<open>Ledgers\<close>

locale step_ledger =
  fixes step :: "'e \<Rightarrow> 's \<Rightarrow> 's result"
    and ledger :: "'s \<Rightarrow> 'm multiset"
    and posts :: "'e \<Rightarrow> 'm list"
  assumes step_ledger: "step e s = Inr s' \<Longrightarrow> ledger s' = ledger s + mset (posts e)"
begin

lemma run_ledger:
  "fold_res step es s = Inr s' \<Longrightarrow> ledger s' = ledger s + mset (concat (map posts es))"
proof (induction es arbitrary: s)
  case (Cons e es)
  then obtain t where "step e s = Inr t" "fold_res step es t = Inr s'" by auto
  with Cons.IH step_ledger show ?case by (simp add: ac_simps)
qed simp

end

text \<open>Nothing that was entered is ever lost.\<close>

sublocale step_ledger \<subseteq> grows: step_system step "\<lambda>_. True" "\<lambda>s. M \<subseteq># ledger s" for M
  by unfold_locales (auto dest!: step_ledger intro: subset_mset.order_trans)

end
