(* ===== verification/Worker_Contract.thy ===== *)
theory Worker_Contract
  imports Replication_Channel Step_System
begin

text \<open>
  What the quorum worker promises beyond replication: the answers of the state
  machine go out once each and in order, a vote request and its answer keep their
  id and term over both connections, heartbeats keep their distance, at most one
  backfill is asked for at a time, and what happens to a batch that is forwarded
  to the leader.
\<close>

section \<open>Pending tasks\<close>

text \<open>The reference: the answered tasks in order, and the tasks that stay.\<close>

fun answered :: "(callback \<Rightarrow> try_recv) \<Rightarrow> PendingQuorumTask list \<Rightarrow> (PendingQuorumTaskEnum \<times> LocalRaftResponsePayload) list" where
  "answered recv [] = []"
| "answered recv (pt # pts) =
     (case recv (pt_callback pt) of TR_Ok r \<Rightarrow> (pt_task pt, r) # answered recv pts | _ \<Rightarrow> answered recv pts)"

fun done_from :: "(callback \<Rightarrow> try_recv) \<Rightarrow> nat \<Rightarrow> PendingQuorumTask list \<Rightarrow> nat list" where
  "done_from recv i [] = []"
| "done_from recv i (pt # pts) =
     (if recv (pt_callback pt) = TR_Empty then done_from recv (Suc i) pts else i # done_from recv (Suc i) pts)"

lemma pending_loop_eq:
  "pending_loop cp wr recv i pts w =
     (done_from recv i pts, fold (\<lambda>(t, r). handle_pending_task_response cp wr t r) (answered recv pts) w)"
  by (induction pts arbitrary: i w) (auto split: try_recv.split)

lemma remove_at_length [simp]: "remove_at (length xs) (xs @ y # ys) = xs @ ys"
  by (simp add: remove_at_def)

lemma fold_remove_at:
  "fold remove_at (rev (done_from recv (length pre) pts)) (pre @ pts) =
     pre @ filter (\<lambda>pt. recv (pt_callback pt) = TR_Empty) pts"
proof (induction pts arbitrary: pre)
  case (Cons pt pts)
  from Cons.IH [of "pre @ [pt]"] show ?case by simp
qed simp

lemma handle_pending_tasks_frame [simp]:
  "qw_pending_tasks (handle_pending_task_response cp wr t r w) = qw_pending_tasks w"
  by (simp add: handle_pending_task_response_def push_response_def Let_def split_beta
      split: LocalRaftResponsePayload.split PendingQuorumTaskEnum.split LocalAppendEntriesCallbackResponse.split)

lemma fold_pending_frame:
  "qw_pending_tasks (fold (\<lambda>(t, r). handle_pending_task_response cp wr t r) xs w) = qw_pending_tasks w"
  by (induction xs arbitrary: w) auto

text \<open>
  C20: The pass over the pending tasks equals its reference. The answers that have
  arrived are forwarded once each, in the order of the tasks; the tasks that stay
  are those still without an answer, in their order, although the code removes the
  others by index while the list shrinks.
\<close>

theorem process_pending_reference:
  "process_pending_task_responses cp wr recv w =
     (fold (\<lambda>(t, r). handle_pending_task_response cp wr t r) (answered recv (qw_pending_tasks w)) w)
       \<lparr>qw_pending_tasks := filter (\<lambda>pt. recv (pt_callback pt) = TR_Empty) (qw_pending_tasks w)\<rparr>"
  using fold_remove_at [of recv "[]" "qw_pending_tasks w"]
  by (simp add: process_pending_task_responses_def pending_loop_eq fold_pending_frame)

section \<open>Votes\<close>

text \<open>
  C18: A vote request and its answer keep their identity. The request that the
  worker of node \<open>a\<close> sends for message id \<open>i\<close> reaches the state machine of the
  other node with the term, the candidate and the log position it was sent with;
  when that state machine answers, the answer comes back to \<open>a\<close>'s state machine
  with the same id and the same term.
\<close>

theorem vote_round_trip:
  assumes "wire_law cp wr" "qw_outbound_tx a" "qw_outbound_open a" "qw_outbound_tx b" "qw_outbound_open b"
    and a': "a' = send_vote_request wr i t li lt a"
    and b': "handle_inbound_message cp wr (last (qw_sent a')) b = Inr b'"
    and b'': "b'' = handle_pending_task_response cp wr (pt_task (last (qw_pending_tasks b'))) (Resp_RequestVote granted) b'"
    and fits: "wire_fits cp (last (qw_sent a'))" "wire_fits cp (last (qw_sent b''))"
  shows "fst (last (qw_task_queue b')) =
      Msg_RequestVote \<lparr> rv_term = t, rv_candidate_id = qw_self_id a, rv_last_log_index = li,
                        rv_last_log_term = lt \<rparr> \<and>
    handle_inbound_message cp wr (last (qw_sent b'')) a' = Inr (push_response (QR_RequestVoteResponse i t granted) a')"
proof -
  have sent: "last (qw_sent a') = build_vote_request_message wr t (qw_self_id a) li lt i"
    using assms(2,3) a' by (simp add: send_vote_request_def send_message_open)
  note fits_a = fits(1) [unfolded sent build_vote_request_message_def]
  have b1: "b' = on_vote_request t (qw_self_id a) li lt i b"
    using b' handle_built [OF assms(1) _ fits_a, of b]
    by (simp add: sent build_vote_request_message_def handle_payload_def)
  then have sent': "last (qw_sent b'') = build_vote_response_message wr granted i t"
    using assms(4,5) b'' by (simp add: on_vote_request_def push_request_def handle_pending_task_response_def send_message_open)
  note fits_b = fits(2) [unfolded sent' build_vote_response_message_def]
  show ?thesis
    using handle_built [OF assms(1) _ fits_b, of a'] b1
    by (simp add: sent' build_vote_response_message_def handle_payload_def on_vote_response_def on_vote_request_def)
qed

theorem vote_round_trip_witness:
  "\<exists>b' (b'' :: QuorumWorker).
     handle_inbound_message sample_capnp sample_wire (last (qw_sent (send_vote_request sample_wire 7 3 4 2 sample_sender)))
       (sample_sender\<lparr>qw_self_id := 2\<rparr>) = Inr b' \<and>
     fst (last (qw_task_queue b')) =
       Msg_RequestVote \<lparr> rv_term = 3, rv_candidate_id = 1, rv_last_log_index = 4, rv_last_log_term = 2 \<rparr> \<and>
     handle_inbound_message sample_capnp sample_wire (last (qw_sent b'')) (send_vote_request sample_wire 7 3 4 2 sample_sender) =
       Inr (push_response (QR_RequestVoteResponse 7 3 True) (send_vote_request sample_wire 7 3 4 2 sample_sender))"
proof -
  let ?a = "send_vote_request sample_wire 7 3 4 2 sample_sender" and ?b = "sample_sender\<lparr>qw_self_id := 2\<rparr>"
  have sent: "last (qw_sent ?a) = build_vote_request_message sample_wire 3 1 4 2 7"
    by (simp add: send_vote_request_def send_message_open sample_sender_def new_quorum_worker_def)
  let ?b' = "on_vote_request 3 1 4 2 7 ?b"
  let ?b'' = "handle_pending_task_response sample_capnp sample_wire (pt_task (last (qw_pending_tasks ?b')))
      (Resp_RequestVote True) ?b'"
  have h: "handle_inbound_message sample_capnp sample_wire (last (qw_sent ?a)) ?b = Inr ?b'"
    unfolding sent build_vote_request_message_def
    by (subst handle_built [OF sample_wire_law _ sample_wire_fits]) (simp_all add: handle_payload_def)
  have "wire_fits sample_capnp (last (qw_sent ?a))"
    by (simp only: sent build_vote_request_message_def sample_wire_fits)
  moreover have "wire_fits sample_capnp (last (qw_sent ?b''))"
    by (simp add: sample_wire_fits on_vote_request_def push_request_def
        handle_pending_task_response_def send_message_open sample_sender_def build_vote_response_message_def)
  ultimately have t: "fst (last (qw_task_queue ?b')) =
      Msg_RequestVote \<lparr> rv_term = 3, rv_candidate_id = qw_self_id sample_sender, rv_last_log_index = 4, rv_last_log_term = 2 \<rparr> \<and>
    handle_inbound_message sample_capnp sample_wire (last (qw_sent ?b'')) ?a = Inr (push_response (QR_RequestVoteResponse 7 3 True) ?a)"
    by (intro vote_round_trip [OF sample_wire_law _ _ _ _ refl h refl]) simp_all
  then show ?thesis using h unfolding sample_sender_simps by blast
qed

section \<open>Heartbeats\<close>

definition heartbeat :: "wire \<Rightarrow> QuorumWorker \<Rightarrow> OwnedQuorumMessage" where
  "heartbeat wr w =
     build_heartbeat_message wr (qw_term w) (qw_self_id w) (qw_prev_log_index w) (qw_prev_log_term w) (qw_commit_index w) 0"

text \<open>
  Heartbeats are sent exactly when they are due: on an open connection the
  check sends the heartbeat for the worker's state if heartbeats are on and the
  interval has passed since the last one, and otherwise changes nothing; once it
  has sent one, no later check sends another before the interval has passed.
\<close>

lemma heartbeat_when_due:
  assumes "qw_outbound_tx w" "qw_outbound_open w"
  shows "qw_sent (send_heartbeat_if_needed wr now w) =
      qw_sent w @ (if qw_send_heartbeats w \<and> \<not> now - qw_last_heartbeat w < HEARTBEAT_INTERVAL_MS then [heartbeat wr w] else []) \<and>
    (qw_sent (send_heartbeat_if_needed wr now w) \<noteq> qw_sent w \<longrightarrow> later - now < HEARTBEAT_INTERVAL_MS \<longrightarrow>
       send_heartbeat_if_needed wr later (send_heartbeat_if_needed wr now w) = send_heartbeat_if_needed wr now w)"
  using assms by (simp add: send_heartbeat_if_needed_def heartbeat_def send_message_open)

section \<open>One backfill at a time\<close>

fun is_backfill :: "LocalQuorumTaskResponseType \<Rightarrow> bool" where
  "is_backfill (QR_BackfillLog _ _ _) = True"
| "is_backfill _ = False"

definition backfills :: "QuorumWorker \<Rightarrow> nat" where
  "backfills w = length (filter is_backfill (qw_response_queue w))"

text \<open>How many more backfills the worker may ask for before one ends.\<close>

definition backfill_credit :: "QuorumWorker \<Rightarrow> nat" where
  "backfill_credit w = (if qw_ongoing_backfill w = None then 1 else 0)"

fun ends_backfill :: "message_payload option option \<Rightarrow> bool" where
  "ends_backfill (Some (Some (TruncateLogResponse _))) = True"
| "ends_backfill _ = False"

lemma push_response_backfills [simp]:
  "backfills (push_response r w) = backfills w + (if is_backfill r then 1 else 0)"
  "backfill_credit (push_response r w) = backfill_credit w"
  by (simp_all add: backfills_def push_response_def backfill_credit_def)

lemma backfills_frame [simp]:
  "backfills (snd (send_message m w)) = backfills w" "backfill_credit (snd (send_message m w)) = backfill_credit w"
  "backfills (push_request q t w) = backfills w" "backfill_credit (push_request q t w) = backfill_credit w"
  by (simp_all add: backfills_def backfill_credit_def push_request_def)

lemma ack_backfills:
  "backfills (on_append_entries_ack i li lt ok w) + backfill_credit (on_append_entries_ack i li lt ok w) \<le>
   backfills w + backfill_credit w"
  by (simp add: on_append_entries_ack_def Let_def backfills_def backfill_credit_def push_response_def)

lemma handle_backfills:
  assumes "handle_inbound_message cp wr m w = Inr w'" "\<not> ends_backfill (quorum_with_message cp wr m id)"
  shows "backfills w' + backfill_credit w' \<le> backfills w + backfill_credit w"
proof (cases "quorum_with_message cp wr m id")
  case (Some po)
  show ?thesis
  proof (cases po)
    case (Some p)
    with assms \<open>quorum_with_message cp wr m id = Some po\<close> show ?thesis
      using ack_backfills
      by (auto simp: handle_inbound_message_def handle_payload_def on_vote_response_def on_vote_request_def
          on_append_entries_request_capnp_def on_put_batch_request_capnp_def on_put_batch_response_capnp_def
          on_truncate_log_request_def Let_def split_beta backfills_def [where w = "_\<lparr>qw_write_responses := _\<rparr>"]
          split: message_payload.splits option.splits)
        (simp_all add: backfills_def backfill_credit_def)
  qed (use assms Some in \<open>simp add: handle_inbound_message_def\<close>)
qed (use assms in \<open>simp add: handle_inbound_message_def\<close>)

text \<open>Messages that do not end a backfill keep a bound on the requests and the credit.\<close>

interpretation inbound: step_system "handle_inbound_message cp wr"
  "\<lambda>m. \<not> ends_backfill (quorum_with_message cp wr m id)" "\<lambda>w. backfills w + backfill_credit w \<le> n"
  by unfold_locales (blast intro: order_trans handle_backfills)

text \<open>
  C29: At most one backfill is asked for at a time. However many negative
  acknowledgements arrive, between two events that end a backfill the worker
  passes at most one backfill request to the state machine.
\<close>

theorem one_backfill_at_a_time:
  assumes "fold_res (handle_inbound_message cp wr) ms w = Inr w'"
    and "list_all (\<lambda>m. \<not> ends_backfill (quorum_with_message cp wr m id)) ms"
  shows "backfills w' \<le> backfills w + 1"
proof -
  have "backfills w' + backfill_credit w' \<le> backfills w + backfill_credit w"
    by (rule inbound.run_inv [OF assms(2) order_refl assms(1)])
  then show ?thesis by (simp add: backfill_credit_def split: if_splits)
qed

theorem one_backfill_at_a_time_witness:
  "\<exists>w'. fold_res (handle_inbound_message sample_capnp sample_wire)
     (replicate 3 (build_append_entries_ack_message sample_wire 1 0 9 False)) sample_sender = Inr w' \<and> backfills w' \<le> 1"
proof -
  let ?m = "build_append_entries_ack_message sample_wire 1 0 9 False"
  let ?h = "on_append_entries_ack 9 0 1 False"
  have h: "handle_inbound_message sample_capnp sample_wire ?m w = Inr (?h w)" for w
    unfolding build_append_entries_ack_message_def
    by (subst handle_built [OF sample_wire_law _ sample_wire_fits]) (simp_all add: handle_payload_def)
  have q: "quorum_with_message sample_capnp sample_wire ?m id =
      Some (Some (AppendEntriesAcknowledge (Some \<lparr> ack_last_log_term = 1, ack_last_log_index = 0,
         ack_request_id = 9, ack_ok = False \<rparr>)))"
    unfolding build_append_entries_ack_message_def by (subst quorum_with_built [OF sample_wire_law _ sample_wire_fits]) simp_all
  have f: "fold_res (handle_inbound_message sample_capnp sample_wire) (replicate 3 ?m) sample_sender =
      Inr (?h (?h (?h sample_sender)))"
    by (simp add: h numeral_3_eq_3)
  have "list_all (\<lambda>m. \<not> ends_backfill (quorum_with_message sample_capnp sample_wire m id)) (replicate 3 ?m)"
    by (simp add: list_all_iff q)
  from one_backfill_at_a_time [OF f this] f show ?thesis
    by (simp add: backfills_def [of sample_sender])
qed

section \<open>A backfill that is never ended\<close>

lemma nacks_ignored:
  "qw_ongoing_backfill w = Some b \<Longrightarrow>
   qw_response_queue (fold (\<lambda>(i, li, lt). on_append_entries_ack i li lt False) acks w) = qw_response_queue w"
  by (induction acks arbitrary: w) (auto simp: on_append_entries_ack_def Let_def)

lemma log_position:
  assumes "log_wf cp s" "raft_log s \<noteq> []" "length (raft_log s) < 2 ^ 64"
  shows "unat (last_log_index (vol s)) = length (raft_log s) - 1"
    "last_log_index (vol s) < of_nat (length (raft_log s))"
    "unat (last_log_index (vol s) + 1) = length (raft_log s)"
    "entry_term cp (raft_log s ! unat (last_log_index (vol s))) = last_log_term (vol s)"
proof -
  let ?n = "length (raft_log s)"
  have idx: "last_log_index (vol s) = of_nat (?n - 1)" and t: "last_log_term (vol s) = last_term cp (raft_log s)"
    using assms(1) by (simp_all add: log_wf_def)
  from idx assms(3) show u: "unat (last_log_index (vol s)) = ?n - 1" by (simp add: unat_of_nat_u64)
  then show "last_log_index (vol s) < of_nat ?n"
    using assms(2,3) by (simp add: word_less_nat_alt unat_of_nat_u64)
  have "last_log_index (vol s) + 1 = of_nat ?n"
    using idx assms(2) by (cases ?n) simp_all
  with assms(3) show "unat (last_log_index (vol s) + 1) = ?n" by (simp add: unat_of_nat_u64)
  show "entry_term cp (raft_log s ! unat (last_log_index (vol s))) = last_log_term (vol s)"
    using u t assms(2) by (simp add: last_term_nth)
qed

text \<open>
  C38: An empty backfill is never ended. When a follower that already holds the
  whole log asks for a backfill, the leader sends its worker an empty one; the
  worker returns from it without clearing its mark, and from then on no negative
  acknowledgement of that follower reaches the leader, whatever the follower lacks.
\<close>

theorem empty_backfill_wedges:
  assumes "log_wf cp s" "raft_log s \<noteq> []" "length (raft_log s) < 2 ^ 64" "last_log_term (vol s) \<noteq> 0"
    and "qw_ongoing_backfill w = Some b"
  shows "handle_backfill_request cp (node, last_log_term (vol s), last_log_index (vol s)) s =
      Inr (push_quorum (get_quorum_worker_index node (identity s)) (QT_BackfillLog []) s) \<and>
    qw_response_queue (fold (\<lambda>(i, li, lt). on_append_entries_ack i li lt False) acks
      (process_quorum_task cp wr now (QT_BackfillLog []) w)) = qw_response_queue w"
proof -
  note pos = log_position [OF assms(1-3)]
  have "unat (last_log_index (vol s)) < length (raft_log s)"
    using pos(1) assms(2) by simp
  then have "handle_backfill_request cp (node, last_log_term (vol s), last_log_index (vol s)) s =
      Inr (push_quorum (get_quorum_worker_index node (identity s)) (QT_BackfillLog []) s)"
    using pos assms(4)
    by (simp add: handle_backfill_request_def Let_def not_le send_backfill_data_def clone_subset_def)
  then show ?thesis
    using nacks_ignored [OF assms(5)] by (simp add: process_quorum_task_def send_backfill_entries_def)
qed

definition sample_leader_state :: SharedState where
  "sample_leader_state =
     upd_vol (\<lambda>v. v\<lparr>replication_log := sample_log, last_log_index := 1, last_log_term := 1\<rparr>) (sample_state 1)"

lemma sample_leader_state_wf: "log_wf sample_capnp sample_leader_state"
  using sample_log_ok by (simp add: log_wf_def sample_leader_state_def) (simp add: sample_log_def last_term_def)

theorem empty_backfill_wedges_witness:
  "handle_backfill_request sample_capnp (2, 1, 1) sample_leader_state = Inr (push_quorum 0 (QT_BackfillLog []) sample_leader_state) \<and>
   qw_response_queue (fold (\<lambda>(i, li, lt). on_append_entries_ack i li lt False) [(5, 0, 1), (6, 0, 1)]
     (process_quorum_task sample_capnp sample_wire 100 (QT_BackfillLog [])
       (sample_sender\<lparr>qw_ongoing_backfill := Some \<lparr> from_term = 1, from_index = 1 \<rparr>\<rparr>))) = []"
proof -
  have i: "get_quorum_worker_index 2 (identity sample_leader_state) = 0"
    by (simp add: sample_leader_state_def sample_state_def create_shared_state_def get_quorum_worker_index_def
        saturating_sub_def)
  have f: "last_log_term (vol sample_leader_state) = 1" "last_log_index (vol sample_leader_state) = 1"
    "raft_log sample_leader_state = sample_log"
    by (simp_all add: sample_leader_state_def)
  let ?w = "sample_sender\<lparr>qw_ongoing_backfill := Some \<lparr> from_term = 1, from_index = 1 \<rparr>\<rparr>"
  from empty_backfill_wedges [OF sample_leader_state_wf, of ?w "\<lparr> from_term = 1, from_index = 1 \<rparr>" 2
      "[(5, 0, 1), (6, 0, 1)]" sample_wire 100] show ?thesis
    by (simp add: f i) (simp add: sample_log_def)
qed

section \<open>Batches forwarded to the leader\<close>

text \<open>
  C39: A forwarded batch keeps its keys and nodes but not every payload. A put
  request that is sent to the leader in a batch arrives there as it was exactly
  when its payload is valid UTF-8; any other payload is replaced by a different,
  valid one.
\<close>

theorem forwarded_payload_kept_iff_utf8:
  "internal_put_request (remote_put_request \<lparr> put_id = Some i, put_payload = Some p, put_node_id = n \<rparr>) =
     \<lparr> put_id = Some i, put_payload = Some (from_utf8_lossy p), put_node_id = n \<rparr> \<and>
   utf8_valid (from_utf8_lossy p) \<and> (from_utf8_lossy p = p \<longleftrightarrow> utf8_valid p)"
  using from_utf8_lossy_valid [of p] from_utf8_lossy_is_valid [of p]
  by (auto simp: internal_put_request_def remote_put_request_def)

end
