(* ===== verification/Node_Safety.thy ===== *)
theory Node_Safety
  imports Replication_Channel
begin

text \<open>
  What a node guarantees along its runs: the write-ahead queue accounts for every
  change of the log and of the votes, a vote stays, the log keeps its shape, a
  candidate becomes a leader only with a quorum of votes, and the leader moves the
  commit index and answers its clients only with a quorum of acknowledgements. The
  last section is about the quorum itself.
\<close>

section \<open>Runs\<close>

text \<open>
  C6: Write-ahead. Along every run of a node whose persistence worker is connected,
  the tasks sent to that worker account for every change of the log and of the
  votes: replaying them, none of which is out of range, on the log and the votes at
  the start gives the log and the votes at the end.
\<close>

theorem run_write_ahead:
  assumes "node_steps cp promise x y" "persistence_connected (shared_state x)"
  shows "\<exists>ts. persistence_work (shared_state y) = persistence_work (shared_state x) @ ts \<and>
    tasks_in_range ts (log_bytes (shared_state x)) \<and>
    fold spec_task ts (log_bytes (shared_state x)) = log_bytes (shared_state y) \<and>
    record_votes (concat (map spec_vote ts)) (term_votes (shared_state x)) = term_votes (shared_state y)"
  using node_steps_logged [OF assms] by (auto simp: logged_def)

text \<open>A candidate of a cluster of three that is asked for its vote in term 3.\<close>

definition sample_candidate :: Executor where
  "sample_candidate = \<lparr> state_delegate = Candidate_Delegate new_candidate, shared_state = sample_state 1 \<rparr>"

definition sample_vote :: input where
  "sample_vote = Accept sample_env
     (Msg_RequestVote \<lparr> rv_term = 3, rv_candidate_id = 2, rv_last_log_index = 0, rv_last_log_term = 0 \<rparr>) 7"

lemma sample_vote_step:
  obtains y where "exec sample_capnp sample_vote sample_candidate = Inr y"
    "term_votes (shared_state y) = [3 \<mapsto> 2]"
    "persistence_work (shared_state y) = [PT_AppendVote 0 3 2]"
    "votes_promise sample_vote sample_candidate"
  by (rule that [of "\<lparr> state_delegate = Candidate_Delegate new_candidate,
        shared_state = snd (candidate_request_vote \<lparr> rv_term = 3, rv_candidate_id = 2, rv_last_log_index = 0, rv_last_log_term = 0 \<rparr>
          7 (sample_state 1)) \<rparr>"])
     (simp_all add: sample_vote_def sample_candidate_def accept_def delegate_request_vote_def apply_change_def
       candidate_request_vote_def raise_next_term_def should_accept_vote_def accept_vote_def persistence_send_def
       insert_outstanding_def sample_state_def create_shared_state_def create_volatile_state_def create_server_state_def
       empty_recovered_def Let_def)

lemma one_step: "exec cp i x = Inr y \<Longrightarrow> promise i x \<Longrightarrow> node_steps cp promise x y"
  by (rule node_steps.step [OF node_steps.start])

theorem run_write_ahead_witness:
  "\<exists>y. node_steps sample_capnp votes_promise sample_candidate y \<and>
    persistence_work (shared_state y) = [PT_AppendVote 0 3 2] \<and>
    record_votes [\<lparr> vote_term = 3, vote_candidate_id = 2 \<rparr>] (\<lambda>_. None) = term_votes (shared_state y)"
proof -
  obtain y where y: "exec sample_capnp sample_vote sample_candidate = Inr y"
    "persistence_work (shared_state y) = [PT_AppendVote 0 3 2]" "votes_promise sample_vote sample_candidate"
    by (rule sample_vote_step)
  have run: "node_steps sample_capnp votes_promise sample_candidate y" by (rule one_step [OF y(1), of votes_promise, OF y(3)])
  moreover have "persistence_connected (shared_state sample_candidate)" "persistence_work (shared_state sample_candidate) = []"
    "term_votes (shared_state sample_candidate) = (\<lambda>_. None)"
    by (simp_all add: sample_candidate_def sample_state_def create_shared_state_def empty_recovered_def)
  ultimately show ?thesis using run_write_ahead [OF run] y(2) by auto
qed



text \<open>
  C34: The promise about recognised leaders is needed. A candidate that has voted in the
  term after that of a leader it recognises keeps that vote, but the leader's request
  sets its next term back to the term of the vote; the node's next election, whatever
  quiet steps come first, is then for that very term: it replaces the vote by one for
  the node itself and sends this second vote of the term to the votes file.
\<close>

theorem old_leader_revokes_vote:
  assumes "term_votes s (ae_term r + 1) = Some c" "current_term (server_state s) \<le> ae_term r"
    and "quiet (snd (candidate_append_entries ev r cb s)) s'" "s'' = initiate_election s'" "persistence_connected s"
  shows "term_votes s' (ae_term r + 1) = Some c \<and> term_votes s'' (ae_term r + 1) = Some (identity s) \<and>
    pending_votes s'' = pending_votes s @ [\<lparr> vote_term = ae_term r + 1, vote_candidate_id = identity s \<rparr>]"
proof -
  have "quiet (recognise_leader r s) (snd (candidate_append_entries ev r cb s))"
    using assms(2) by (simp add: candidate_append_entries_def Let_def)
  then have "quiet (recognise_leader r s) s'" using assms(3) by (rule quiet_trans)
  then have "term_votes s' = term_votes s" "next_term (vol s') = ae_term r + 1" "identity s' = identity s"
    "persistence_connected s'" "persistence_work s' = persistence_work s"
    using assms(5) by (simp_all add: quiet_def recognise_leader_def)
  then show ?thesis
    using assms(1,4) by (simp add: initiate_election_def persistence_send_def insert_outstanding_def push_all_quorum_def
        pending_votes_def Let_def)
qed

theorem old_leader_revokes_vote_witness:
  "\<exists>y s''. exec sample_capnp sample_vote sample_candidate = Inr y \<and> term_votes (shared_state y) 3 = Some 2 \<and>
    s'' = initiate_election (snd (candidate_append_entries sample_env
      \<lparr> ae_term = 2, ae_leader_id = 3, ae_prev_index = 0, ae_prev_term = 0, ae_request_id = 0,
        ae_entry = None, ae_commit_index = 0 \<rparr> 9 (shared_state y))) \<and>
    term_votes s'' 3 = Some 1"
proof -
  let ?r = "\<lparr> ae_term = 2, ae_leader_id = 3, ae_prev_index = 0, ae_prev_term = 0, ae_request_id = 0,
        ae_entry = None, ae_commit_index = 0 \<rparr>"
  obtain y where y: "exec sample_capnp sample_vote sample_candidate = Inr y" "term_votes (shared_state y) = [3 \<mapsto> 2]"
    by (rule sample_vote_step)
  then have s: "shared_state y = snd (candidate_request_vote
      \<lparr> rv_term = 3, rv_candidate_id = 2, rv_last_log_index = 0, rv_last_log_term = 0 \<rparr> 7 (sample_state 1))"
    by (auto simp: sample_vote_def sample_candidate_def accept_def delegate_request_vote_def split_beta)
  have "identity (shared_state y) = 1" "current_term (server_state (shared_state y)) = 0" "persistence_connected (shared_state y)"
    by (simp_all add: s candidate_request_vote_def accept_vote_def raise_next_term_def persistence_send_def
        insert_outstanding_def Let_def sample_state_def create_shared_state_def create_server_state_def)
  with old_leader_revokes_vote [of "shared_state y" ?r 2 sample_env 9, OF _ _ quiet_refl refl] y show ?thesis by auto
qed



section \<open>Commits\<close>

text \<open>What an outstanding message says about its log entry: persisted, acknowledgements, index.\<close>

definition replication_of :: "OutstandingMessage \<Rightarrow> (bool \<times> u32 \<times> u64) option" where
  "replication_of msg =
     (case message_type msg of
        OM_WriteBatch persisted acks _ idx _ \<Rightarrow> Some (persisted, acks, idx)
      | OM_NoOp persisted acks idx \<Rightarrow> Some (persisted, acks, idx)
      | _ \<Rightarrow> None)"

lemma advance_commit_index [simp]:
  "commit_index (vol (advance_commit idx s)) = max (commit_index (vol s)) idx"
  by (auto simp: advance_commit_def push_all_quorum_def bump_version_def max_def)

lemma complete_write_batch_index:
  "complete_write_batch cp idx cb s = Inr s' \<Longrightarrow> commit_index (vol s') = max (commit_index (vol s)) idx"
  by (auto simp: complete_write_batch_def Let_def)

lemma outstanding_frame [simp]:
  "vol (remove_outstanding i s) = vol s" "vol (insert_outstanding i m s) = vol s"
  "responses (remove_outstanding i s) = responses s" "responses (insert_outstanding i m s) = responses s"
  "quorum_size (remove_outstanding i s) = quorum_size s"
  "receiver_alive (remove_outstanding i s) = receiver_alive s"
  by (simp_all add: remove_outstanding_def insert_outstanding_def)

lemma advance_commit_frame [simp]:
  "responses (advance_commit idx s) = responses s" "receiver_alive (advance_commit idx s) = receiver_alive s"
  by (simp_all add: advance_commit_def push_all_quorum_def)

text \<open>What moves the commit index: a report of the leader's persistence worker or an acknowledgement.\<close>

lemma commit_step_needs_quorum:
  "(leader_persistence_response cp r s = Inr s' \<and> commit_index (vol s') \<noteq> commit_index (vol s) \<longrightarrow>
     commit_index (vol s) < commit_index (vol s') \<and>
     (\<exists>i msg persisted acks. r = PR_LogPersisted i \<and> outstanding_messages s i = Some msg \<and>
        replication_of msg = Some (persisted, acks, commit_index (vol s')) \<and> quorum_size s \<le> acks)) \<and>
   (leader_quorum_response cp q s = Inr s' \<and> commit_index (vol s') \<noteq> commit_index (vol s) \<longrightarrow>
     commit_index (vol s) < commit_index (vol s') \<and>
     (\<exists>i n msg acks. q = QR_AppendEntries i n \<and> outstanding_messages s i = Some msg \<and>
        replication_of msg = Some (True, acks, commit_index (vol s')) \<and> quorum_size s \<le> acks + 1))"
proof (intro conjI impI; elim conjE)
  assume "leader_persistence_response cp r s = Inr s'" "commit_index (vol s') \<noteq> commit_index (vol s)"
  then show "commit_index (vol s) < commit_index (vol s')"
    and "\<exists>i msg persisted acks. r = PR_LogPersisted i \<and> outstanding_messages s i = Some msg \<and>
        replication_of msg = Some (persisted, acks, commit_index (vol s')) \<and> quorum_size s \<le> acks"
    by (auto simp: leader_persistence_response_def leader_log_persisted_def leader_vote_persisted_def Let_def
        complete_noop_def replication_of_def max_def dest!: complete_write_batch_index
        split: PersistenceResponseType.splits option.splits OutstandingMessageType.splits if_splits)
next
  assume "leader_quorum_response cp q s = Inr s'" "commit_index (vol s') \<noteq> commit_index (vol s)"
  then show "commit_index (vol s) < commit_index (vol s')"
    and "\<exists>i n msg acks. q = QR_AppendEntries i n \<and> outstanding_messages s i = Some msg \<and>
        replication_of msg = Some (True, acks, commit_index (vol s')) \<and> quorum_size s \<le> acks + 1"
    by (auto simp: leader_quorum_response_def handle_append_entries_response_def Let_def
        complete_noop_def replication_of_def max_def dest!: complete_write_batch_index
        split: LocalQuorumTaskResponseType.splits option.splits OutstandingMessageType.splits if_splits)
qed

text \<open>A leader of a cluster of three that waits for the second acknowledgement of the entry at index 1.\<close>

definition sample_commit :: SharedState where
  "sample_commit = (sample_state 1)
     \<lparr>outstanding_messages := [3 \<mapsto> \<lparr> om_id = 3, outstanding_responses = 1, message_type = OM_WriteBatch True 1 5 1 1 \<rparr>]\<rparr>"

lemma sample_commit_simps [simp]:
  "outstanding_messages sample_commit 3 = Some \<lparr> om_id = 3, outstanding_responses = 1, message_type = OM_WriteBatch True 1 5 1 1 \<rparr>"
  "quorum_size sample_commit = 2" "commit_index (vol sample_commit) = 0" "responses sample_commit = []"
  "receiver_alive sample_commit = (\<lambda>_. True)"
  by (simp_all add: sample_commit_def sample_state_def create_shared_state_def create_volatile_state_def)

lemma sample_commit_step:
  obtains s' where "leader_quorum_response sample_capnp (QR_AppendEntries 3 True) sample_commit = Inr s'"
    "commit_index (vol s') = 1" "responses s' \<noteq> []"
proof -
  obtain m where "build_owned_write_batch_response sample_capnp empty_write_batch_response = Inr m"
    using dec_enc_nat [of 0 "[]"]
    by (simp add: build_owned_write_batch_response_def write_batch_response_from_bytes_def sample_capnp_def
        read_frame_len_def frame_def)
  then obtain s' where s': "complete_write_batch sample_capnp 1 5 (remove_outstanding 3 sample_commit) = Inr s'"
    "responses s' \<noteq> []"
    by (simp add: complete_write_batch_def Let_def send_callback_def)
  with that [of s'] complete_write_batch_index [OF s'(1)] show thesis
    by (simp add: leader_quorum_response_def handle_append_entries_response_def Let_def)
qed

lemma complete_write_batch_responses:
  assumes "complete_write_batch cp idx cb s = Inr s'"
  obtains m where "set (responses s') \<subseteq> insert (cb, Resp_WriteBatch \<lparr> wr_message = m, wr_err = None \<rparr>) (set (responses s))"
proof -
  from assms obtain m where "s' = send_callback cb (Resp_WriteBatch \<lparr> wr_message = m, wr_err = None \<rparr>) (advance_commit idx s)"
    by (auto simp: complete_write_batch_def Let_def)
  then show thesis by (intro that [of m]) (auto simp: send_callback_responses)
qed



section \<open>Quorums\<close>

lemma unat_cluster_quorum_size:
  assumes "n < 2 ^ 32"
  shows "unat (cluster_quorum_size n) = (n + 1) div 2"
proof -
  have n: "unat (of_nat n :: u32) = n" using assms by (subst unat_of_nat) simp
  have "unat ((of_nat n :: u32) mod 2) = n mod 2" using n by (simp add: unat_mod)
  then have m: "((of_nat n :: u32) mod 2 = 0) = even n"
    by (metis even_iff_mod_2_eq_zero unsigned_eq_0_iff)
  show ?thesis
  proof (cases "even n")
    case True
    then show ?thesis using m n by (simp add: cluster_quorum_size_def Let_def unat_div)
  next
    case False
    have "unat ((of_nat n :: u32) div 2 + 1) = n div 2 + 1"
      using assms n by (subst unat_add_lem [THEN iffD1]) (simp_all add: unat_div)
    with False m show ?thesis by (simp add: cluster_quorum_size_def Let_def)
  qed
qed

lemma quorums_meet:
  assumes "n < 2 ^ 32" "odd n" "A \<subseteq> {..<n}" "B \<subseteq> {..<n}"
    and "unat (cluster_quorum_size n) \<le> card A" "unat (cluster_quorum_size n) \<le> card B"
  shows "A \<inter> B \<noteq> {}"
proof
  assume disj: "A \<inter> B = {}"
  have "finite A" "finite B" "A \<union> B \<subseteq> {..<n}" using assms(3,4) by (auto intro: finite_subset)
  then have "card A + card B \<le> n"
    using disj card_mono [of "{..<n}" "A \<union> B"] by (simp add: card_Un_disjoint)
  with assms(5,6) unat_cluster_quorum_size [OF assms(1)] assms(2) show False by (auto elim!: oddE)
qed

text \<open>
  C33: Any two quorums of voters have a node in common exactly in clusters of odd
  size. The quorum size that the program computes is a majority for an odd number of
  configured nodes; for an even number two disjoint halves both reach it, so that
  two candidates can be elected in the same term.
\<close>

theorem quorums_intersect_iff_odd:
  assumes "n < 2 ^ 32" "0 < n"
  shows "odd n \<longleftrightarrow> (\<nexists>A B. A \<subseteq> {..<n} \<and> B \<subseteq> {..<n} \<and> A \<inter> B = {} \<and>
    unat (cluster_quorum_size n) \<le> card A \<and> unat (cluster_quorum_size n) \<le> card B)"
proof
  assume "odd n"
  then show "\<nexists>A B. A \<subseteq> {..<n} \<and> B \<subseteq> {..<n} \<and> A \<inter> B = {} \<and>
    unat (cluster_quorum_size n) \<le> card A \<and> unat (cluster_quorum_size n) \<le> card B"
    using quorums_meet [OF assms(1)] by blast
next
  assume no: "\<nexists>A B. A \<subseteq> {..<n} \<and> B \<subseteq> {..<n} \<and> A \<inter> B = {} \<and>
    unat (cluster_quorum_size n) \<le> card A \<and> unat (cluster_quorum_size n) \<le> card B"
  show "odd n"
  proof
    assume "even n"
    then have "{..<n div 2} \<subseteq> {..<n} \<and> {n div 2..<n} \<subseteq> {..<n} \<and> {..<n div 2} \<inter> {n div 2..<n} = {} \<and>
      unat (cluster_quorum_size n) \<le> card {..<n div 2} \<and> unat (cluster_quorum_size n) \<le> card {n div 2..<n}"
      using unat_cluster_quorum_size [OF assms(1)] by (auto elim!: evenE)
    with no show False by blast
  qed
qed

theorem quorums_intersect_iff_odd_witness:
  "\<exists>A B. A \<subseteq> {..<4 :: nat} \<and> B \<subseteq> {..<4 :: nat} \<and> A \<inter> B = {} \<and>
    unat (cluster_quorum_size 4) \<le> card A \<and> unat (cluster_quorum_size 4) \<le> card B"
  using quorums_intersect_iff_odd [of 4] by auto

section \<open>Vote requests to a follower\<close>

text \<open>What an acceptable vote request leaves in a follower's state.\<close>

definition parked_vote :: "callback \<Rightarrow> SharedState \<Rightarrow> SharedState" where
  "parked_vote cb s =
     s\<lparr>next_message_id := next_message_id s + 1,
       outstanding_messages := (outstanding_messages s)(next_message_id s \<mapsto>
         \<lparr> om_id = next_message_id s, outstanding_responses = 1, message_type = OM_RequestVote cb \<rparr>)\<rparr>"

lemma raise_next_term_simps [simp]:
  "term_votes (raise_next_term t s) = term_votes s" "server_state (raise_next_term t s) = server_state s"
  "last_log_index (vol (raise_next_term t s)) = last_log_index (vol s)"
  "outstanding_messages (raise_next_term t s) = outstanding_messages s" "responses (raise_next_term t s) = responses s"
  "persistence_work (raise_next_term t s) = persistence_work s" "next_message_id (raise_next_term t s) = next_message_id s"
  by (simp_all add: raise_next_term_def)

lemma follower_request_vote_accepted:
  assumes "should_accept_vote (rv_term r) (rv_last_log_term r) (rv_last_log_index r) s"
  shows "follower_request_vote r cb s = Inr (SC_None, parked_vote cb (raise_next_term (rv_term r) s))"
proof -
  have "should_accept_vote (rv_term r) (rv_last_log_term r) (rv_last_log_index r) (raise_next_term (rv_term r) s)"
    using assms by (simp add: should_accept_vote_def split: if_splits)
  then show ?thesis
    by (simp add: follower_request_vote_def parked_vote_def insert_outstanding_def Let_def)
qed

text \<open>
  C35: A follower's accepted vote is neither recorded, persisted nor answered. When a
  follower finds a vote request acceptable it only files the callback; a second
  candidate's request for the same term is then found acceptable as well, no response
  is sent to either, no vote is recorded and no vote task reaches the persistence
  worker.
\<close>

theorem follower_vote_unrecorded:
  assumes "should_accept_vote (rv_term r1) (rv_last_log_term r1) (rv_last_log_index r1) s"
    "rv_term r2 = rv_term r1" "rv_last_log_index r1 \<le> rv_last_log_index r2"
  shows "\<exists>s1 s2 i. follower_request_vote r1 cb1 s = Inr (SC_None, s1) \<and> follower_request_vote r2 cb2 s1 = Inr (SC_None, s2) \<and>
    outstanding_messages s2 =
      (outstanding_messages s)(i \<mapsto> \<lparr> om_id = i, outstanding_responses = 1, message_type = OM_RequestVote cb1 \<rparr>,
                               i + 1 \<mapsto> \<lparr> om_id = i + 1, outstanding_responses = 1, message_type = OM_RequestVote cb2 \<rparr>) \<and>
    responses s2 = responses s \<and> persistence_work s2 = persistence_work s \<and> term_votes s2 = term_votes s"
proof -
  let ?s1 = "parked_vote cb1 (raise_next_term (rv_term r1) s)"
  have "should_accept_vote (rv_term r2) (rv_last_log_term r2) (rv_last_log_index r2) ?s1"
    using assms by (simp add: should_accept_vote_def parked_vote_def split: if_splits)
  then have "follower_request_vote r2 cb2 ?s1 = Inr (SC_None, parked_vote cb2 (raise_next_term (rv_term r2) ?s1))"
    by (rule follower_request_vote_accepted)
  with follower_request_vote_accepted [OF assms(1), of cb1] show ?thesis
    by (intro exI [of _ ?s1] exI [of _ "parked_vote cb2 (raise_next_term (rv_term r2) ?s1)"]
        exI [of _ "next_message_id s"] conjI) (simp_all add: parked_vote_def)
qed

theorem follower_vote_unrecorded_witness:
  "\<exists>s1 s2. follower_request_vote
       \<lparr> rv_term = 3, rv_candidate_id = 1, rv_last_log_index = 0, rv_last_log_term = 0 \<rparr> 7 (sample_state 2) = Inr (SC_None, s1) \<and>
     follower_request_vote
       \<lparr> rv_term = 3, rv_candidate_id = 3, rv_last_log_index = 0, rv_last_log_term = 0 \<rparr> 8 s1 = Inr (SC_None, s2) \<and>
     responses s2 = [] \<and> persistence_work s2 = [] \<and> term_votes s2 3 = None"
proof -
  have "should_accept_vote 3 0 0 (sample_state 2)" "responses (sample_state 2) = []" "persistence_work (sample_state 2) = []"
    "term_votes (sample_state 2) = (\<lambda>_. None)"
    by (simp_all add: should_accept_vote_def sample_state_def create_shared_state_def empty_recovered_def
        create_volatile_state_def create_server_state_def)
  then show ?thesis
    using follower_vote_unrecorded [of "\<lparr> rv_term = 3, rv_candidate_id = 1, rv_last_log_index = 0, rv_last_log_term = 0 \<rparr>"
        "sample_state 2" "\<lparr> rv_term = 3, rv_candidate_id = 3, rv_last_log_index = 0, rv_last_log_term = 0 \<rparr>" 7 8]
    by fastforce
qed

end
