(* ===== verification/Durability.thy ===== *)
theory Durability
  imports Node_Safety
begin

text \<open>
  A node across restarts: its start-up from the two files (\<open>main.rs\<close>), its run,
  the persistence worker's pass over the tasks of the run, and the next start-up.
\<close>

section \<open>Start-up\<close>

definition create_persistence_worker :: "u8 list \<Rightarrow> u8 list \<Rightarrow> u64 list \<Rightarrow> PersistenceWorker" where
  "create_persistence_worker logf votesf offsets = new_persistence_worker logf votesf offsets"

text \<open>
  The part of \<open>main\<close> that reads the files, recovers the data and creates the state
  machine and the persistence worker; \<^const>\<open>None\<close> when the votes cannot be read.
\<close>

definition start_node ::
  "capnp \<Rightarrow> csv \<Rightarrow> env \<Rightarrow> (nat \<Rightarrow> bool) \<Rightarrow> (callback \<Rightarrow> bool) \<Rightarrow> nat \<Rightarrow> nat \<Rightarrow> u32 \<Rightarrow> usize \<Rightarrow> u8 list \<Rightarrow> u8 list \<Rightarrow>
     (Executor \<times> PersistenceWorker) option" where
  "start_node cp cv ev bus_answers alive workers cluster_nodes node_id max_size logf votesf =
     (let worker = create_persistence_worker logf votesf [] in
      Option.bind (read_votes cv worker) (\<lambda>votes.
        map_option (\<lambda>recovered.
            (new_executor ev
               (create_shared_state bus_answers alive recovered create_commit_state workers node_id
                  (cluster_quorum_size cluster_nodes) max_size),
             set_entry_end_offsets (rd_log_entry_end_offsets recovered) worker))
          (recover_persisted_data cp (read_log worker) votes)))"

section \<open>The files and the memory agree\<close>

text \<open>The rows of votes that the files hold give the votes in memory.\<close>

definition on_disk :: "csv \<Rightarrow> Executor \<Rightarrow> PersistenceWorker \<Rightarrow> bool" where
  "on_disk cv x w \<longleftrightarrow>
     persistence_work (shared_state x) = [] \<and>
     (\<exists>rows. stored cv (log_bytes (shared_state x), rows) w \<and> record_votes rows (\<lambda>_. None) = term_votes (shared_state x))"

lemma record_votes_append:
  "record_votes (rows @ rows') m = record_votes rows' (record_votes rows m)"
  by (simp add: record_votes_def)

lemma log_ok_readable: "log_ok cp L \<Longrightarrow> list_all (readable cp) (map as_bytes L)"
  by (simp add: log_ok_def list_all_length)

lemma map_as_bytes [simp]: "map (OwnedLogEntry \<circ> as_bytes) L = L"
  by (induction L) simp_all

text \<open>Starting from files that hold a well-formed log and the rows of the votes.\<close>

lemma start_node_recovers:
  assumes "csv_law cv" "log_ok cp L"
  obtains x w where
    "start_node cp cv ev b al k n node sz (concat (map as_bytes L)) (concat (map (csv_write_row cv) rows)) = Some (x, w)"
    "raft_log (shared_state x) = L" "term_votes (shared_state x) = record_votes rows (\<lambda>_. None)"
    "node_inv cp x" "on_disk cv x w"
proof -
  let ?votesf = "concat (map (csv_write_row cv) rows)"
  have rd: "csv_read_rows cv ?votesf = Some rows" using assms(1) by (simp add: csv_law_def)
  let ?li = "if L = [] then 0 else entry_index cp (last L)"
  have last: "?li = of_nat (length L - 1)"
    using assms(2) by (cases L rule: rev_cases) (auto simp: log_ok_def)
  have des: "deserialize_replication_log cp (concat (map as_bytes L)) =
      Some (L, term_starts_from cp 0 0 L (\<lambda>_. None), ?li, last_term cp L, end_offsets (map as_bytes L))"
    using deserialize_readable [OF log_ok_readable [OF assms(2)], of "[]"]
    by (auto simp: last_term_def last_map split: if_splits)
  obtain vm nxt where pv: "process_votes rows (last_term cp L) = (vm, nxt)" by fastforce
  then have vm: "vm = record_votes rows (\<lambda>_. None)" by (simp add: process_votes_def record_votes_def)
  let ?rd = "\<lparr> rd_replication_log = L, rd_term_start_index = term_starts_from cp 0 0 L (\<lambda>_. None),
      rd_last_log_index = ?li, rd_last_log_term = last_term cp L, rd_term_votes = vm, rd_next_term = nxt,
      rd_log_entry_end_offsets = end_offsets (map as_bytes L) \<rparr>"
  let ?x = "new_executor ev (create_shared_state b al ?rd create_commit_state k node (cluster_quorum_size n) sz)"
  let ?w = "new_persistence_worker (concat (map as_bytes L)) ?votesf (end_offsets (map as_bytes L))"
  have "start_node cp cv ev b al k n node sz (concat (map as_bytes L)) ?votesf = Some (?x, ?w)"
    using rd des pv by (simp add: start_node_def create_persistence_worker_def Let_def read_votes_def read_log_def new_persistence_worker_def
        recover_persisted_data_def set_entry_end_offsets_def)
  moreover have "node_inv cp ?x"
    using assms(2) last by (simp add: node_inv_def log_wf_def new_executor_def create_shared_state_def create_volatile_state_def)
  moreover have "on_disk cv ?x ?w"
    using vm by (auto simp: on_disk_def stored_def new_executor_def create_shared_state_def create_volatile_state_def
        holds_entries_def new_persistence_worker_def written_def log_bytes_def)
  ultimately show thesis
    using that vm by (simp add: new_executor_def create_shared_state_def create_volatile_state_def)
qed

text \<open>
  The passes of the worker, however the tasks of a run are divided among them, bring the
  files up to the memory.
\<close>

lemma passes_after_run:
  assumes "node_steps cp promise x y" "persistence_connected (shared_state x)" "on_disk cv x w"
    "concat tss = persistence_work (shared_state y)"
    "length (concat (log_bytes (shared_state x))) + appended_bytes (concat tss) < 2 ^ 64"
  obtains w' rows where "fold_res (\<lambda>ts. run_pass cv (Recv_Tasks ts)) tss w = Inr w'"
    "log_file w' = concat (log_bytes (shared_state y))" "votes_file w' = concat (map (csv_write_row cv) rows)"
    "record_votes rows (\<lambda>_. None) = term_votes (shared_state y)"
proof -
  from node_steps_logged [OF assms(1,2)] assms(3,4) have ts: "tasks_in_range (concat tss) (log_bytes (shared_state x))"
    "fold spec_task (concat tss) (log_bytes (shared_state x)) = log_bytes (shared_state y)"
    "record_votes (concat (map spec_vote (concat tss))) (term_votes (shared_state x)) = term_votes (shared_state y)"
    by (auto simp: logged_def on_disk_def)
  from assms(3) obtain rows where rows: "stored cv (log_bytes (shared_state x), rows) w"
    "record_votes rows (\<lambda>_. None) = term_votes (shared_state x)"
    by (auto simp: on_disk_def)
  have "admitted (concat tss) (log_bytes (shared_state x), rows)"
    using ts(1) assms(5) by (simp add: admitted_def)
  from log_files.passes_refine [OF rows(1) this] obtain w' where
    w': "fold_res (\<lambda>ts. run_pass cv (Recv_Tasks ts)) tss w = Inr w'"
      "stored cv (log_bytes (shared_state y), rows @ concat (map spec_vote (concat tss))) w'"
    by (auto simp only: fold_spec_files ts(2))
  show thesis
    using that [OF w'(1), of "rows @ concat (map spec_vote (concat tss))"] w'(2) rows(2) ts(3)
    by (simp add: stored_def record_votes_append)
qed

section \<open>Properties\<close>



end
