(* ===== verification/Node_Lifetime.thy ===== *)
theory Node_Lifetime
  imports Durability
begin

text \<open>
  The life of a node with its files: steps of the state machine, single tasks and flushes
  of the persistence worker in any interleaving with them, and stops at any moment between
  two of these, which lose the memory, the queue and the buffer, followed by a start from
  the files. What the votes file has recorded stays recorded. A row of votes is written
  whole or not at all.
\<close>

section \<open>Lives\<close>

type_synonym live_node = "Executor \<times> PersistenceWorker"

text \<open>
  The state machine relies on \<^const>\<open>votes_promise\<close>. A restart is not made at the end of the
  range of the terms, where the next term would wrap to 0.
\<close>

inductive node_life :: "capnp \<Rightarrow> csv \<Rightarrow> live_node \<Rightarrow> live_node \<Rightarrow> bool" for cp cv p where
  live: "node_life cp cv p p"
| step: "node_life cp cv p (x, w) \<Longrightarrow> votes_promise i x \<Longrightarrow> exec cp i x = Inr y \<Longrightarrow> node_life cp cv p (y, w)"
| task: "node_life cp cv p (x, w) \<Longrightarrow> persistence_work (shared_state x) = t # ts \<Longrightarrow>
    process_task cv BATCH_SIZE t w = Inr w' \<Longrightarrow>
    node_life cp cv p (x\<lparr>shared_state := (shared_state x)\<lparr>persistence_work := ts\<rparr>\<rparr>, w')"
| flush: "node_life cp cv p (x, w) \<Longrightarrow> node_life cp cv p (x, flush_pending_logs w)"
| restart: "node_life cp cv p (x, w) \<Longrightarrow>
    start_node cp cv ev bus_answers alive workers cluster_nodes node_id sz (log_file w) (votes_file w) = Some (x', w') \<Longrightarrow>
    next_term (vol (shared_state x')) \<noteq> 0 \<Longrightarrow> node_life cp cv p (x', w')"

text \<open>The votes that a start from the votes file would recover.\<close>

definition disk_votes :: "csv \<Rightarrow> PersistenceWorker \<Rightarrow> (u64 \<rightharpoonup> u32)" where
  "disk_votes cv w = (case read_votes cv w of None \<Rightarrow> (\<lambda>_. None) | Some rows \<Rightarrow> fst (process_votes rows 0))"

text \<open>
  The rows of the file and those on their way to it are for different terms, each of
  which has a vote in memory.
\<close>

definition votes_recorded :: "csv \<Rightarrow> live_node \<Rightarrow> bool" where
  "votes_recorded cv = (\<lambda>(x, w). \<exists>rows.
     votes_file w = concat (map (csv_write_row cv) rows) \<and>
     distinct (map vote_term (rows @ pending_votes (shared_state x))) \<and>
     vote_term ` set (rows @ pending_votes (shared_state x)) \<subseteq> dom (term_votes (shared_state x)) \<and>
     votes_fresh (shared_state x))"

section \<open>Lemmas\<close>

lemma disk_votes_rows:
  "csv_law cv \<Longrightarrow> votes_file w = concat (map (csv_write_row cv) rows) \<Longrightarrow> disk_votes cv w = record_votes rows (\<lambda>_. None)"
  by (simp add: disk_votes_def read_votes_def csv_law_def process_votes_def record_votes_def)

lemma record_votes_dom: "dom (record_votes rows m) = dom m \<union> vote_term ` set rows"
  by (induction rows arbitrary: m) auto

lemma record_votes_fresh: "vote_term ` set rows \<inter> dom m = {} \<Longrightarrow> distinct (map vote_term rows) \<Longrightarrow> m \<subseteq>\<^sub>m record_votes rows m"
proof (induction rows arbitrary: m)
  case (Cons v rows)
  have none: "m (vote_term u) = None" if "u \<in> set (v # rows)" for u
    using Cons.prems(1) that by (metis disjoint_iff domIff image_eqI)
  have "m \<subseteq>\<^sub>m m(vote_term v \<mapsto> vote_candidate_id v)"
    using none by (auto simp: map_le_def)
  also have "\<dots> \<subseteq>\<^sub>m record_votes rows (m(vote_term v \<mapsto> vote_candidate_id v))"
    using Cons.prems(2) none by (intro Cons.IH) (auto simp: image_iff split: if_splits)
  finally show ?case by simp
qed simp

text \<open>More rows for other terms only add votes.\<close>

lemma disk_votes_extended:
  assumes "csv_law cv" "votes_file w = concat (map (csv_write_row cv) rows)"
    "votes_file w' = concat (map (csv_write_row cv) (rows @ new))" "distinct (map vote_term (rows @ new))"
  shows "disk_votes cv w \<subseteq>\<^sub>m disk_votes cv w'"
proof -
  have "record_votes rows (\<lambda>_. None) \<subseteq>\<^sub>m record_votes new (record_votes rows (\<lambda>_. None))"
    by (rule record_votes_fresh) (use assms(4) in \<open>auto simp: record_votes_dom\<close>)
  then show ?thesis
    by (simp only: disk_votes_rows [OF assms(1,2)] disk_votes_rows [OF assms(1,3)] record_votes_append)
qed

lemma flush_votes [simp]: "votes_file (flush_pending_logs w) = votes_file w"
  by (simp add: flush_pending_logs_def flush_buffer_def Let_def)

lemma buf_write_votes [simp]: "votes_file (buf_write_all d w) = votes_file w"
  by (simp add: buf_write_all_def flush_buffer_def Let_def)

lemma process_task_votes:
  "process_task cv b t w = Inr w' \<Longrightarrow> votes_file w' = votes_file w @ concat (map (csv_write_row cv) (spec_vote t))"
  by (cases t) (auto simp: process_task_def persist_vote_def write_log_entry_def Let_def split: if_splits)

text \<open>What a start takes from the votes file.\<close>

lemma start_node_votes:
  assumes "start_node cp cv ev b al k n node sz logf votesf = Some (x, w)"
  obtains rows lt where "csv_read_rows cv votesf = Some rows" "votes_file w = votesf"
    "process_votes rows lt = (term_votes (shared_state x), next_term (vol (shared_state x)))"
    "pending_votes (shared_state x) = []"
proof -
  from assms obtain rows rd where r: "csv_read_rows cv votesf = Some rows" "recover_persisted_data cp logf rows = Some rd"
    "x = new_executor ev (create_shared_state b al rd create_commit_state k node (cluster_quorum_size n) sz)"
    "votes_file w = votesf"
    by (auto simp: start_node_def Let_def create_persistence_worker_def new_persistence_worker_def read_votes_def read_log_def
        set_entry_end_offsets_def bind_eq_Some_conv)
  from r(2) obtain lt where "process_votes rows lt = (rd_term_votes rd, rd_next_term rd)"
    unfolding recover_persisted_data_def Let_def split_beta by (auto simp: that)
  with r show thesis
    by (intro that [of rows lt])
       (simp_all add: new_executor_def create_shared_state_def create_volatile_state_def pending_votes_def)
qed

lemma start_node_recorded:
  assumes "csv_law cv" "start_node cp cv ev b al k n node sz logf (concat (map (csv_write_row cv) rows)) = Some (x, w)"
    and "distinct (map vote_term rows)" "next_term (vol (shared_state x)) \<noteq> 0"
  shows "votes_recorded cv (x, w)" "votes_file w = concat (map (csv_write_row cv) rows)"
proof -
  obtain rows' lt where r: "csv_read_rows cv (concat (map (csv_write_row cv) rows)) = Some rows'"
    "votes_file w = concat (map (csv_write_row cv) rows)"
    "process_votes rows' lt = (term_votes (shared_state x), next_term (vol (shared_state x)))"
    "pending_votes (shared_state x) = []"
    by (rule start_node_votes [OF assms(2)])
  then show "votes_file w = concat (map (csv_write_row cv) rows)" by simp
  have "rows' = rows" using r(1) assms(1) by (simp add: csv_law_def)
  note pv = r(3) [unfolded this]
  then have "max (highest_vote_term rows) lt \<noteq> u64_max"
    using assms(4) by (auto simp: process_votes_def)
  from recovered_next_term_fresh [OF pv this] have "votes_fresh (shared_state x)"
    "vote_term ` set rows \<subseteq> dom (term_votes (shared_state x))"
    by (auto simp: votes_fresh_def)
  then show "votes_recorded cv (x, w)"
    using r(2,4) assms(3) by (auto simp: votes_recorded_def)
qed

text \<open>One event of a life keeps the invariant and the votes of the file.\<close>

lemma step_recorded:
  assumes "votes_recorded cv (x, w)" "votes_promise i x" "exec cp i x = Inr y"
  shows "votes_recorded cv (y, w)"
proof -
  from assms(1) obtain rows where rows: "votes_file w = concat (map (csv_write_row cv) rows)"
    "distinct (map vote_term (rows @ pending_votes (shared_state x)))"
    "vote_term ` set (rows @ pending_votes (shared_state x)) \<subseteq> dom (term_votes (shared_state x))" "votes_fresh (shared_state x)"
    unfolding votes_recorded_def by auto
  from exec_votes [OF assms(2,3)] rows(4) have k: "votes_fresh (shared_state y)"
    "term_votes (shared_state x) \<subseteq>\<^sub>m term_votes (shared_state y)" "new_votes (shared_state x) (shared_state y)"
    by (simp_all add: keeps_votes_def)
  from k(3) obtain new where new: "pending_votes (shared_state y) = pending_votes (shared_state x) @ new"
    "distinct (map vote_term new)" "vote_term ` set new \<inter> dom (term_votes (shared_state x)) = {}"
    "vote_term ` set new \<subseteq> dom (term_votes (shared_state y))"
    unfolding new_votes_def by (elim exE conjE) (rule that)
  have sub: "vote_term ` set (rows @ pending_votes (shared_state x)) \<subseteq> dom (term_votes (shared_state y))"
    using rows(3) map_le_implies_dom_le [OF k(2)] by (rule subset_trans)
  have "vote_term ` set (rows @ pending_votes (shared_state x)) \<inter> vote_term ` set new = {}"
    using rows(3) new(3) by blast
  then have "distinct (map vote_term ((rows @ pending_votes (shared_state x)) @ new))"
    using rows(2) new(2) by (simp only: map_append [of _ _ new] distinct_append set_map simp_thms)
  moreover have "vote_term ` set ((rows @ pending_votes (shared_state x)) @ new) \<subseteq> dom (term_votes (shared_state y))"
    using sub new(4) by (simp only: set_append [of _ new] image_Un Un_subset_iff simp_thms)
  ultimately show ?thesis
    unfolding votes_recorded_def using rows(1) k(1) new(1)
    by (simp only: prod.case append_assoc) blast
qed

lemma task_recorded:
  assumes "csv_law cv" "votes_recorded cv (x, w)" "persistence_work (shared_state x) = t # ts"
    "process_task cv b t w = Inr w'"
  shows "votes_recorded cv (x\<lparr>shared_state := (shared_state x)\<lparr>persistence_work := ts\<rparr>\<rparr>, w')"
    "disk_votes cv w \<subseteq>\<^sub>m disk_votes cv w'"
proof -
  from assms(2) obtain rows where rows: "votes_file w = concat (map (csv_write_row cv) rows)"
    "distinct (map vote_term (rows @ pending_votes (shared_state x)))"
    "vote_term ` set (rows @ pending_votes (shared_state x)) \<subseteq> dom (term_votes (shared_state x))" "votes_fresh (shared_state x)"
    unfolding votes_recorded_def by auto
  have pend: "pending_votes (shared_state x) = spec_vote t @ concat (map spec_vote ts)"
    using assms(3) by (simp add: pending_votes_def)
  have rest: "pending_votes ((shared_state x)\<lparr>persistence_work := ts\<rparr>) = concat (map spec_vote ts)"
    by (simp add: pending_votes_def)
  have vfile: "votes_file w' = concat (map (csv_write_row cv) (rows @ spec_vote t))"
    using process_task_votes [OF assms(4)] rows(1) by simp
  show "votes_recorded cv (x\<lparr>shared_state := (shared_state x)\<lparr>persistence_work := ts\<rparr>\<rparr>, w')"
    unfolding votes_recorded_def prod.case
    using vfile rows(2,3) [unfolded pend] rows(4)
    by (intro exI [of _ "rows @ spec_vote t"]) (simp add: rest votes_fresh_def)
  show "disk_votes cv w \<subseteq>\<^sub>m disk_votes cv w'"
    by (rule disk_votes_extended [OF assms(1) rows(1) vfile])
       (use rows(2) [unfolded pend] in auto)
qed

lemma life_recorded:
  assumes "csv_law cv" "node_life cp cv (x, w) (y, w')" "votes_recorded cv (x, w)"
  shows "votes_recorded cv (y, w') \<and> disk_votes cv w \<subseteq>\<^sub>m disk_votes cv w'"
proof -
  have "votes_recorded cv q \<and> disk_votes cv w \<subseteq>\<^sub>m disk_votes cv (snd q)" if "node_life cp cv (x, w) q" for q
    using that
  proof induction
    case (step u v i z)
    then show ?case using step_recorded [of cv u v i cp z] by simp
  next
    case (task u v t ts v')
    then show ?case using task_recorded [OF assms(1)] map_le_trans by simp blast
  next
    case (flush u v)
    then show ?case by (simp add: votes_recorded_def disk_votes_def read_votes_def)
  next
    case (restart u v ev b al k n node sz z v')
    then obtain rows where "votes_file v = concat (map (csv_write_row cv) rows)" "distinct (map vote_term rows)"
      by (auto simp: votes_recorded_def)
    with start_node_recorded [OF assms(1), of cp ev b al k n node sz "log_file v" rows z v'] restart show ?case
      by (simp add: disk_votes_def read_votes_def)
  qed (use assms(3) in simp)
  from this [OF assms(2)] show ?thesis by simp
qed

text \<open>Two quorums of a cluster of odd size that record their votes of a term, at any two moments, vote for the same node.\<close>

lemma quorums_agree:
  assumes "csv_law cv" "n < 2 ^ 32" "odd n" "A \<subseteq> {..<n}" "B \<subseteq> {..<n}"
    and "unat (cluster_quorum_size n) \<le> card A" "unat (cluster_quorum_size n) \<le> card B"
    and "\<And>i. i < n \<Longrightarrow> node_life cp cv (early i) (late i)"
    and "\<And>i. i \<in> A \<Longrightarrow> disk_votes cv (snd (early i)) t = Some a \<and> votes_recorded cv (early i)"
    and "\<And>i. i \<in> B \<Longrightarrow> disk_votes cv (snd (late i)) t = Some b"
  shows "a = b"
proof -
  obtain i where i: "i \<in> A" "i \<in> B" using quorums_meet [OF assms(2-7)] by blast
  then have "i < n" using assms(4) by auto
  then have "disk_votes cv (snd (early i)) \<subseteq>\<^sub>m disk_votes cv (snd (late i))"
    using assms(8) life_recorded [OF assms(1), of cp "fst (early i)" "snd (early i)" "fst (late i)" "snd (late i)"] assms(9) [OF i(1)]
    by simp
  with assms(9) [OF i(1)] assms(10) [OF i(2)] show ?thesis by (metis domI map_le_def option.inject)
qed

section \<open>Properties\<close>


text \<open>
  A candidate that votes, whose worker writes the vote, and that crashes and starts again.
\<close>

definition sample_voter :: Executor where
  "sample_voter = sample_candidate\<lparr>shared_state := (sample_state 1)\<lparr>term_votes := [3 \<mapsto> 2],
     volatile_server_state := (vol (sample_state 1))\<lparr>next_term := 4\<rparr>\<rparr>\<rparr>"

definition sample_voted :: PersistenceWorker where
  "sample_voted = persist_vote sample_csv 3 2 (new_persistence_worker [] [] [])"

lemma sample_voted_votes: "disk_votes sample_csv sample_voted = [3 \<mapsto> 2]"
  by (subst disk_votes_rows [OF sample_csv_law, of _ "[\<lparr> vote_term = 3, vote_candidate_id = 2 \<rparr>]"])
     (simp_all add: sample_voted_def persist_vote_def new_persistence_worker_def)

lemma sample_voter_recorded: "votes_recorded sample_csv (sample_voter, sample_voted)"
proof -
  have "votes_file sample_voted = concat (map (csv_write_row sample_csv) [\<lparr> vote_term = 3, vote_candidate_id = 2 \<rparr>])"
    by (simp add: sample_voted_def persist_vote_def new_persistence_worker_def)
  then show ?thesis
    unfolding votes_recorded_def prod.case
    by (intro exI [of _ "[\<lparr> vote_term = 3, vote_candidate_id = 2 \<rparr>]"])
       (simp add: sample_voter_def pending_votes_def sample_state_def create_shared_state_def votes_fresh_def)
qed

lemma sample_restart:
  obtains z w where "start_node sample_capnp sample_csv sample_env (\<lambda>_. True) (\<lambda>_. True) 2 3 1 65536
      (log_file sample_voted) (votes_file sample_voted) = Some (z, w)"
    "node_life sample_capnp sample_csv (sample_voter, sample_voted) (z, w)"
proof -
  let ?row = "\<lparr> vote_term = 3, vote_candidate_id = 2 \<rparr>"
  have "csv_read_rows sample_csv (concat (map (csv_write_row sample_csv) [?row])) = Some [?row]"
    using sample_csv_law by (simp only: csv_law_def)
  then have rd: "csv_read_rows sample_csv (votes_file sample_voted) = Some [?row]" "log_file sample_voted = []"
    by (simp_all add: sample_voted_def persist_vote_def new_persistence_worker_def)
  obtain z w where start: "start_node sample_capnp sample_csv sample_env (\<lambda>_. True) (\<lambda>_. True) 2 3 1 65536
      (log_file sample_voted) (votes_file sample_voted) = Some (z, w)" "next_term (vol (shared_state z)) = 4"
    using rd by (simp add: start_node_def create_persistence_worker_def new_persistence_worker_def Let_def read_votes_def
        read_log_def recover_persisted_data_def deserialize_replication_log_def process_votes_def highest_vote_term_def
        new_executor_def create_shared_state_def create_volatile_state_def)
  show thesis
    by (rule that [OF start(1) node_life.restart [OF node_life.live start(1)]]) (simp add: start(2))
qed


end
