(* ===== verification/Tally.thy ===== *)
theory Tally
  imports Node_Lifetime
begin

text \<open>
  What a node counts. An outstanding message of a candidate or a leader counts the
  votes or the acknowledgements of the other nodes. The count never exceeds the
  responses that the other nodes' workers delivered for the message: shown here for
  the responses and the time steps of a follower and a candidate.
\<close>

section \<open>Counting responses\<close>

text \<open>What a message counts: whether it is an election, whether it is persisted, and the count.\<close>

fun counted :: "OutstandingMessageType \<Rightarrow> (bool \<times> bool \<times> nat) option" where
  "counted (OM_CandidateElection pd votes) = Some (True, pd, unat votes)"
| "counted (OM_WriteBatch pd acks _ _ _) = Some (False, pd, unat acks)"
| "counted (OM_NoOp pd acks _) = Some (False, pd, unat acks)"
| "counted _ = None"

text \<open>The responses that may be counted for message \<open>i\<close>, and the report that it is persisted.\<close>

fun supports :: "bool \<Rightarrow> u64 \<Rightarrow> LocalQuorumTaskResponseType \<Rightarrow> bool" where
  "supports election i (QR_RequestVoteResponse j _ vote) \<longleftrightarrow> election \<and> j = i \<and> vote"
| "supports election i (QR_AppendEntries j _) \<longleftrightarrow> \<not> election \<and> j = i"
| "supports election i _ \<longleftrightarrow> False"

fun reports :: "bool \<Rightarrow> u64 \<Rightarrow> PersistenceResponseType \<Rightarrow> bool" where
  "reports election i (PR_VotePersisted j _ _) \<longleftrightarrow> election \<and> j = i"
| "reports election i (PR_LogPersisted j) \<longleftrightarrow> \<not> election \<and> j = i"

definition support :: "bool \<Rightarrow> u64 \<Rightarrow> LocalQuorumTaskResponseType list \<Rightarrow> nat" where
  "support election i rs = length (filter (supports election i) rs)"

text \<open>A candidate counts its own vote from the start, a leader does not count itself.\<close>

definition own :: "bool \<Rightarrow> nat" where
  "own election = (if election then 1 else 0)"

text \<open>
  The counts of the messages \<open>om\<close> are covered by the responses \<open>D\<close> delivered so far, of
  which \<open>qs\<close> have not been handled yet, and the persisted ones by the reports \<open>P\<close>.
\<close>

definition tally_ok ::
  "PersistenceResponseType list \<Rightarrow> LocalQuorumTaskResponseType list \<Rightarrow> LocalQuorumTaskResponseType list \<Rightarrow>
     (u64 \<rightharpoonup> OutstandingMessage) \<Rightarrow> bool" where
  "tally_ok P D qs om \<longleftrightarrow>
     (\<forall>e i. support e i qs \<le> support e i D) \<and>
     (\<forall>i msg e pd n. om i = Some msg \<longrightarrow> counted (message_type msg) = Some (e, pd, n) \<longrightarrow>
        n + support e i qs \<le> own e + support e i D \<and> (pd \<longrightarrow> (\<exists>r \<in> set P. reports e i r)))"

definition tally_inv ::
  "PersistenceResponseType list \<Rightarrow> LocalQuorumTaskResponseType list \<Rightarrow> SharedState \<Rightarrow> bool" where
  "tally_inv P D s \<longleftrightarrow>
     set (persistence_response s) \<subseteq> set P \<and> set (quorum_response s) \<subseteq> set D \<and>
     tally_ok P D (quorum_response s) (outstanding_messages s)"

lemma support_simps [simp]:
  "support e i [] = 0"
  "support e i (q # qs) = (if supports e i q then 1 else 0) + support e i qs"
  "support e i (qs @ qs') = support e i qs + support e i qs'"
  by (simp_all add: support_def)

lemma tally_okD:
  assumes "tally_ok P D qs om" "om i = Some msg" "counted (message_type msg) = Some (e, pd, n)"
  shows "n + support e i qs \<le> own e + support e i D" "pd \<Longrightarrow> \<exists>r \<in> set P. reports e i r"
  using assms unfolding tally_ok_def by blast+

lemma tally_okI:
  assumes "\<And>e i. support e i qs \<le> support e i D"
    and "\<And>i msg e pd n. om i = Some msg \<Longrightarrow> counted (message_type msg) = Some (e, pd, n) \<Longrightarrow>
      n + support e i qs \<le> own e + support e i D \<and> (pd \<longrightarrow> (\<exists>r \<in> set P. reports e i r))"
  shows "tally_ok P D qs om"
  using assms unfolding tally_ok_def by blast

lemma tally_le: "tally_ok P D qs om \<Longrightarrow> support e i qs \<le> support e i D"
  by (simp add: tally_ok_def)

lemma tally_drop: "tally_ok P D qs om \<Longrightarrow> tally_ok P D (drop n qs) om"
proof (rule tally_okI)
  fix e i
  assume ok: "tally_ok P D qs om"
  have le: "support e i (drop n qs) \<le> support e i qs" for e i
    using support_simps(3) [of e i "take n qs" "drop n qs"] by simp
  with ok show "support e i (drop n qs) \<le> support e i D" by (meson order_trans tally_le)
  fix msg pd m
  assume "om i = Some msg" "counted (message_type msg) = Some (e, pd, m)"
  with tally_okD [OF ok] le [of e i]
  show "m + support e i (drop n qs) \<le> own e + support e i D \<and> (pd \<longrightarrow> (\<exists>r \<in> set P. reports e i r))"
    by fastforce
qed

lemma tally_pop: "tally_ok P D (q # qs) om \<Longrightarrow> tally_ok P D qs om"
  using tally_drop [of P D "q # qs" om 1] by simp

lemma tally_remove: "tally_ok P D qs om \<Longrightarrow> tally_ok P D qs (om(i := None))"
  unfolding tally_ok_def by (metis fun_upd_apply option.distinct(1))

text \<open>A new message counts nothing but a candidate's own vote and is not persisted.\<close>

definition uncounted :: "OutstandingMessageType \<Rightarrow> bool" where
  "uncounted m \<longleftrightarrow> (case counted m of None \<Rightarrow> True | Some (e, pd, n) \<Rightarrow> n \<le> own e \<and> \<not> pd)"

lemma tally_insert_new:
  assumes "tally_ok P D qs om" "uncounted (message_type m)"
  shows "tally_ok P D qs (om(i \<mapsto> m))"
proof (rule tally_okI)
  fix e j msg pd n
  show "support e j qs \<le> support e j D" by (rule tally_le [OF assms(1)])
  assume "(om(i \<mapsto> m)) j = Some msg" "counted (message_type msg) = Some (e, pd, n)"
  with tally_okD [OF assms(1), of j msg] tally_le [OF assms(1), of e j] assms(2)
  show "n + support e j qs \<le> own e + support e j D \<and> (pd \<longrightarrow> (\<exists>r \<in> set P. reports e j r))"
    by (cases "j = i") (auto simp: uncounted_def)
qed

text \<open>A message that is counted up by a response, or marked as persisted by a report.\<close>

lemma tally_update:
  assumes "tally_ok P D (qs' @ qs) om" "om i = Some m" "counted (message_type m) = Some (e, pd, n)"
    and "counted (message_type m') = Some (e, pd', n')" "n' \<le> n + support e i qs'"
    and "pd' \<Longrightarrow> pd \<or> (\<exists>r \<in> set P. reports e i r)"
  shows "tally_ok P D qs (om(i \<mapsto> m'))"
proof -
  have ok: "tally_ok P D qs om" using tally_drop [OF assms(1), of "length qs'"] by simp
  show ?thesis
  proof (rule tally_okI)
    fix f j msg pdj nj
    show "support f j qs \<le> support f j D" by (rule tally_le [OF ok])
    assume j: "(om(i \<mapsto> m')) j = Some msg" "counted (message_type msg) = Some (f, pdj, nj)"
    show "nj + support f j qs \<le> own f + support f j D \<and> (pdj \<longrightarrow> (\<exists>r \<in> set P. reports f j r))"
    proof (cases "j = i")
      case True
      with j assms(4) have "f = e" "pdj = pd'" "nj = n'" by auto
      with True tally_okD [OF assms(1-3)] assms(5,6) show ?thesis by auto
    next
      case False
      with j tally_okD [OF ok, of j msg] show ?thesis by auto
    qed
  qed
qed

section \<open>The responses of one time step\<close>

lemma outstanding_simps [simp]:
  "outstanding_messages (insert_outstanding i m s) = (outstanding_messages s)(i \<mapsto> m)"
  "outstanding_messages (remove_outstanding i s) = (outstanding_messages s)(i := None)"
  "outstanding_messages (become_leader t s) = outstanding_messages s"
  "outstanding_messages (push_all_quorum k s) = outstanding_messages s"
  "outstanding_messages (push_quorum n k s) = outstanding_messages s"
  "outstanding_messages (snd (persistence_send pt s)) = outstanding_messages s"
  by (simp_all add: insert_outstanding_def remove_outstanding_def become_leader_def push_all_quorum_def push_quorum_def
      persistence_send_def)

lemma advance_commit_outstanding [simp]: "outstanding_messages (advance_commit n s) = outstanding_messages s"
  by (simp add: advance_commit_def)

lemma complete_write_batch_outstanding:
  "complete_write_batch cp n cb s = Inr s' \<Longrightarrow> outstanding_messages s' = outstanding_messages s"
  by (auto simp: complete_write_batch_def Let_def)

lemma follower_persistence_tally:
  assumes "tally_ok P D qs (outstanding_messages s)" "follower_persistence_response r s = Inr s'"
  shows "tally_ok P D qs (outstanding_messages s')"
  using assms tally_remove
  by (auto simp: follower_persistence_response_def follower_log_persisted_def follower_vote_persisted_def Let_def
      send_callback_unwrap_Inr split: PersistenceResponseType.splits option.splits OutstandingMessageType.splits)

lemma unat_inc_le: "unat ((v :: u32) + 1) \<le> unat v + 1"
  by (metis Suc_eq_plus1 nat_le_linear unatSuc unat_0 add.commute le_SucI zero_le)

lemma leader_persistence_tally:
  assumes "tally_ok P D qs (outstanding_messages s)" "r \<in> set P" "leader_persistence_response cp r s = Inr s'"
  shows "tally_ok P D qs (outstanding_messages s')"
proof (cases r)
  case (PR_VotePersisted i t c)
  with assms tally_remove show ?thesis
    by (auto simp: leader_persistence_response_def leader_vote_persisted_def Let_def
        split: option.splits OutstandingMessageType.splits)
next
  case (PR_LogPersisted i)
  show ?thesis
  proof (cases "outstanding_messages s i")
    case None
    with assms PR_LogPersisted show ?thesis by (auto simp: leader_persistence_response_def leader_log_persisted_def)
  next
    case (Some msg)
    have rep: "\<exists>r \<in> set P. reports False i r" using assms(2) PR_LogPersisted by (intro bexI [of _ r]) simp
    note upd = tally_update [of P D "[]" qs "outstanding_messages s" i msg False _ _ _ True, simplified, OF assms(1) Some _ _ _ disjI2 [OF rep]]
    show ?thesis
      using assms(3) PR_LogPersisted Some tally_remove [OF assms(1)]
      by (cases "message_type msg")
         (auto simp: leader_persistence_response_def leader_log_persisted_def Let_def complete_noop_def
           dest!: complete_write_batch_outstanding split: if_splits intro!: upd)
  qed
qed

lemma leader_quorum_tally:
  assumes "tally_ok P D (q # qs) (outstanding_messages s)" "leader_quorum_response cp q s = Inr s'"
  shows "tally_ok P D qs (outstanding_messages s')"
proof (cases q)
  case (QR_AppendEntries i n)
  show ?thesis
  proof (cases "outstanding_messages s i")
    case None
    with assms tally_pop [OF assms(1)] QR_AppendEntries show ?thesis
      by (auto simp: leader_quorum_response_def handle_append_entries_response_def)
  next
    case (Some msg)
    note upd = tally_update [of P D "[q]" qs "outstanding_messages s" i msg False, simplified, OF assms(1) Some]
    show ?thesis
      using assms(2) QR_AppendEntries Some tally_remove [OF tally_pop [OF assms(1)]] unat_inc_le
      by (cases "message_type msg")
         (auto simp: leader_quorum_response_def handle_append_entries_response_def Let_def complete_noop_def
           dest!: complete_write_batch_outstanding split: if_splits intro!: upd)
  qed
qed (use assms tally_pop [OF assms(1)] in \<open>auto simp: leader_quorum_response_def\<close>)

text \<open>
  An election is won on message \<open>i\<close> in term \<open>t\<close>: the node's own vote is persisted and,
  with its own, a quorum of votes was delivered for the message.
\<close>

definition won ::
  "PersistenceResponseType list \<Rightarrow> LocalQuorumTaskResponseType list \<Rightarrow> u32 \<Rightarrow> u64 \<Rightarrow> u64 \<Rightarrow> bool" where
  "won P D q i t \<longleftrightarrow>
     (\<exists>r \<in> set P. reports True i r) \<and> unat q \<le> 1 + support True i D \<and>
     ((\<exists>c. PR_VotePersisted i t c \<in> set P) \<or> (\<exists>v. QR_RequestVoteResponse i t v \<in> set D))"

definition elected_in ::
  "PersistenceResponseType list \<Rightarrow> LocalQuorumTaskResponseType list \<Rightarrow> SharedState \<Rightarrow> SharedState \<Rightarrow> bool" where
  "elected_in P D s s' \<longleftrightarrow>
     (\<exists>i t. won P D (quorum_size s) i t \<and> server_state s' = \<lparr> current_term = t, leader_id = identity s \<rparr>)"

text \<open>What the responses of a candidate leave in place.\<close>

definition same_node :: "SharedState \<Rightarrow> SharedState \<Rightarrow> bool" where
  "same_node s s' \<longleftrightarrow> identity s' = identity s \<and> quorum_size s' = quorum_size s"

lemma elected_inI:
  assumes "\<exists>r \<in> set P. reports True i r" "unat q \<le> 1 + support True i D" "q = quorum_size s"
    and "(\<exists>c. PR_VotePersisted i t c \<in> set P) \<or> (\<exists>v. QR_RequestVoteResponse i t v \<in> set D)"
  shows "elected_in P D s (become_leader t (remove_outstanding i s))"
  unfolding elected_in_def won_def
  by (intro exI [of _ i] exI [of _ t] conjI assms(1,4) assms(2) [unfolded assms(3)])
     (simp add: become_leader_def remove_outstanding_def)

lemma same_node_simps [simp]:
  "same_node s s" "same_node s (remove_outstanding i s)" "same_node s (insert_outstanding j m (remove_outstanding i s))"
  "same_node s (send_callback cb r (remove_outstanding i s))" "same_node s (become_leader t (remove_outstanding i s))"
  by (simp_all add: same_node_def remove_outstanding_def insert_outstanding_def become_leader_def)

lemma queue_simps [simp]:
  "quorum_response (remove_outstanding i s) = quorum_response s"
  "quorum_response (insert_outstanding i m s) = quorum_response s"
  "quorum_response (become_leader t s) = quorum_response s"
  "persistence_response (remove_outstanding i s) = persistence_response s"
  "persistence_response (insert_outstanding i m s) = persistence_response s"
  "persistence_response (become_leader t s) = persistence_response s"
  by (simp_all add: remove_outstanding_def insert_outstanding_def become_leader_def)

lemma tally_inv_removed:
  assumes "tally_inv P D s"
  shows "tally_inv P D (remove_outstanding i s)" "tally_inv P D (send_callback cb r (remove_outstanding i s))"
    "tally_inv P D (become_leader t (remove_outstanding i s))"
  using assms tally_remove by (simp_all add: tally_inv_def)

lemma candidate_persistence_tally:
  assumes "tally_inv P D s" "r \<in> set P" "candidate_persistence_response r s = Inr (b, s')"
  shows "tally_inv P D s' \<and> same_node s s' \<and> (b \<longrightarrow> elected_in P D s s') \<and>
    persistence_response s' = persistence_response s"
proof (cases r)
  case (PR_LogPersisted i)
  with assms tally_inv_removed [OF assms(1)] show ?thesis
    by (auto simp: candidate_persistence_response_def candidate_log_persisted_def Let_def
        send_callback_unwrap_Inr split: option.splits OutstandingMessageType.splits)
next
  case (PR_VotePersisted i t c)
  have ok: "tally_ok P D (quorum_response s) (outstanding_messages s)" using assms(1) by (simp add: tally_inv_def)
  have rep: "\<exists>r \<in> set P. reports True i r" using assms(2) PR_VotePersisted by (intro bexI [of _ r]) simp
  from assms(3) PR_VotePersisted have r: "candidate_vote_persisted i t s = (b, s')"
    by (simp add: candidate_persistence_response_def)
  show ?thesis
  proof (cases "outstanding_messages s i")
    case None
    with assms(1) r show ?thesis by (simp add: candidate_vote_persisted_def)
  next
    case (Some msg)
    show ?thesis
    proof (cases "\<exists>pd v. message_type msg = OM_CandidateElection pd v")
      case True
      then obtain pd v where m: "message_type msg = OM_CandidateElection pd v" by blast
      have v: "unat v \<le> 1 + support True i D"
        using tally_okD(1) [OF ok Some, of True pd "unat v"] m by (simp add: own_def)
      let ?m = "msg\<lparr>outstanding_responses := outstanding_responses msg - 1, message_type := OM_CandidateElection True v\<rparr>"
      have "tally_ok P D (quorum_response s) ((outstanding_messages s)(i \<mapsto> ?m))"
        by (rule tally_update [of P D "[]" _ _ i msg True pd "unat v" _ True "unat v"]) (use ok Some m rep in simp_all)
      then have upd: "tally_inv P D (insert_outstanding i ?m (remove_outstanding i s))"
        using assms(1) by (simp add: tally_inv_def)
      have win: "elected_in P D s (become_leader t (remove_outstanding i s))" if "quorum_size s \<le> v"
        by (rule elected_inI [OF rep _ refl]) (use v that assms(2) PR_VotePersisted in \<open>auto simp: word_le_nat_alt\<close>)
      show ?thesis
        using r Some m upd win tally_inv_removed(3) [OF assms(1)]
        by (auto simp: candidate_vote_persisted_def Let_def simp del: fun_upd_apply split: if_splits)
    next
      case False
      with r Some tally_inv_removed [OF assms(1)] show ?thesis
        by (auto simp: candidate_vote_persisted_def Let_def split: OutstandingMessageType.splits)
    qed
  qed
qed

lemma candidate_quorum_tally:
  assumes "tally_ok P D (q # quorum_response s) (outstanding_messages s)" "q \<in> set D" "set (quorum_response s) \<subseteq> set D"
    "set (persistence_response s) \<subseteq> set P" "candidate_quorum_response q s = Inr (b, s')"
  shows "tally_inv P D s' \<and> same_node s s' \<and> (b \<longrightarrow> elected_in P D s s') \<and> quorum_response s' = quorum_response s"
proof -
  have inv: "tally_inv P D s" using assms(3,4) tally_pop [OF assms(1)] by (simp add: tally_inv_def)
  show ?thesis
  proof (cases "\<exists>i t vote msg pd v. q = QR_RequestVoteResponse i t vote \<and> outstanding_messages s i = Some msg \<and>
      message_type msg = OM_CandidateElection pd v")
    case True
    then obtain i t vote msg pd v where q: "q = QR_RequestVoteResponse i t vote" "outstanding_messages s i = Some msg"
      "message_type msg = OM_CandidateElection pd v" by blast
    let ?v = "if vote then v + 1 else v"
    have v: "unat ?v \<le> 1 + support True i D" "pd \<Longrightarrow> \<exists>r \<in> set P. reports True i r"
      using tally_okD [OF assms(1) q(2), of True pd "unat v"] q(1,3) unat_inc_le [of v] by (auto simp: own_def)
    let ?m = "msg\<lparr>outstanding_responses := outstanding_responses msg - 1, message_type := OM_CandidateElection pd ?v\<rparr>"
    have "tally_ok P D (quorum_response s) ((outstanding_messages s)(i \<mapsto> ?m))"
      by (rule tally_update [of P D "[q]" _ _ i msg True pd "unat v" _ pd "unat ?v"])
         (use assms(1) q unat_inc_le [of v] in auto)
    then have upd: "tally_inv P D (insert_outstanding i ?m (remove_outstanding i s))"
      using inv by (simp add: tally_inv_def)
    have win: "elected_in P D s (become_leader t (remove_outstanding i s))" if "quorum_size s \<le> ?v" pd
      by (rule elected_inI [OF v(2) [OF that(2)] _ refl])
         (use v(1) that assms(2) q(1) in \<open>auto simp: word_le_nat_alt\<close>)
    show ?thesis
    proof (cases "quorum_size s \<le> ?v \<and> pd")
      case True
      with assms(5) q have "b" "s' = become_leader t (remove_outstanding i s)"
        by (auto simp: candidate_quorum_response_def candidate_vote_response_def Let_def remove_outstanding_def)
      with True win tally_inv_removed(3) [OF inv] show ?thesis by auto
    next
      case False
      with assms(5) q have "\<not> b" "s' = insert_outstanding i ?m (remove_outstanding i s) \<or> s' = remove_outstanding i s"
        by (auto simp: candidate_quorum_response_def candidate_vote_response_def Let_def remove_outstanding_def split: if_splits)
      with upd tally_inv_removed(1) [OF inv] show ?thesis by auto
    qed
  next
    case False
    with assms(5) tally_inv_removed [OF inv] inv show ?thesis
      by (auto simp: candidate_quorum_response_def candidate_vote_response_def Let_def send_callback_unwrap_Inr
          split: LocalQuorumTaskResponseType.splits option.splits OutstandingMessageType.splits)
  qed
qed

section \<open>Time steps\<close>

lemma elected_in_same: "same_node s t \<Longrightarrow> elected_in P D t s' \<Longrightarrow> elected_in P D s s'"
  by (simp add: same_node_def elected_in_def)

lemma same_node_trans: "same_node s t \<Longrightarrow> same_node t u \<Longrightarrow> same_node s u"
  by (simp add: same_node_def)

lemma same_node_queues [simp]:
  "same_node (s\<lparr>persistence_response := ps\<rparr>) s' = same_node s s'"
  "same_node (s\<lparr>quorum_response := qs\<rparr>) s' = same_node s s'"
  "elected_in P D (s\<lparr>persistence_response := ps\<rparr>) s' = elected_in P D s s'"
  "elected_in P D (s\<lparr>quorum_response := qs\<rparr>) s' = elected_in P D s s'"
  by (simp_all add: same_node_def elected_in_def)

lemma candidate_persistence_loop_tally:
  assumes "candidate_persistence_loop rs w s = Inr (b, w', s')" "set rs \<subseteq> set P" "tally_inv P D s"
  shows "tally_inv P D s' \<and> same_node s s' \<and> (b \<longrightarrow> elected_in P D s s')"
  using assms
proof (induction rs arbitrary: w s)
  case (Cons r rs)
  then obtain b1 s1 where r: "candidate_persistence_response r (s\<lparr>persistence_response := rs\<rparr>) = Inr (b1, s1)"
    and rest: "(if b1 then Inr (True, w + 1, s1) else candidate_persistence_loop rs (w + 1) s1) = Inr (b, w', s')"
    by auto
  have "tally_inv P D (s\<lparr>persistence_response := rs\<rparr>)" "r \<in> set P" using Cons.prems(2,3) by (auto simp: tally_inv_def)
  from candidate_persistence_tally [OF this r]
  have s1: "tally_inv P D s1" "same_node s s1" "b1 \<longrightarrow> elected_in P D s s1" by simp_all
  show ?case
  proof (cases b1)
    case False
    with rest Cons.IH [of "w + 1" s1] Cons.prems(2) s1(1)
    have "tally_inv P D s' \<and> same_node s1 s' \<and> (b \<longrightarrow> elected_in P D s1 s')" by simp
    with s1(2) same_node_trans elected_in_same show ?thesis by blast
  qed (use rest s1 in simp)
qed (simp add: same_node_def)

lemma candidate_quorum_loop_tally:
  assumes "candidate_quorum_loop qs w s = Inr (b, w', s')" "set qs \<subseteq> set D" "set (persistence_response s) \<subseteq> set P"
    "tally_ok P D qs (outstanding_messages s)"
    "qs = quorum_response s"
  shows "tally_inv P D s' \<and> same_node s s' \<and> (b \<longrightarrow> elected_in P D s s')"
  using assms
proof (induction qs arbitrary: w s)
  case Nil
  then show ?case by (simp add: tally_inv_def same_node_def)
next
  case (Cons q qs)
  from Cons.prems(1) obtain b1 s1 where r: "candidate_quorum_response q (s\<lparr>quorum_response := qs\<rparr>) = Inr (b1, s1)"
    and rest: "(if b1 then Inr (True, w + 1, s1) else candidate_quorum_loop qs (w + 1) s1) = Inr (b, w', s')"
    by auto
  have "tally_inv P D s1 \<and> same_node (s\<lparr>quorum_response := qs\<rparr>) s1 \<and>
      (b1 \<longrightarrow> elected_in P D (s\<lparr>quorum_response := qs\<rparr>) s1) \<and> quorum_response s1 = quorum_response (s\<lparr>quorum_response := qs\<rparr>)"
    by (rule candidate_quorum_tally [OF _ _ _ _ r]) (use Cons.prems(2-4) in simp_all)
  then have s1: "tally_inv P D s1" "same_node s s1" "b1 \<longrightarrow> elected_in P D s s1" "quorum_response s1 = qs" by simp_all
  show ?case
  proof (cases b1)
    case False
    with rest have "candidate_quorum_loop qs (w + 1) s1 = Inr (b, w', s')" by simp
    then have "tally_inv P D s' \<and> same_node s1 s' \<and> (b \<longrightarrow> elected_in P D s1 s')"
      by (rule Cons.IH) (use s1(1,4) in \<open>simp_all add: tally_inv_def\<close>)
    with s1(2) same_node_trans elected_in_same show ?thesis by blast
  qed (use rest s1 in simp)
qed

lemma tally_inv_core:
  assumes "core s' = core s"
  shows "tally_inv P D s' = tally_inv P D s"
  using core_eqD [OF assms] by (simp add: tally_inv_def)

lemma initiate_election_tally:
  assumes "tally_inv P D s"
  shows "tally_inv P D (initiate_election s)"
proof -
  let ?m = "\<lparr> om_id = next_message_id s, outstanding_responses = int (length (quorum_worker_tasks s)) + 1,
      message_type = OM_CandidateElection False 1 \<rparr>"
  have "outstanding_messages (initiate_election s) = (outstanding_messages s)(next_message_id s \<mapsto> ?m)"
    "quorum_response (initiate_election s) = quorum_response s"
    "persistence_response (initiate_election s) = persistence_response s"
    by (simp_all add: initiate_election_def persistence_send_def push_all_quorum_def Let_def split_beta)
  with assms tally_insert_new [of P D "quorum_response s" "outstanding_messages s" ?m "next_message_id s"] show ?thesis
    by (simp add: tally_inv_def uncounted_def own_def)
qed

lemma candidate_time_step_tally:
  assumes "candidate_time_step ev ev' (k, s) = Inr (c, w, k', s')" "tally_inv P D s"
  shows "tally_inv P D s' \<and> ((\<exists>l. c = SC_Leader l) \<longrightarrow> elected_in P D s s')"
proof -
  from assms(1) obtain b1 w1 s1 where s1: "candidate_persistence_loop (persistence_response s) 0 s = Inr (b1, w1, s1)"
    and rest: "(if b1 then Inr (SC_Leader (new_leader ev), w1, k, s1) else
         bind_res (candidate_quorum_loop (quorum_response s1) w1 s1) (\<lambda>(elected2, work2, s2).
           if elected2 then Inr (SC_Leader (new_leader ev), work2, k, s2)
           else
             let (started, d', s3) = candidate_check_election ev ev' (k, s2);
                 (count, s4) = retry_deferred_broadcast s3 in
             Inr (SC_None, work2 + started + count, d', s4))) = Inr (c, w, k', s')"
    by (auto simp: candidate_time_step_def)
  have t1: "tally_inv P D s1" "same_node s s1" "b1 \<longrightarrow> elected_in P D s s1"
    using candidate_persistence_loop_tally [OF s1 _ assms(2)] assms(2) by (simp_all add: tally_inv_def)
  show ?thesis
  proof (cases b1)
    case False
    with rest obtain p where p: "candidate_quorum_loop (quorum_response s1) w1 s1 = Inr p"
      "(case p of (elected2, work2, s2) \<Rightarrow>
           if elected2 then Inr (SC_Leader (new_leader ev), work2, k, s2)
           else
             let (started, d', s3) = candidate_check_election ev ev' (k, s2);
                 (count, s4) = retry_deferred_broadcast s3 in
             Inr (SC_None, work2 + started + count, d', s4)) = (Inr (c, w, k', s') :: _ result)"
      by auto
    obtain b2 w2 s2 where "p = (b2, w2, s2)" by (cases p)
    note s2 = p(1) [unfolded this] and rest2 = p(2) [unfolded this prod.case]
    have t2: "tally_inv P D s2" "b2 \<longrightarrow> elected_in P D s s2"
    proof -
      have "tally_inv P D s2 \<and> same_node s1 s2 \<and> (b2 \<longrightarrow> elected_in P D s1 s2)"
        by (rule candidate_quorum_loop_tally [OF s2 _ _ _ refl]) (use t1(1) in \<open>simp_all add: tally_inv_def\<close>)
      then show "tally_inv P D s2" "b2 \<longrightarrow> elected_in P D s s2" using elected_in_same [OF t1(2)] by blast+
    qed
    show ?thesis
    proof (cases b2)
      case False
      with rest2 have "s' = snd (retry_deferred_broadcast s2) \<or> s' = snd (retry_deferred_broadcast (initiate_election s2))"
        "c = SC_None"
        by (simp_all add: candidate_check_election_def Let_def split_beta split: if_splits)
      with t2(1) initiate_election_tally [OF t2(1)] show ?thesis
        by (auto simp: tally_inv_core [OF retry_deferred_broadcast_core])
    qed (use rest2 t2 in auto)
  qed (use rest t1 in auto)
qed

lemma follower_persistence_frame:
  "follower_persistence_response r s = Inr s' \<Longrightarrow> persistence_response s' = persistence_response s"
  by (auto simp: follower_persistence_response_def follower_log_persisted_def follower_vote_persisted_def Let_def
      send_callback_unwrap_Inr split: PersistenceResponseType.splits option.splits OutstandingMessageType.splits)

lemma follower_quorum_frame:
  "outstanding_messages (follower_quorum_response q s) = outstanding_messages s"
  "persistence_response (follower_quorum_response q s) = persistence_response s"
  "quorum_response (follower_quorum_response q s) = quorum_response s"
  by (simp_all add: follower_quorum_response_def truncate_log_def persistence_send_def Let_def
      split: LocalQuorumTaskResponseType.split)

lemma follower_time_step_tally:
  assumes "follower_time_step ev (d, s) = Inr (c, w, d', s')" "tally_inv P D s"
  shows "tally_inv P D s'"
proof -
  from assms(1) obtain s1 where s1: "follower_drain_persistence s = Inr s1"
    and s': "s' = snd (retry_deferred_broadcast (follower_drain_quorum s1))"
    by (auto simp: follower_time_step_def Let_def split_beta check_timeout_def split: option.splits if_splits)
  let ?I = "\<lambda>t. persistence_response t = [] \<and> quorum_response t = quorum_response s \<and>
    tally_ok P D (quorum_response s) (outstanding_messages t)"
  have step: "?I t'" if "?I t" "follower_persistence_response r t = Inr t'" for r t t'
    using that(1) follower_persistence_tally [OF _ that(2), of P D "quorum_response s"]
    by (simp add: follower_persistence_response_queue [OF that(2)] follower_persistence_frame [OF that(2)])
  have "?I (s\<lparr>persistence_response := []\<rparr>)" using assms(2) by (simp add: tally_inv_def)
  moreover have "fold_res follower_persistence_response (persistence_response s) (s\<lparr>persistence_response := []\<rparr>) = Inr s1"
    using s1 by (simp only: follower_drain_persistence_def)
  ultimately have "?I s1"
    by (rule fold_res_invariant [where P = ?I, rotated]) (rule step)
  moreover have "outstanding_messages (fold follower_quorum_response qs t) = outstanding_messages t \<and>
      persistence_response (fold follower_quorum_response qs t) = persistence_response t \<and>
      quorum_response (fold follower_quorum_response qs t) = quorum_response t" for qs t
    by (induction qs arbitrary: t) (simp_all add: follower_quorum_frame)
  ultimately have "tally_inv P D (follower_drain_quorum s1)"
    using tally_drop [of P D "quorum_response s" "outstanding_messages s1" "length (quorum_response s)"]
    by (simp add: follower_drain_quorum_def tally_inv_def)
  then show ?thesis by (simp add: s' tally_inv_core [OF retry_deferred_broadcast_core])
qed

end
