(* ===== verification/Commit_Tally.thy ===== *)
theory Commit_Tally
  imports Tally
begin

text \<open>
  The counts of a leader. Every response and every time step of a leader keeps its
  counts within the delivered responses, and moves the commit index only forward, to
  the position of a message for which a quorum of acknowledgements was delivered.
\<close>

section \<open>Commits of a leader\<close>

fun index_of :: "OutstandingMessageType \<Rightarrow> u64 option" where
  "index_of (OM_WriteBatch _ _ _ idx _) = Some idx"
| "index_of (OM_NoOp _ _ idx) = Some idx"
| "index_of _ = None"

text \<open>The log positions for which messages wait.\<close>

definition registered :: "(u64 \<rightharpoonup> OutstandingMessage) \<Rightarrow> (u64 \<times> u64) set" where
  "registered om = {(i, idx). \<exists>msg. om i = Some msg \<and> index_of (message_type msg) = Some idx}"

text \<open>The leader has persisted the entry of message \<open>i\<close> and a quorum of acknowledgements was delivered for it.\<close>

definition replicated ::
  "PersistenceResponseType list \<Rightarrow> LocalQuorumTaskResponseType list \<Rightarrow> u32 \<Rightarrow> u64 \<Rightarrow> bool" where
  "replicated P D q i \<longleftrightarrow> PR_LogPersisted i \<in> set P \<and> unat q \<le> support False i D"

definition commits_ok ::
  "PersistenceResponseType list \<Rightarrow> LocalQuorumTaskResponseType list \<Rightarrow> SharedState \<Rightarrow> SharedState \<Rightarrow> bool" where
  "commits_ok P D s s' \<longleftrightarrow>
     quorum_size s' = quorum_size s \<and> registered (outstanding_messages s') \<subseteq> registered (outstanding_messages s) \<and>
     commit_index (vol s) \<le> commit_index (vol s') \<and>
     (commit_index (vol s') \<noteq> commit_index (vol s) \<longrightarrow>
       (\<exists>i. (i, commit_index (vol s')) \<in> registered (outstanding_messages s) \<and> replicated P D (quorum_size s) i))"

lemma commits_ok_refl: "commits_ok P D s s"
  by (simp add: commits_ok_def)

lemma commits_okD:
  assumes "commits_ok P D s s'"
  shows "quorum_size s' = quorum_size s" "registered (outstanding_messages s') \<subseteq> registered (outstanding_messages s)"
    "commit_index (vol s) \<le> commit_index (vol s')"
    "commit_index (vol s') \<noteq> commit_index (vol s) \<Longrightarrow>
       \<exists>i. (i, commit_index (vol s')) \<in> registered (outstanding_messages s) \<and> replicated P D (quorum_size s) i"
  using assms by (simp_all only: commits_ok_def simp_thms)

lemma commits_okI:
  assumes "quorum_size s' = quorum_size s" "registered (outstanding_messages s') \<subseteq> registered (outstanding_messages s)"
    "commit_index (vol s) \<le> commit_index (vol s')"
    "commit_index (vol s') \<noteq> commit_index (vol s) \<Longrightarrow>
       \<exists>i. (i, commit_index (vol s')) \<in> registered (outstanding_messages s) \<and> replicated P D (quorum_size s) i"
  shows "commits_ok P D s s'"
  unfolding commits_ok_def by (intro conjI impI assms)

lemma commits_ok_step:
  assumes "quorum_size s' = quorum_size s" "registered (outstanding_messages s') \<subseteq> registered (outstanding_messages s)"
    "commit_index (vol s') \<noteq> commit_index (vol s) \<Longrightarrow> commit_index (vol s) < commit_index (vol s') \<and>
       (\<exists>i. (i, commit_index (vol s')) \<in> registered (outstanding_messages s) \<and> replicated P D (quorum_size s) i)"
  shows "commits_ok P D s s'"
proof (rule commits_okI [OF assms(1,2)])
  show "commit_index (vol s) \<le> commit_index (vol s')" using assms(3) less_imp_le order_eq_refl by metis
qed (use assms(3) in simp)

lemma commits_ok_trans:
  assumes "commits_ok P D s t" "commits_ok P D t u"
  shows "commits_ok P D s u"
proof (rule commits_okI)
  note st = commits_okD [OF assms(1)] and tu = commits_okD [OF assms(2)]
  show "quorum_size u = quorum_size s" by (simp only: st tu)
  show "registered (outstanding_messages u) \<subseteq> registered (outstanding_messages s)" by (rule subset_trans [OF tu(2) st(2)])
  show "commit_index (vol s) \<le> commit_index (vol u)" by (rule order_trans [OF st(3) tu(3)])
  assume ne: "commit_index (vol u) \<noteq> commit_index (vol s)"
  show "\<exists>i. (i, commit_index (vol u)) \<in> registered (outstanding_messages s) \<and> replicated P D (quorum_size s) i"
  proof (cases "commit_index (vol u) = commit_index (vol t)")
    case True
    with ne st(4) show ?thesis by simp
  next
    case False
    from tu(4) [OF this] obtain i where "(i, commit_index (vol u)) \<in> registered (outstanding_messages t)"
      "replicated P D (quorum_size t) i" by (elim exE conjE)
    then have "(i, commit_index (vol u)) \<in> registered (outstanding_messages s)" "replicated P D (quorum_size s) i"
      using subsetD [OF st(2)] by (simp_all only: st(1))
    then show ?thesis by (intro exI conjI)
  qed
qed

lemma registered_upd:
  "registered (om(i := None)) \<subseteq> registered om"
  "om i = Some m \<Longrightarrow> index_of (message_type m') = index_of (message_type m) \<Longrightarrow> registered (om(i \<mapsto> m')) \<subseteq> registered om"
  by (auto simp: registered_def split: if_splits)

lemma reports_log: "reports False i r \<longleftrightarrow> r = PR_LogPersisted i"
  by (cases r) auto

lemma complete_write_batch_size:
  "complete_write_batch cp n cb s = Inr s' \<Longrightarrow> quorum_size s' = quorum_size s"
  using quiet_complete_write_batch by (auto simp: quiet_def)

text \<open>How a response changes the outstanding messages of a leader.\<close>

definition changed :: "(u64 \<rightharpoonup> OutstandingMessage) \<Rightarrow> (u64 \<rightharpoonup> OutstandingMessage) \<Rightarrow> bool" where
  "changed om om' \<longleftrightarrow>
     om' = om \<or> (\<exists>i. om' = om(i := None)) \<or>
     (\<exists>i m m'. om i = Some m \<and> index_of (message_type m') = index_of (message_type m) \<and> om' = om(i \<mapsto> m'))"

lemma changedI:
  "changed om om" "changed om (om(i := None))"
  "om i = Some m \<Longrightarrow> index_of (message_type m') = index_of (message_type m) \<Longrightarrow> changed om (om(i \<mapsto> m'))"
  unfolding changed_def
  by ((rule disjI1, rule refl), (rule disjI2, rule disjI1, rule exI, rule refl),
      (intro disjI2 exI conjI, assumption, assumption, rule refl))

lemma registered_change: "changed om om' \<Longrightarrow> registered om' \<subseteq> registered om"
  unfolding changed_def by (elim disjE exE conjE) (simp_all only: registered_upd order_refl)

lemma leader_persistence_change:
  "leader_persistence_response cp r s = Inr s' \<Longrightarrow> changed (outstanding_messages s) (outstanding_messages s')"
  by (auto simp: leader_persistence_response_def leader_log_persisted_def leader_vote_persisted_def Let_def complete_noop_def
      dest!: complete_write_batch_outstanding intro!: changedI
      split: PersistenceResponseType.splits option.splits OutstandingMessageType.splits if_splits)

lemma leader_quorum_change:
  "leader_quorum_response cp q s = Inr s' \<Longrightarrow> changed (outstanding_messages s) (outstanding_messages s')"
  by (auto simp: leader_quorum_response_def handle_append_entries_response_def Let_def complete_noop_def
      dest!: complete_write_batch_outstanding intro!: changedI
      split: LocalQuorumTaskResponseType.splits option.splits OutstandingMessageType.splits if_splits)

lemma leader_persistence_commits:
  assumes "tally_ok P D qs (outstanding_messages s)" "r \<in> set P" "leader_persistence_response cp r s = Inr s'"
  shows "commits_ok P D s s'"
proof -
  have "quorum_size s' = quorum_size s"
    using quiet_leader_persistence_response [OF assms(3)] by (simp add: quiet_def)
  moreover have "registered (outstanding_messages s') \<subseteq> registered (outstanding_messages s)"
    by (rule registered_change [OF leader_persistence_change [OF assms(3)]])
  moreover have "commit_index (vol s) < commit_index (vol s') \<and>
      (\<exists>i. (i, commit_index (vol s')) \<in> registered (outstanding_messages s) \<and> replicated P D (quorum_size s) i)"
    if "commit_index (vol s') \<noteq> commit_index (vol s)"
  proof -
    from commit_step_needs_quorum [of cp r s s'] assms(3) that obtain i msg pd acks where
      c: "commit_index (vol s) < commit_index (vol s')" "r = PR_LogPersisted i" "outstanding_messages s i = Some msg"
        "replication_of msg = Some (pd, acks, commit_index (vol s'))" "quorum_size s \<le> acks"
      by blast
    then have m: "counted (message_type msg) = Some (False, pd, unat acks)" "index_of (message_type msg) = Some (commit_index (vol s'))"
      by (auto simp: replication_of_def split: OutstandingMessageType.splits)
    have "unat (quorum_size s) \<le> support False i D"
      using tally_okD(1) [OF assms(1) c(3) m(1)] c(5) by (simp add: own_def word_le_nat_alt)
    with c(1,2,3) m(2) assms(2) show ?thesis by (auto simp: registered_def replicated_def)
  qed
  ultimately show ?thesis by (rule commits_ok_step)
qed

lemma leader_quorum_commits:
  assumes "tally_ok P D (q # qs) (outstanding_messages s)" "leader_quorum_response cp q s = Inr s'"
  shows "commits_ok P D s s'"
proof -
  have "quorum_size s' = quorum_size s"
    using quiet_leader_quorum_response [OF assms(2)] by (simp add: quiet_def)
  moreover have "registered (outstanding_messages s') \<subseteq> registered (outstanding_messages s)"
    by (rule registered_change [OF leader_quorum_change [OF assms(2)]])
  moreover have "commit_index (vol s) < commit_index (vol s') \<and>
      (\<exists>i. (i, commit_index (vol s')) \<in> registered (outstanding_messages s) \<and> replicated P D (quorum_size s) i)"
    if "commit_index (vol s') \<noteq> commit_index (vol s)"
  proof -
    from commit_step_needs_quorum [of cp _ s s' q] assms(2) that obtain i n msg acks where
      c: "commit_index (vol s) < commit_index (vol s')" "q = QR_AppendEntries i n" "outstanding_messages s i = Some msg"
        "replication_of msg = Some (True, acks, commit_index (vol s'))" "quorum_size s \<le> acks + 1"
      by blast
    then have m: "counted (message_type msg) = Some (False, True, unat acks)" "index_of (message_type msg) = Some (commit_index (vol s'))"
      by (auto simp: replication_of_def split: OutstandingMessageType.splits)
    have "unat (quorum_size s) \<le> support False i D" "PR_LogPersisted i \<in> set P"
      using tally_okD [OF assms(1) c(3) m(1)] c(2,5) unat_inc_le [of acks] by (auto simp: own_def word_le_nat_alt reports_log)
    with c(1,3) m(2) show ?thesis by (auto simp: registered_def replicated_def)
  qed
  ultimately show ?thesis by (rule commits_ok_step)
qed

lemma complete_write_batch_queues:
  "complete_write_batch cp n cb s = Inr s' \<Longrightarrow>
   quorum_response s' = quorum_response s \<and> persistence_response s' = persistence_response s"
  by (auto simp: complete_write_batch_def advance_commit_def push_all_quorum_def Let_def)

lemma advance_commit_queues [simp]:
  "quorum_response (advance_commit n s) = quorum_response s"
  "persistence_response (advance_commit n s) = persistence_response s"
  by (simp_all add: advance_commit_def push_all_quorum_def)

lemma leader_persistence_queues:
  "leader_persistence_response cp r s = Inr s' \<Longrightarrow>
   quorum_response s' = quorum_response s \<and> persistence_response s' = persistence_response s"
  by (auto simp: leader_persistence_response_def leader_log_persisted_def leader_vote_persisted_def Let_def complete_noop_def
      dest!: complete_write_batch_queues
      split: PersistenceResponseType.splits option.splits OutstandingMessageType.splits if_splits)

lemma leader_quorum_queues:
  "leader_quorum_response cp q s = Inr s' \<Longrightarrow>
   quorum_response s' = quorum_response s \<and> persistence_response s' = persistence_response s"
  by (auto simp: leader_quorum_response_def handle_append_entries_response_def Let_def complete_noop_def
      dest!: complete_write_batch_queues
      split: LocalQuorumTaskResponseType.splits option.splits OutstandingMessageType.splits if_splits)

lemma leader_persistence_fold:
  assumes "fold_res (leader_persistence_response cp) rs s = Inr s'" "set rs \<subseteq> set P"
    "tally_ok P D qs (outstanding_messages s)"
  shows "tally_ok P D qs (outstanding_messages s') \<and> commits_ok P D s s' \<and>
    quorum_response s' = quorum_response s \<and> persistence_response s' = persistence_response s"
  using assms
proof (induction rs arbitrary: s)
  case (Cons r rs)
  then obtain t where t: "leader_persistence_response cp r s = Inr t" "fold_res (leader_persistence_response cp) rs t = Inr s'"
    by auto
  have r: "r \<in> set P" "set rs \<subseteq> set P" using Cons.prems(2) by simp_all
  note tal = leader_persistence_tally [OF Cons.prems(3) r(1) t(1)]
  from Cons.IH [OF t(2) r(2) tal] leader_persistence_queues [OF t(1)]
    commits_ok_trans [OF leader_persistence_commits [OF Cons.prems(3) r(1) t(1)], of s']
  show ?case by simp
qed (simp add: commits_ok_refl)

lemma leader_quorum_fold:
  assumes "fold_res (leader_quorum_response cp) qs s = Inr s'" "tally_ok P D qs (outstanding_messages s)"
  shows "tally_ok P D [] (outstanding_messages s') \<and> commits_ok P D s s' \<and>
    quorum_response s' = quorum_response s \<and> persistence_response s' = persistence_response s"
  using assms
proof (induction qs arbitrary: s)
  case (Cons q qs)
  then obtain t where t: "leader_quorum_response cp q s = Inr t" "fold_res (leader_quorum_response cp) qs t = Inr s'"
    by auto
  note tal = leader_quorum_tally [OF Cons.prems(2) t(1)]
  from Cons.IH [OF t(2) tal] leader_quorum_queues [OF t(1)]
    commits_ok_trans [OF leader_quorum_commits [OF Cons.prems(2) t(1)], of s']
  show ?case by simp
qed (simp add: commits_ok_refl)

text \<open>What neither counts nor commits.\<close>

definition untallied :: "SharedState \<Rightarrow> SharedState \<Rightarrow> bool" where
  "untallied s s' \<longleftrightarrow>
     outstanding_messages s' = outstanding_messages s \<and> quorum_response s' = quorum_response s \<and>
     persistence_response s' = persistence_response s \<and> quorum_size s' = quorum_size s \<and>
     commit_index (vol s') = commit_index (vol s)"

lemma untallied_core: "core s' = core s \<Longrightarrow> untallied s s'"
  unfolding untallied_def by (intro conjI) (erule core_eqD)+

lemma untallied_tally: "untallied s s' \<Longrightarrow> tally_inv P D s' = tally_inv P D s"
  by (simp add: untallied_def tally_inv_def)

lemma untallied_commits: "untallied s s' \<Longrightarrow> commits_ok P D s s'"
  by (rule commits_okI) (simp_all add: untallied_def)

lemma push_quorum_untallied: "untallied s (push_quorum i t s)"
  by (simp add: untallied_def push_quorum_def)

lemma backfill_untallied: "handle_backfill_request cp q s = Inr s' \<Longrightarrow> untallied s s'"
  by (auto simp: handle_backfill_request_def handle_follower_ahead_def handle_term_mismatch_def send_truncate_signal_def
      send_backfill_data_def untallied_def push_quorum_def Let_def split: prod.splits if_splits option.splits)

lemma backfills_untallied: "fold_res (handle_backfill_request cp) bs s = Inr s' \<Longrightarrow> untallied s s'"
  by (rule fold_res_invariant [where P = "untallied s", of bs]) (auto dest: backfill_untallied simp: untallied_def)

lemma leader_responses:
  assumes "process_persistence_responses cp s = Inr (w1, s1)" "process_quorum_responses cp s1 = Inr (bs, w2, s2)"
    "fold_res (handle_backfill_request cp) bs s2 = Inr s3" "s' = snd (retry_deferred_broadcast s3)" "tally_inv P D s"
  shows "tally_inv P D s' \<and> commits_ok P D s s'"
proof -
  let ?t = "s\<lparr>persistence_response := []\<rparr>" and ?u = "s1\<lparr>quorum_response := []\<rparr>"
  have inv: "set (persistence_response s) \<subseteq> set P" "tally_ok P D (quorum_response s) (outstanding_messages ?t)"
    using assms(5) by (simp_all add: tally_inv_def)
  have f1: "fold_res (leader_persistence_response cp) (persistence_response s) ?t = Inr s1"
    using assms(1) by (auto simp: process_persistence_responses_def)
  from leader_persistence_fold [OF f1 inv] have s1: "tally_ok P D (quorum_response s) (outstanding_messages s1)"
    "commits_ok P D ?t s1" "quorum_response s1 = quorum_response s" "persistence_response s1 = []"
    by simp_all
  have f2: "fold_res (leader_quorum_response cp) (quorum_response s1) ?u = Inr s2"
    using assms(2) by (auto simp: process_quorum_responses_def)
  have "tally_ok P D (quorum_response s1) (outstanding_messages ?u)" using s1(1,3) by simp
  from leader_quorum_fold [OF f2 this] have s2: "tally_ok P D [] (outstanding_messages s2)" "commits_ok P D ?u s2"
    "quorum_response s2 = []" "persistence_response s2 = []"
    using s1(4) by simp_all
  have "tally_inv P D s2" using s2 by (simp add: tally_inv_def)
  moreover have u: "untallied s2 s3" "untallied s3 s'"
    using backfills_untallied [OF assms(3)] untallied_core [OF retry_deferred_broadcast_core] assms(4) by simp_all
  ultimately have "tally_inv P D s'" using untallied_tally by simp
  moreover have emptied: "commits_ok P D s ?t" "commits_ok P D s1 ?u" by (rule commits_okI; simp)+
  note commits_ok_trans [OF commits_ok_trans [OF emptied(1) s1(2)] commits_ok_trans [OF emptied(2) s2(2)]]
  from commits_ok_trans [OF this commits_ok_trans [OF u [THEN untallied_commits]]] have "commits_ok P D s s'" .
  ultimately show ?thesis by simp
qed

lemma initialize_leadership_tally:
  assumes "initialize_leadership cp ev s = Inr s'" "tally_inv P D s"
  shows "tally_inv P D s'"
proof -
  from assms(1) obtain m n where "outstanding_messages s' = (outstanding_messages s)(n \<mapsto> m)" "uncounted (message_type m)"
    "quorum_response s' = quorum_response s" "persistence_response s' = persistence_response s"
    by (auto simp: initialize_leadership_def create_and_append_noop_entry_def Let_def queue_persistence_task_def
      persistence_send_def update_volatile_state_def register_noop_outstanding_message_def dispatch_to_quorum_def
      append_entry_def push_all_quorum_def uncounted_def own_def split: if_splits prod.splits)
  with assms(2) tally_insert_new show ?thesis by (simp add: tally_inv_def)
qed

lemma leader_time_step_tally:
  assumes "leader_time_step cp ev (d, s) = Inr (c, w, d', s')" "tally_inv P D s"
  shows "tally_inv P D s' \<and> (initialized d \<longrightarrow> commits_ok P D s s')"
proof -
  from assms(1) obtain w0 t w1 s1 b w2 s2 s3 where
    init: "leader_initialize cp ev (d, s) = Inr (w0, d', t)" and
    st: "process_persistence_responses cp t = Inr (w1, s1)" "process_quorum_responses cp s1 = Inr (b, w2, s2)"
        "fold_res (handle_backfill_request cp) b s2 = Inr s3" and
    fin: "s' = snd (retry_deferred_broadcast s3)"
    by (auto simp: leader_time_step_def Let_def split_beta)
  have t: "tally_inv P D t" "initialized d \<longrightarrow> t = s"
    using init assms(2) initialize_leadership_tally by (auto simp: leader_initialize_def split: if_splits)
  from leader_responses [OF st fin t(1)] t(2) show ?thesis by blast
qed

end
