(* ===== verification/Quorum_Runs.thy ===== *)
theory Quorum_Runs
  imports Commit_Tally
begin

text \<open>
  Elections and commits along whole runs. A node starts with nothing outstanding;
  every input it executes keeps its counts within the responses that were delivered
  to it so far. So a node becomes leader, and a leader commits, only on as many
  delivered responses as the quorum size demands.
\<close>

section \<open>Messages\<close>

text \<open>A step that registers at most one message, which has counted nothing.\<close>

definition adds :: "(u64 \<rightharpoonup> OutstandingMessage) \<Rightarrow> (u64 \<rightharpoonup> OutstandingMessage) \<Rightarrow> bool" where
  "adds om om' \<longleftrightarrow> om' = om \<or> (\<exists>i m. om' = om(i \<mapsto> m) \<and> uncounted (message_type m))"

definition registers :: "SharedState \<Rightarrow> SharedState \<Rightarrow> bool" where
  "registers s s' \<longleftrightarrow>
     quorum_response s' = quorum_response s \<and> persistence_response s' = persistence_response s \<and>
     adds (outstanding_messages s) (outstanding_messages s')"

lemma adds_simps [simp]: "adds om om" "uncounted (message_type m) \<Longrightarrow> adds om (om(i \<mapsto> m))"
  unfolding adds_def by (rule disjI1, rule refl) (intro disjI2 exI conjI, rule refl)

lemma registers_tally: "registers s s' \<Longrightarrow> tally_inv P D s \<Longrightarrow> tally_inv P D s'"
  unfolding registers_def tally_inv_def adds_def by (elim conjE disjE exE) (simp_all add: tally_insert_new)

lemma uncounted_simps [simp]:
  "uncounted (OM_RequestVote cb)" "uncounted (OM_AppendLog cb)" "uncounted (OM_WriteBatch False 0 cb idx sz)"
  by (simp_all add: uncounted_def)

lemma apply_log_entry_registers: "registers s (apply_log_entry cp r cb s)"
  by (auto simp: registers_def apply_log_entry_def Let_def persistence_send_def note_entry_def update_commit_index_def
      split: option.splits)

lemma recognise_leader_untallied [simp]:
  "outstanding_messages (recognise_leader r s) = outstanding_messages s"
  "quorum_response (recognise_leader r s) = quorum_response s"
  "persistence_response (recognise_leader r s) = persistence_response s"
  by (simp_all add: recognise_leader_def)

lemma follower_append_entries_registers:
  assumes "follower_append_entries cp ev r cb (d, s) = (c, d', s')"
  shows "registers s s'"
proof -
  have rec: "registers s (apply_log_entry cp r cb (recognise_leader r s))"
    using apply_log_entry_registers [of "recognise_leader r s" cp r cb] by (simp add: registers_def)
  show ?thesis
    using assms rec apply_log_entry_registers [of s cp r cb]
    by (auto simp: follower_append_entries_def handle_new_leader_def handle_heartbeat_def update_commit_index_def
        handle_non_consecutive_request_def send_unrecognized_leader_response_def Let_def registers_def
        split: prod.splits if_splits)
qed

lemma candidate_append_entries_registers: "registers s (snd (candidate_append_entries ev r cb s))"
  by (simp add: candidate_append_entries_def registers_def Let_def)

lemma leader_append_entries_registers: "registers s (snd (leader_append_entries ev r cb s))"
  by (simp add: leader_append_entries_def leader_handle_new_leader_def registers_def push_all_quorum_def Let_def)

lemma candidate_request_vote_registers: "registers s (snd (candidate_request_vote r cb s))"
  by (auto simp: candidate_request_vote_def accept_vote_def registers_def persistence_send_def raise_next_term_def Let_def)

lemma follower_request_vote_registers: "follower_request_vote r cb s = Inr (c, s') \<Longrightarrow> registers s s'"
  by (auto simp: follower_request_vote_def registers_def raise_next_term_def send_callback_unwrap_Inr Let_def split: if_splits)

lemma leader_write_batch_registers: "leader_write_batch cp ev b cb s = Inr s' \<Longrightarrow> registers s s'"
  by (auto simp: leader_write_batch_def create_and_append_log_entry_def Let_def queue_persistence_task_def registers_def
      persistence_send_def update_volatile_state_def register_outstanding_message_def dispatch_to_quorum_def
      append_entry_def push_all_quorum_def send_error_response_def write_batch_with_message_def
      split: if_splits prod.splits option.splits)

section \<open>Runs\<close>

text \<open>What the other workers deliver in a run.\<close>

fun responses_in :: "input \<Rightarrow> PersistenceResponseType list \<times> LocalQuorumTaskResponseType list" where
  "responses_in (Respond prs qrs) = (prs, qrs)"
| "responses_in _ = ([], [])"

definition persisted_in :: "input list \<Rightarrow> PersistenceResponseType list" where
  "persisted_in is = concat (map (fst \<circ> responses_in) is)"

definition delivered_in :: "input list \<Rightarrow> LocalQuorumTaskResponseType list" where
  "delivered_in is = concat (map (snd \<circ> responses_in) is)"

lemma tally_respond:
  assumes "tally_inv P D s"
  shows "tally_inv (P @ prs) (D @ qrs)
    (s\<lparr>persistence_response := persistence_response s @ prs, quorum_response := quorum_response s @ qrs\<rparr>)"
proof -
  have ok: "tally_ok P D (quorum_response s) (outstanding_messages s)" using assms by (simp add: tally_inv_def)
  have "tally_ok (P @ prs) (D @ qrs) (quorum_response s @ qrs) (outstanding_messages s)"
  proof (rule tally_okI)
    fix e i
    show "support e i (quorum_response s @ qrs) \<le> support e i (D @ qrs)" using tally_le [OF ok, of e i] by simp
    fix msg pd n
    assume "outstanding_messages s i = Some msg" "counted (message_type msg) = Some (e, pd, n)"
    from tally_okD [OF ok this]
    show "n + support e i (quorum_response s @ qrs) \<le> own e + support e i (D @ qrs) \<and>
        (pd \<longrightarrow> (\<exists>r \<in> set (P @ prs). reports e i r))"
      by auto
  qed
  then show ?thesis using assms by (auto simp: tally_inv_def)
qed

lemma time_step_tally:
  assumes "exec cp (Time_Step ev ev') x = Inr y" "tally_inv P D (shared_state x)"
  shows "tally_inv P D (shared_state y)"
proof -
  from assms(1) obtain c w d where "delegate_time_step cp ev ev' (state_delegate x) (shared_state x) = Inr (c, w, d, shared_state y)"
    by (auto simp: time_step_def)
  then show ?thesis
  proof (cases rule: delegate_time_stepE)
    case (follower f f')
    from follower_time_step_tally [OF this(3) assms(2)] show ?thesis .
  next
    case (candidate k k')
    from candidate_time_step_tally [OF this(3) assms(2)] show ?thesis ..
  next
    case (leader l l')
    from leader_time_step_tally [OF this(3) assms(2)] show ?thesis ..
  qed
qed

lemma accept_registers:
  assumes "exec cp (Accept ev m cb) x = Inr y"
  shows "registers (shared_state x) (shared_state y)"
proof (cases m)
  case (Msg_RequestVote r)
  with assms obtain c d where "delegate_request_vote r cb (state_delegate x) (shared_state x) = Inr (c, d, shared_state y)"
    by (auto simp: accept_def)
  then show ?thesis
    using candidate_request_vote_registers [of "shared_state x" r cb] follower_request_vote_registers [of r cb "shared_state x"]
    by (auto simp: delegate_request_vote_def leader_request_vote_eq split: Delegate.splits prod.splits)
next
  case (Msg_AppendEntries r)
  with assms obtain c d where
    "delegate_append_entries cp ev r cb (state_delegate x) (shared_state x) = (c, d, shared_state y)"
    by (auto simp: accept_def split: prod.splits)
  then show ?thesis
    using candidate_append_entries_registers [of "shared_state x" ev r cb] leader_append_entries_registers [of "shared_state x" ev r cb]
    by (auto simp: delegate_append_entries_def dest: follower_append_entries_registers split: Delegate.splits prod.splits)
next
  case Msg_GetRaftState
  with assms show ?thesis by (auto simp: accept_def registers_def)
next
  case (Msg_WriteBatch b)
  with assms show ?thesis
    by (auto simp: accept_def dest: leader_write_batch_registers split: if_splits) (simp_all add: registers_def)
qed

lemma exec_tally:
  assumes "exec cp i x = Inr y" "tally_inv P D (shared_state x)"
  shows "tally_inv (P @ fst (responses_in i)) (D @ snd (responses_in i)) (shared_state y)"
proof (cases i)
  case (Respond prs qrs)
  with assms tally_respond [OF assms(2), of prs qrs] show ?thesis by auto
qed (use assms time_step_tally registers_tally [OF accept_registers] in auto)

lemma run_tally:
  "fold_res (exec cp) is x = Inr y \<Longrightarrow> tally_inv P D (shared_state x) \<Longrightarrow>
   tally_inv (P @ persisted_in is) (D @ delivered_in is) (shared_state y)"
proof (induction "is" arbitrary: x P D)
  case (Cons i "is")
  then obtain u where u: "exec cp i x = Inr u" "fold_res (exec cp) is u = Inr y" by auto
  from Cons.IH [OF u(2) exec_tally [OF u(1) Cons.prems(2)]] show ?case
    by (simp add: persisted_in_def delivered_in_def)
qed (simp add: persisted_in_def delivered_in_def)

text \<open>A node that has just started.\<close>

definition fresh_node :: "SharedState \<Rightarrow> bool" where
  "fresh_node s \<longleftrightarrow> outstanding_messages s = (\<lambda>_. None) \<and> persistence_response s = [] \<and> quorum_response s = []"

lemma fresh_tally: "fresh_node s \<Longrightarrow> tally_inv [] [] s"
  by (simp add: fresh_node_def tally_inv_def tally_ok_def)

lemma start_node_fresh:
  "start_node cp cv ev b al k n node sz logf votesf = Some (x, w) \<Longrightarrow> fresh_node (shared_state x)"
  by (auto simp: start_node_def Let_def bind_eq_Some_conv new_executor_def create_shared_state_def fresh_node_def)

lemma supports_vote: "supports True i = (\<lambda>r. \<exists>t. r = QR_RequestVoteResponse i t True)"
  by (rule ext) (auto elim: supports.elims)

lemma supports_ack: "supports False i = (\<lambda>r. \<exists>n. r = QR_AppendEntries i n)"
  by (rule ext) (auto elim: supports.elims)

lemma reports_vote: "reports True i r \<longleftrightarrow> (\<exists>t c. r = PR_VotePersisted i t c)"
  by (cases r) auto

lemma elected_from_tally:
  assumes "tally_inv P D (shared_state x)" "state_delegate x = Candidate_Delegate k"
    and "exec cp (Time_Step ev ev') x = Inr y" "get_node_type (state_delegate y) = Node_Leader"
  shows "elected_in P D (shared_state x) (shared_state y)"
proof -
  from assms(2,3) obtain c w k' where t: "candidate_time_step ev ev' (k, shared_state x) = Inr (c, w, k', shared_state y)"
    and d: "state_delegate y = apply_change c (Candidate_Delegate k')"
    by (auto simp: time_step_def delegate_time_step_def)
  have "\<exists>l. c = SC_Leader l" using d assms(4) by (cases c) (simp_all add: get_node_type_def)
  with candidate_time_step_tally [OF t assms(1)] show ?thesis by blast
qed

lemma run_elected:
  assumes "fresh_node (shared_state x)" "fold_res (exec cp) is x = Inr y" "state_delegate y = Candidate_Delegate k"
    and "exec cp (Time_Step ev ev') y = Inr z" "get_node_type (state_delegate z) = Node_Leader"
  shows "elected_in (persisted_in is) (delivered_in is) (shared_state y) (shared_state z)"
  using elected_from_tally [OF _ assms(3-5)] run_tally [OF assms(2) fresh_tally [OF assms(1)]] by simp

section \<open>Properties\<close>

text \<open>
  C11: No leader without a quorum of delivered votes. When a candidate that has run since
  its start becomes a leader, there is a message for which its own vote was reported as
  persisted and for which, with its own vote, at least as many positive vote responses
  of other nodes were delivered as the quorum size demands; the node takes the term of one
  of the message's responses, and itself as the leader.
\<close>

theorem elected_by_quorum:
  assumes "fresh_node (shared_state x)" "fold_res (exec cp) is x = Inr y" "state_delegate y = Candidate_Delegate k"
    and "exec cp (Time_Step ev ev') y = Inr z" "get_node_type (state_delegate z) = Node_Leader"
  shows "\<exists>i t. (\<exists>t' c. PR_VotePersisted i t' c \<in> set (persisted_in is)) \<and>
    unat (quorum_size (shared_state y)) \<le>
      1 + length (filter (\<lambda>r. \<exists>t'. r = QR_RequestVoteResponse i t' True) (delivered_in is)) \<and>
    ((\<exists>c. PR_VotePersisted i t c \<in> set (persisted_in is)) \<or> (\<exists>v. QR_RequestVoteResponse i t v \<in> set (delivered_in is))) \<and>
    server_state (shared_state z) = \<lparr> current_term = t, leader_id = identity (shared_state y) \<rparr>"
proof -
  from run_elected [OF assms] obtain i t where it: "won (persisted_in is) (delivered_in is) (quorum_size (shared_state y)) i t"
    "server_state (shared_state z) = \<lparr> current_term = t, leader_id = identity (shared_state y) \<rparr>"
    unfolding elected_in_def by (elim exE conjE)
  show ?thesis
    by (rule exI [of _ i], rule exI [of _ t])
       (use it in \<open>auto simp: won_def support_def supports_vote reports_vote\<close>)
qed

text \<open>A candidate that starts its election, whose vote is persisted, and that gets one vote.\<close>

definition sample_campaign :: "input list" where
  "sample_campaign = [Time_Step sample_env sample_env, Respond [PR_VotePersisted 0 1 1] [QR_RequestVoteResponse 0 1 True]]"

lemma sample_campaign_run:
  obtains y z k where "fold_res (exec sample_capnp) sample_campaign sample_candidate = Inr y"
    "state_delegate y = Candidate_Delegate k" "exec sample_capnp (Time_Step sample_env sample_env) y = Inr z"
    "get_node_type (state_delegate z) = Node_Leader" "quorum_size (shared_state y) = 2" "identity (shared_state y) = 1"
    "server_state (shared_state z) = \<lparr> current_term = 1, leader_id = 1 \<rparr>"
proof -
  obtain y k where y: "fold_res (exec sample_capnp) sample_campaign sample_candidate = Inr y"
    "state_delegate y = Candidate_Delegate k" "quorum_size (shared_state y) = 2" "identity (shared_state y) = 1"
    "persistence_response (shared_state y) = [PR_VotePersisted 0 1 1]"
    "quorum_response (shared_state y) = [QR_RequestVoteResponse 0 1 True]"
    "outstanding_messages (shared_state y) 0 =
      Some \<lparr> om_id = 0, outstanding_responses = 3, message_type = OM_CandidateElection False 1 \<rparr>"
    by (simp add: sample_campaign_def sample_candidate_def new_candidate_def time_step_def delegate_time_step_def
        candidate_time_step_def candidate_check_election_def election_timeout_expired_def initiate_election_def Let_def
        sample_state_def create_shared_state_def create_volatile_state_def empty_recovered_def sample_env_def
        retry_deferred_broadcast_def persistence_send_def push_all_quorum_def insert_outstanding_def apply_change_def upd_vol_def)
  have few: "\<not> (2 :: u32) \<le> 1" by (simp add: word_le_nat_alt)
  obtain z where "exec sample_capnp (Time_Step sample_env sample_env) y = Inr z"
    "get_node_type (state_delegate z) = Node_Leader" "server_state (shared_state z) = \<lparr> current_term = 1, leader_id = 1 \<rparr>"
    by (simp add: y(2-7) few time_step_def delegate_time_step_def candidate_time_step_def candidate_persistence_response_def
        candidate_vote_persisted_def candidate_quorum_response_def candidate_vote_response_def Let_def become_leader_def
        get_node_type_def insert_outstanding_def remove_outstanding_def)
  with y that show thesis by blast
qed

lemma sample_candidate_fresh: "fresh_node (shared_state sample_candidate)"
  by (simp add: fresh_node_def sample_candidate_def sample_state_def create_shared_state_def)

theorem elected_by_quorum_witness:
  "\<exists>y z. fold_res (exec sample_capnp) sample_campaign sample_candidate = Inr y \<and>
     exec sample_capnp (Time_Step sample_env sample_env) y = Inr z \<and> get_node_type (state_delegate z) = Node_Leader \<and>
     (\<exists>i. 2 \<le> 1 + length (filter (\<lambda>r. \<exists>t'. r = QR_RequestVoteResponse i t' True) (delivered_in sample_campaign)))"
proof -
  obtain y z k where y: "fold_res (exec sample_capnp) sample_campaign sample_candidate = Inr y"
    "state_delegate y = Candidate_Delegate k" "exec sample_capnp (Time_Step sample_env sample_env) y = Inr z"
    "get_node_type (state_delegate z) = Node_Leader" "quorum_size (shared_state y) = 2"
    by (rule sample_campaign_run)
  from elected_by_quorum [OF sample_candidate_fresh y(1-4)] y(5)
  have "\<exists>i. 2 \<le> 1 + length (filter (\<lambda>r. \<exists>t'. r = QR_RequestVoteResponse i t' True) (delivered_in sample_campaign))"
    by auto
  with y(1,3,4) show ?thesis by blast
qed


text \<open>A leader of a cluster of three with two entries in its log, whose no-op entry is acknowledged by the two others.\<close>

definition sample_leader :: Executor where
  "sample_leader =
     \<lparr> state_delegate = Leader_Delegate (new_leader sample_env),
       shared_state = upd_vol (\<lambda>v. v\<lparr>replication_log := sample_log, last_log_index := 1, last_log_term := 1\<rparr>)
         ((sample_state 1)\<lparr>server_state := \<lparr> current_term = 1, leader_id = 1 \<rparr>\<rparr>) \<rparr>"

definition sample_replication :: "input list" where
  "sample_replication =
     [Time_Step sample_env sample_env,
      Respond [PR_LogPersisted 1] [QR_AppendEntries 1 True, QR_AppendEntries 1 True]]"

lemma sample_replication_run:
  obtains y z l where "fold_res (exec sample_capnp) sample_replication sample_leader = Inr y"
    "state_delegate y = Leader_Delegate l" "initialized l" "exec sample_capnp (Time_Step sample_env sample_env) y = Inr z"
    "commit_index (vol (shared_state y)) = 0" "commit_index (vol (shared_state z)) = 2" "quorum_size (shared_state y) = 2"
proof -
  have parse: "\<exists>r. read_flat sample_capnp (frame body) = Some r" for body
    by (simp add: sample_capnp_def read_frame_len_def frame_def)
  have build: "\<exists>e. build_owned_log_entry sample_capnp m = Inr e" for m
    using parse by (auto simp: build_owned_log_entry_def log_entry_from_bytes_def sample_capnp_def split: option.splits)
  let ?m = "\<lparr> ile_index = 2, ile_term = 1, ile_prev_log_index = 1, ile_prev_log_term = 1, ile_message_id = 1,
     ile_timestamp = 5000, ile_commands = Some [], ile_data = Some [] \<rparr> :: InternalLogEntry"
  obtain e where e: "build_owned_log_entry sample_capnp ?m = Inr e" using build by blast
  obtain y l where y: "fold_res (exec sample_capnp) sample_replication sample_leader = Inr y"
    "state_delegate y = Leader_Delegate l" "initialized l" "quorum_size (shared_state y) = 2"
    "commit_index (vol (shared_state y)) = 0"
    "persistence_response (shared_state y) = [PR_LogPersisted 1]"
    "quorum_response (shared_state y) = [QR_AppendEntries 1 True, QR_AppendEntries 1 True]"
    "outstanding_messages (shared_state y) 1 =
      Some \<lparr> om_id = 1, outstanding_responses = 3, message_type = OM_NoOp False 0 2 \<rparr>"
    using e
    by (simp add: sample_replication_def sample_leader_def new_leader_def time_step_def delegate_time_step_def
        leader_time_step_def leader_initialize_def initialize_leadership_def create_and_append_noop_entry_def new_log_entry_def
        append_entry_def queue_persistence_task_def update_volatile_state_def register_noop_outstanding_message_def
        dispatch_to_quorum_def process_persistence_responses_def process_quorum_responses_def Let_def
        sample_state_def create_shared_state_def create_volatile_state_def create_commit_state_def empty_recovered_def
        sample_env_def sample_log_def retry_deferred_broadcast_def persistence_send_def push_all_quorum_def insert_outstanding_def
        apply_change_def upd_vol_def)
  have few: "\<not> (2 :: u32) \<le> 0" "\<not> (2 :: u32) \<le> 1" by (simp_all add: word_le_nat_alt)
  obtain z where "exec sample_capnp (Time_Step sample_env sample_env) y = Inr z" "commit_index (vol (shared_state z)) = 2"
    by (simp add: y(2-8) few time_step_def delegate_time_step_def leader_time_step_def leader_initialize_def
        process_persistence_responses_def process_quorum_responses_def leader_persistence_response_def leader_log_persisted_def
        leader_quorum_response_def handle_append_entries_response_def Let_def insert_outstanding_def remove_outstanding_def
        complete_noop_def split_beta)
  with y that show thesis by blast
qed

lemma sample_leader_fresh: "fresh_node (shared_state sample_leader)"
  by (simp add: fresh_node_def sample_leader_def sample_state_def create_shared_state_def upd_vol_def)


end
