(* ===== verification/Vote_Desk.thy ===== *)
theory Vote_Desk
  imports Quorum_Runs
begin

text \<open>
  The messages a node has sent and waits for. Each message has an identifier of its own; a
  report of the persistence worker, or a response of another node, is for the message it
  names. This is shown here for the requests of other nodes and clients and for the
  responses of the workers.
\<close>

section \<open>What a node has sent\<close>

definition ballots :: "SharedState \<Rightarrow> (u64 \<times> u64 \<times> u32) set" where
  "ballots s = {(i, t, c). PT_AppendVote i t c \<in> set (persistence_work s)}"

definition appends :: "SharedState \<Rightarrow> u64 set" where
  "appends s = {i. \<exists>d r. PT_AppendLog i d r \<in> set (persistence_work s)}"

definition requests :: "SharedState \<Rightarrow> (u64 \<times> u64) set" where
  "requests s = {(i, t). \<exists>q \<in> set (quorum_worker_tasks s). \<exists>lt li. QT_RequestVote i t lt li \<in> set q}"

definition granted :: "SharedState \<Rightarrow> callback set" where
  "granted s = {cb. (cb, Resp_RequestVote True) \<in> set (responses s)}"

text \<open>The callback of a vote request that waits for its row, and whether a message is an election.\<close>

fun voter :: "OutstandingMessageType \<Rightarrow> callback option" where
  "voter (OM_RequestVote cb) = Some cb"
| "voter _ = None"

fun electing :: "OutstandingMessageType \<Rightarrow> bool" where
  "electing (OM_CandidateElection _ _) = True"
| "electing _ = False"

definition same_kind :: "OutstandingMessage \<Rightarrow> OutstandingMessage \<Rightarrow> bool" where
  "same_kind m m' \<longleftrightarrow> voter (message_type m) = voter (message_type m') \<and> electing (message_type m) = electing (message_type m')"

text \<open>
  A step of the state machine: new tasks and messages carry new identifiers, old messages are
  answered, dropped or keep their kind, and a vote is granted only to a callback that asked
  for a vote the file holds.
\<close>

definition new_ids :: "nat \<Rightarrow> SharedState \<Rightarrow> SharedState \<Rightarrow> bool" where
  "new_ids k s s' \<longleftrightarrow> next_message_id s \<le> next_message_id s' \<and> unat (next_message_id s') \<le> unat (next_message_id s) + k"

definition new_id :: "SharedState \<Rightarrow> SharedState \<Rightarrow> u64 \<Rightarrow> bool" where
  "new_id s s' i \<longleftrightarrow> next_message_id s \<le> i \<and> i < next_message_id s'"

definition moves ::
  "(callback \<Rightarrow> u64 \<Rightarrow> u32 \<Rightarrow> bool) \<Rightarrow> (u64 \<rightharpoonup> u32) \<Rightarrow> nat \<Rightarrow> SharedState \<Rightarrow> SharedState \<Rightarrow> bool" where
  "moves asked disk k s s' \<longleftrightarrow>
     new_ids k s s' \<and> identity s' = identity s \<and>
     set (persistence_response s') \<subseteq> set (persistence_response s) \<and> set (quorum_response s') \<subseteq> set (quorum_response s) \<and>
     (\<forall>i m'. outstanding_messages s' i = Some m' \<longrightarrow>
        (\<exists>m. outstanding_messages s i = Some m \<and> same_kind m m') \<or> new_id s s' i) \<and>
     (\<forall>i t c. (i, t, c) \<in> ballots s' \<longrightarrow> (i, t, c) \<in> ballots s \<or>
        new_id s s' i \<and> (\<forall>m cb. outstanding_messages s' i = Some m \<longrightarrow> voter (message_type m) = Some cb \<longrightarrow> asked cb t c) \<and>
        (\<forall>t'. (i, t') \<in> requests s' \<longrightarrow> t' = t \<and> c = identity s)) \<and>
     (\<forall>i \<in> appends s'. i \<in> appends s \<or>
        new_id s s' i \<and> (\<forall>m. outstanding_messages s' i = Some m \<longrightarrow> voter (message_type m) = None)) \<and>
     requests s \<subseteq> requests s' \<and>
     (\<forall>i t. (i, t) \<in> requests s' \<longrightarrow> (i, t) \<in> requests s \<or>
        new_id s s' i \<and> (\<forall>m. outstanding_messages s' i = Some m \<longrightarrow> electing (message_type m)) \<and>
        (\<forall>t'. (i, t') \<in> requests s' \<longrightarrow> t' = t)) \<and>
     (\<forall>cb \<in> granted s'. cb \<in> granted s \<or> (\<exists>t c. asked cb t c \<and> disk t = Some c))"

text \<open>
  What holds between two steps: the reports \<open>R\<close> of the persistence worker and the reports \<open>L\<close>
  that wait for a flush are for messages of this node.
\<close>

definition desk ::
  "(callback \<Rightarrow> u64 \<Rightarrow> u32 \<Rightarrow> bool) \<Rightarrow> (u64 \<rightharpoonup> u32) \<Rightarrow> PersistenceResponseType set \<Rightarrow> PersistenceResponseType set \<Rightarrow>
     SharedState \<Rightarrow> bool" where
  "desk asked disk R L s \<longleftrightarrow>
     set (persistence_response s) \<subseteq> R \<and>
     (\<forall>i m. outstanding_messages s i = Some m \<longrightarrow> i < next_message_id s) \<and>
     (\<forall>i t c. (i, t, c) \<in> ballots s \<or> PR_VotePersisted i t c \<in> R \<longrightarrow>
        i < next_message_id s \<and>
        (\<forall>m cb. outstanding_messages s i = Some m \<longrightarrow> voter (message_type m) = Some cb \<longrightarrow> asked cb t c) \<and>
        (\<forall>t'. (i, t') \<in> requests s \<longrightarrow> t' = t \<and> c = identity s)) \<and>
     (\<forall>i t c. PR_VotePersisted i t c \<in> R \<longrightarrow> disk t = Some c) \<and>
     (\<forall>i. i \<in> appends s \<or> PR_LogPersisted i \<in> R \<union> L \<longrightarrow>
        i < next_message_id s \<and> (\<forall>m. outstanding_messages s i = Some m \<longrightarrow> voter (message_type m) = None)) \<and>
     (\<forall>i t. (i, t) \<in> requests s \<longrightarrow>
        i < next_message_id s \<and> (\<forall>m. outstanding_messages s i = Some m \<longrightarrow> electing (message_type m)) \<and>
        (\<forall>t'. (i, t') \<in> requests s \<longrightarrow> t' = t)) \<and>
     (\<forall>i t v. QR_RequestVoteResponse i t v \<in> set (quorum_response s) \<longrightarrow> (i, t) \<in> requests s) \<and>
     (\<forall>cb \<in> granted s. \<exists>t c. asked cb t c \<and> disk t = Some c)"

lemma same_kind_refl [simp]: "same_kind m m"
  by (simp add: same_kind_def)

lemma same_kind_trans: "same_kind m m' \<Longrightarrow> same_kind m' m'' \<Longrightarrow> same_kind m m''"
  by (simp add: same_kind_def)

lemma new_id_le: "new_id s u i \<Longrightarrow> new_ids k u s' \<Longrightarrow> new_id s s' i" "new_id u s' i \<Longrightarrow> new_ids k s u \<Longrightarrow> new_id s s' i"
  by (auto simp: new_id_def new_ids_def)

lemma movesD:
  assumes "moves asked disk k s s'"
  shows "new_ids k s s'" "identity s' = identity s" "set (persistence_response s') \<subseteq> set (persistence_response s)"
    "set (quorum_response s') \<subseteq> set (quorum_response s)"
    "\<And>i m'. outstanding_messages s' i = Some m' \<Longrightarrow>
        (\<exists>m. outstanding_messages s i = Some m \<and> same_kind m m') \<or> new_id s s' i"
    "\<And>i t c. (i, t, c) \<in> ballots s' \<Longrightarrow> (i, t, c) \<in> ballots s \<or>
        new_id s s' i \<and> (\<forall>m cb. outstanding_messages s' i = Some m \<longrightarrow> voter (message_type m) = Some cb \<longrightarrow> asked cb t c) \<and>
        (\<forall>t'. (i, t') \<in> requests s' \<longrightarrow> t' = t \<and> c = identity s)"
    "\<And>i. i \<in> appends s' \<Longrightarrow> i \<in> appends s \<or>
        new_id s s' i \<and> (\<forall>m. outstanding_messages s' i = Some m \<longrightarrow> voter (message_type m) = None)"
    "requests s \<subseteq> requests s'"
    "\<And>i t. (i, t) \<in> requests s' \<Longrightarrow> (i, t) \<in> requests s \<or>
        new_id s s' i \<and> (\<forall>m. outstanding_messages s' i = Some m \<longrightarrow> electing (message_type m)) \<and>
        (\<forall>t'. (i, t') \<in> requests s' \<longrightarrow> t' = t)"
    "\<And>cb. cb \<in> granted s' \<Longrightarrow> cb \<in> granted s \<or> (\<exists>t c. asked cb t c \<and> disk t = Some c)"
  using assms unfolding moves_def by blast+

lemma deskD:
  assumes "desk asked disk R L s"
  shows "set (persistence_response s) \<subseteq> R"
    "\<And>i m. outstanding_messages s i = Some m \<Longrightarrow> i < next_message_id s"
    "\<And>i t c. (i, t, c) \<in> ballots s \<or> PR_VotePersisted i t c \<in> R \<Longrightarrow> i < next_message_id s"
    "\<And>i t c m cb. (i, t, c) \<in> ballots s \<or> PR_VotePersisted i t c \<in> R \<Longrightarrow> outstanding_messages s i = Some m \<Longrightarrow>
        voter (message_type m) = Some cb \<Longrightarrow> asked cb t c"
    "\<And>i t c t'. (i, t, c) \<in> ballots s \<or> PR_VotePersisted i t c \<in> R \<Longrightarrow> (i, t') \<in> requests s \<Longrightarrow> t' = t \<and> c = identity s"
    "\<And>i t c. PR_VotePersisted i t c \<in> R \<Longrightarrow> disk t = Some c"
    "\<And>i. i \<in> appends s \<or> PR_LogPersisted i \<in> R \<union> L \<Longrightarrow> i < next_message_id s"
    "\<And>i m. i \<in> appends s \<or> PR_LogPersisted i \<in> R \<union> L \<Longrightarrow> outstanding_messages s i = Some m \<Longrightarrow> voter (message_type m) = None"
    "\<And>i t. (i, t) \<in> requests s \<Longrightarrow> i < next_message_id s"
    "\<And>i t m. (i, t) \<in> requests s \<Longrightarrow> outstanding_messages s i = Some m \<Longrightarrow> electing (message_type m)"
    "\<And>i t t'. (i, t) \<in> requests s \<Longrightarrow> (i, t') \<in> requests s \<Longrightarrow> t' = t"
    "\<And>i t v. QR_RequestVoteResponse i t v \<in> set (quorum_response s) \<Longrightarrow> (i, t) \<in> requests s"
    "\<And>cb. cb \<in> granted s \<Longrightarrow> \<exists>t c. asked cb t c \<and> disk t = Some c"
  using assms unfolding desk_def by blast+

lemma deskI:
  assumes "set (persistence_response s) \<subseteq> R"
    "\<And>i m. outstanding_messages s i = Some m \<Longrightarrow> i < next_message_id s"
    "\<And>i t c. (i, t, c) \<in> ballots s \<or> PR_VotePersisted i t c \<in> R \<Longrightarrow> i < next_message_id s"
    "\<And>i t c m cb. (i, t, c) \<in> ballots s \<or> PR_VotePersisted i t c \<in> R \<Longrightarrow> outstanding_messages s i = Some m \<Longrightarrow>
        voter (message_type m) = Some cb \<Longrightarrow> asked cb t c"
    "\<And>i t c t'. (i, t, c) \<in> ballots s \<or> PR_VotePersisted i t c \<in> R \<Longrightarrow> (i, t') \<in> requests s \<Longrightarrow> t' = t \<and> c = identity s"
    "\<And>i t c. PR_VotePersisted i t c \<in> R \<Longrightarrow> disk t = Some c"
    "\<And>i. i \<in> appends s \<or> PR_LogPersisted i \<in> R \<union> L \<Longrightarrow> i < next_message_id s"
    "\<And>i m. i \<in> appends s \<or> PR_LogPersisted i \<in> R \<union> L \<Longrightarrow> outstanding_messages s i = Some m \<Longrightarrow> voter (message_type m) = None"
    "\<And>i t. (i, t) \<in> requests s \<Longrightarrow> i < next_message_id s"
    "\<And>i t m. (i, t) \<in> requests s \<Longrightarrow> outstanding_messages s i = Some m \<Longrightarrow> electing (message_type m)"
    "\<And>i t t'. (i, t) \<in> requests s \<Longrightarrow> (i, t') \<in> requests s \<Longrightarrow> t' = t"
    "\<And>i t v. QR_RequestVoteResponse i t v \<in> set (quorum_response s) \<Longrightarrow> (i, t) \<in> requests s"
    "\<And>cb. cb \<in> granted s \<Longrightarrow> \<exists>t c. asked cb t c \<and> disk t = Some c"
  shows "desk asked disk R L s"
  unfolding desk_def by (intro conjI allI impI ballI;
      (rule assms(1) | (rule assms(2-), assumption+) | (rule assms(5) [THEN conjunct1], assumption+) |
       (rule assms(5) [THEN conjunct2], assumption+)))

lemma moves_desk:
  assumes m: "moves asked disk k s s'" and d: "desk asked disk R L s"
  shows "desk asked disk R L s'"
proof -
  note M = movesD [OF m] and D = deskD [OF d]
  have n: "next_message_id s \<le> next_message_id s'" using M(1) by (simp add: new_ids_def)
  have lt: "i < next_message_id s'" if "i < next_message_id s \<or> new_id s s' i" for i using that n by (auto simp: new_id_def)
  have old: "\<exists>m. outstanding_messages s i = Some m \<and> same_kind m m'"
    if "outstanding_messages s' i = Some m'" "i < next_message_id s" for i m'
    using M(5) [OF that(1)] that(2) by (auto simp: new_id_def)
  have req: "(i, t) \<in> requests s" if "(i, t) \<in> requests s'" "i < next_message_id s" for i t
    using M(9) [OF that(1)] that(2) by (auto simp: new_id_def)
  show ?thesis
  proof (rule deskI)
    show "set (persistence_response s') \<subseteq> R" using M(3) D(1) by blast
  next
    fix i m assume "outstanding_messages s' i = Some m"
    then show "i < next_message_id s'" using M(5) D(2) lt by blast
  next
    fix i t c assume b: "(i, t, c) \<in> ballots s' \<or> PR_VotePersisted i t c \<in> R"
    then show "i < next_message_id s'" using M(6) D(3) lt by blast
    show "asked cb t c" if "outstanding_messages s' i = Some m" "voter (message_type m) = Some cb" for m cb
    proof (cases "(i, t, c) \<in> ballots s \<or> PR_VotePersisted i t c \<in> R")
      case True
      from old [OF that(1) D(3) [OF True]] D(4) [OF True] that(2) show ?thesis by (auto simp: same_kind_def)
    next
      case False
      with M(6) b that show ?thesis by blast
    qed
    show "t' = t \<and> c = identity s'" if "(i, t') \<in> requests s'" for t'
    proof (cases "(i, t, c) \<in> ballots s \<or> PR_VotePersisted i t c \<in> R")
      case True
      from D(5) [OF True req [OF that D(3) [OF True]]] M(2) show ?thesis by simp
    next
      case False
      with M(6) b that have "t' = t \<and> c = identity s" by blast
      with M(2) show ?thesis by simp
    qed
  next
    fix i assume b: "i \<in> appends s' \<or> PR_LogPersisted i \<in> R \<union> L"
    then show "i < next_message_id s'" using M(7) D(7) lt by blast
    show "voter (message_type m) = None" if "outstanding_messages s' i = Some m" for m
    proof (cases "i \<in> appends s \<or> PR_LogPersisted i \<in> R \<union> L")
      case True
      from old [OF that D(7) [OF True]] D(8) [OF True] show ?thesis by (auto simp: same_kind_def)
    next
      case False
      with M(7) b that show ?thesis by blast
    qed
  next
    fix i t assume b: "(i, t) \<in> requests s'"
    then show "i < next_message_id s'" using M(9) D(9) lt by blast
    show "electing (message_type m)" if "outstanding_messages s' i = Some m" for m
    proof (cases "(i, t) \<in> requests s")
      case True
      from old [OF that D(9) [OF True]] D(10) [OF True] show ?thesis by (auto simp: same_kind_def)
    next
      case False
      with M(9) b that show ?thesis by blast
    qed
    show "t' = t" if "(i, t') \<in> requests s'" for t'
      using M(9) [OF b] D(11) req [OF that] D(9) that by blast
  next
    fix i t v assume "QR_RequestVoteResponse i t v \<in> set (quorum_response s')"
    then show "(i, t) \<in> requests s'" using M(4,8) D(12) by blast
  next
    fix cb assume "cb \<in> granted s'"
    then show "\<exists>t c. asked cb t c \<and> disk t = Some c" using M(10) D(13) by blast
  next
    show "disk t = Some c" if "PR_VotePersisted i t c \<in> R" for i t c using D(6) that .
  qed
qed

section \<open>Shapes of a step\<close>

definition room :: "nat \<Rightarrow> SharedState \<Rightarrow> bool" where
  "room k s \<longleftrightarrow> unat (next_message_id s) + k < 2 ^ 64"

lemma room_next: "room (Suc k) s \<Longrightarrow> unat (next_message_id s + 1) = unat (next_message_id s) + 1"
  by (simp add: room_def unat_word_ariths)

lemma new_ids_simps [simp]:
  "next_message_id s' = next_message_id s \<Longrightarrow> new_ids k s s'"
  "room (Suc k) s \<Longrightarrow> next_message_id s' = next_message_id s + 1 \<Longrightarrow> new_ids (Suc k) s s'"
  "room (Suc k) s \<Longrightarrow> next_message_id s' = next_message_id s + 1 \<Longrightarrow> new_id s s' (next_message_id s)"
  using room_next [of k s] by (simp_all add: new_ids_def new_id_def word_le_nat_alt word_less_nat_alt)

text \<open>A step that registers no message: it may use up an identifier, answer callbacks, and truncate the log.\<close>

lemma moves_calm:
  assumes "new_ids k s s'" "identity s' = identity s" "outstanding_messages s' = outstanding_messages s"
    "set (persistence_response s') \<subseteq> set (persistence_response s)" "set (quorum_response s') \<subseteq> set (quorum_response s)"
    "ballots s' = ballots s" "appends s' = appends s" "requests s' = requests s" "granted s' = granted s"
  shows "moves asked disk k s s'"
  using assms unfolding moves_def by (intro conjI) (simp_all, blast?)

text \<open>A step that registers one message under the next identifier.\<close>

lemma moves_file:
  assumes "room (Suc k) s" "next_message_id s' = next_message_id s + 1" "identity s' = identity s"
    "outstanding_messages s' = (outstanding_messages s)(next_message_id s \<mapsto> m)"
    "persistence_response s' = persistence_response s" "quorum_response s' = quorum_response s"
    "persistence_work s' = persistence_work s @ ts"
    "requests s' = requests s" "granted s' = granted s"
    "(\<exists>t c. ts = [PT_AppendVote (next_message_id s) t c] \<and> (\<forall>cb. voter (message_type m) = Some cb \<longrightarrow> asked cb t c)) \<or>
     (\<exists>d r. ts = [PT_AppendLog (next_message_id s) d r] \<and> voter (message_type m) = None) \<or> ts = []"
    "\<And>t. (next_message_id s, t) \<notin> requests s"
  shows "moves asked disk (Suc k) s s'"
proof -
  have id: "new_ids (Suc k) s s'" "new_id s s' (next_message_id s)" using assms(1,2) by simp_all
  have b: "ballots s' = ballots s \<union> {(i, t, c). PT_AppendVote i t c \<in> set ts}"
    "appends s' = appends s \<union> {i. \<exists>d r. PT_AppendLog i d r \<in> set ts}"
    using assms(7) by (auto simp: ballots_def appends_def)
  show ?thesis
    unfolding moves_def
    by (intro conjI) (use id b assms(3-11) in \<open>auto\<close>)
qed

text \<open>A step that handles a response: messages are answered, dropped or updated.\<close>

lemma moves_answer:
  assumes "next_message_id s' = next_message_id s" "identity s' = identity s"
    "set (persistence_response s') \<subseteq> set (persistence_response s)" "set (quorum_response s') \<subseteq> set (quorum_response s)"
    "ballots s' = ballots s" "appends s' = appends s" "requests s' = requests s"
    "\<And>i m'. outstanding_messages s' i = Some m' \<Longrightarrow> \<exists>m. outstanding_messages s i = Some m \<and> same_kind m m'"
    "\<And>cb. cb \<in> granted s' \<Longrightarrow> cb \<in> granted s \<or> (\<exists>t c. asked cb t c \<and> disk t = Some c)"
  shows "moves asked disk k s s'"
  using assms(1-7) unfolding moves_def by (intro conjI allI impI ballI; (blast dest: assms(8,9))?) (simp_all)

section \<open>Requests of other nodes and clients\<close>

lemmas sent_defs = ballots_def appends_def requests_def granted_def

lemma send_callback_granted [simp]:
  "r \<noteq> Resp_RequestVote True \<Longrightarrow> granted (send_callback cb r s) = granted s"
  by (auto simp: granted_def send_callback_def)

lemma desk_next: "desk asked disk R L s \<Longrightarrow> (next_message_id s, t) \<notin> requests s"
  using deskD(9) [of asked disk R L s "next_message_id s" t] by auto

text \<open>The desk sees the same of two states.\<close>

definition same_desk :: "SharedState \<Rightarrow> SharedState \<Rightarrow> bool" where
  "same_desk s s' \<longleftrightarrow>
     next_message_id s' = next_message_id s \<and> identity s' = identity s \<and> outstanding_messages s' = outstanding_messages s \<and>
     persistence_response s' = persistence_response s \<and> quorum_response s' = quorum_response s \<and>
     ballots s' = ballots s \<and> appends s' = appends s \<and> requests s' = requests s \<and> granted s' = granted s"

lemma same_deskD:
  assumes "same_desk s s'"
  shows "next_message_id s' = next_message_id s" "identity s' = identity s" "outstanding_messages s' = outstanding_messages s"
    "persistence_response s' = persistence_response s" "quorum_response s' = quorum_response s"
    "ballots s' = ballots s" "appends s' = appends s" "requests s' = requests s" "granted s' = granted s"
  using assms by (simp_all add: same_desk_def)

lemma same_desk_core:
  assumes "core s' = core s"
  shows "same_desk s s'"
  by (simp add: same_desk_def sent_defs core_eqD [OF assms])

lemma same_deskI:
  assumes "next_message_id s' = next_message_id s" "identity s' = identity s" "outstanding_messages s' = outstanding_messages s"
    "persistence_response s' = persistence_response s" "quorum_response s' = quorum_response s"
    "persistence_work s' = persistence_work s" "quorum_worker_tasks s' = quorum_worker_tasks s" "responses s' = responses s"
  shows "same_desk s s'"
  using assms by (simp add: same_desk_def sent_defs)

lemma same_desk_trans: "same_desk s u \<Longrightarrow> same_desk u s' \<Longrightarrow> same_desk s s'"
  by (simp add: same_desk_def)

lemma same_desk_upd [simp]: "same_desk s (upd_vol f s)"
  by (rule same_deskI) (simp_all add: upd_vol_def)

lemma same_desk_send [simp]: "r \<noteq> Resp_RequestVote True \<Longrightarrow> same_desk s (send_callback cb r s)"
  by (simp add: same_desk_def) (simp add: sent_defs send_callback_def)

lemma same_desk_commit [simp]: "same_desk s (update_commit_index n s)"
  unfolding update_commit_index_def
  by (rule same_desk_trans [OF same_desk_upd same_desk_core]) simp

lemma same_desk_simps [simp]:
  "same_desk s s" "same_desk s (bump_version s)" "same_desk s (broadcast_committed_entries n s)"
  "same_desk s (snd (retry_deferred_broadcast s))" "same_desk s (note_entry e s)"
  by (rule same_desk_core, simp)+ (simp add: note_entry_def)

lemma same_desk_leader [simp]: "same_desk s (recognise_leader r s)"
  by (rule same_deskI) (simp_all add: recognise_leader_def upd_vol_def)

lemma moves_same: "same_desk s s' \<Longrightarrow> moves asked disk k s s'"
  by (rule moves_calm) (simp_all add: same_desk_def)

lemma moves_same_left: "same_desk s u \<Longrightarrow> moves asked disk k u s' \<Longrightarrow> moves asked disk k s s'"
  by (simp add: same_desk_def moves_def new_ids_def new_id_def)

lemma moves_same_right: "moves asked disk k s u \<Longrightarrow> same_desk u s' \<Longrightarrow> moves asked disk k s s'"
  by (simp add: same_desk_def moves_def new_ids_def new_id_def)

lemma desk_same: "same_desk s s' \<Longrightarrow> desk asked disk R L s' = desk asked disk R L s"
  by (simp add: same_desk_def desk_def)

lemma room_same: "same_desk s s' \<Longrightarrow> room k s' = room k s"
  by (simp add: same_desk_def room_def)

text \<open>An identifier is used up and nothing else.\<close>

lemma moves_skip: "room (Suc k) s \<Longrightarrow> same_desk (s\<lparr>next_message_id := next_message_id s + 1\<rparr>) s' \<Longrightarrow> moves asked disk (Suc k) s s'"
  by (rule moves_same_right [OF moves_calm]) (simp_all add: sent_defs)

text \<open>A task for the persistence worker and a message, under one new identifier.\<close>

lemma moves_file_task:
  assumes "room (Suc k) s" "desk asked disk R L s" "same_desk (s\<lparr>next_message_id := next_message_id s + 1\<rparr>) u"
    and "t = PT_AppendVote (next_message_id s) tm c \<and> (\<forall>cb. voter mt = Some cb \<longrightarrow> asked cb tm c) \<or>
      t = PT_AppendLog (next_message_id s) d r \<and> voter mt = None"
    and "same_desk (u\<lparr>persistence_work := persistence_work u @ [t]\<rparr>) v"
  shows "moves asked disk (Suc k) s (insert_outstanding (next_message_id s) \<lparr> om_id = i, outstanding_responses = n, message_type = mt \<rparr> v)"
proof -
  have u: "next_message_id v = next_message_id s + 1" "identity v = identity s" "outstanding_messages v = outstanding_messages s"
    "persistence_response v = persistence_response s" "quorum_response v = quorum_response s"
    "requests v = requests s" "granted v = granted s"
    using same_deskD [OF assms(3)] same_deskD [OF assms(5)] by (simp_all add: requests_def granted_def)
  have b: "ballots v = ballots s \<union> {(i, tm, c). PT_AppendVote i tm c = t}"
    "appends v = appends s \<union> {i. \<exists>d r. PT_AppendLog i d r = t}"
  proof -
    have "ballots u = ballots s" "appends u = appends s"
      using same_deskD(6,7) [OF assms(3)] by (simp_all add: ballots_def appends_def)
    moreover have "ballots (u\<lparr>persistence_work := persistence_work u @ [t]\<rparr>) = ballots u \<union> {(i, tm, c). PT_AppendVote i tm c = t}"
      "appends (u\<lparr>persistence_work := persistence_work u @ [t]\<rparr>) = appends u \<union> {i. \<exists>d r. PT_AppendLog i d r = t}"
      by (auto simp: ballots_def appends_def)
    ultimately show "ballots v = ballots s \<union> {(i, tm, c). PT_AppendVote i tm c = t}"
      "appends v = appends s \<union> {i. \<exists>d r. PT_AppendLog i d r = t}"
      using same_deskD(6,7) [OF assms(5)] by simp_all
  qed
  let ?s = "insert_outstanding (next_message_id s) \<lparr> om_id = i, outstanding_responses = n, message_type = mt \<rparr> v"
  have id: "new_ids (Suc k) s ?s" "new_id s ?s (next_message_id s)"
    using assms(1) u(1) by (simp_all add: insert_outstanding_def)
  show ?thesis
    unfolding moves_def
    by (intro conjI) (use id u b assms(4) desk_next [OF assms(2)] in \<open>auto simp: insert_outstanding_def sent_defs\<close>)
qed

lemmas moves_file_vote = moves_file_task [OF _ _ _ disjI1 [OF conjI [OF refl]]]
lemmas moves_file_log = moves_file_task [OF _ _ _ disjI2 [OF conjI [OF refl]]]

lemma apply_log_entry_moves:
  assumes "room (Suc k) s" "desk asked disk R L s"
  shows "moves asked disk (Suc k) s (apply_log_entry cp r cb s)"
proof -
  let ?s1 = "s\<lparr>next_message_id := next_message_id s + 1\<rparr>"
  define s2 where "s2 = (case ae_entry r of Some e \<Rightarrow> note_entry e ?s1 | None \<Rightarrow> ?s1)"
  define data where "data = (case ae_entry r of Some e \<Rightarrow> le_data e | None \<Rightarrow> [])"
  have s2: "same_desk ?s1 s2" by (simp add: s2_def split: option.splits)
  have fail: "moves asked disk (Suc k) s (send_callback cb (wanted_previous_entry s2) s2)"
    by (rule moves_skip [OF assms(1) same_desk_trans [OF s2]]) (simp add: wanted_previous_entry_def)
  have eq: "apply_log_entry cp r cb s =
    (case log_entry_from_bytes cp data of
        None \<Rightarrow> send_callback cb (wanted_previous_entry s2) s2
      | Some owned_entry \<Rightarrow>
          (let (queued, s3) = persistence_send (PT_AppendLog (next_message_id s) data (ae_request_id r)) s2 in
           if \<not> queued then send_callback cb (wanted_previous_entry s3) s3
           else
             let s4 = upd_vol (\<lambda>v. v\<lparr>replication_log := replication_log v @ [owned_entry]\<rparr>) s3;
                 s5 = (if ae_commit_index r > commit_index (vol s4)
                       then update_commit_index (ae_commit_index r) s4 else s4) in
             insert_outstanding (next_message_id s)
               \<lparr> om_id = next_message_id s, outstanding_responses = 1, message_type = OM_AppendLog cb \<rparr> s5))"
    by (simp add: apply_log_entry_def s2_def data_def Let_def split: option.splits)
  show ?thesis
    unfolding eq
    by (auto simp: persistence_send_def Let_def fail split: option.splits
        intro!: moves_file_log [OF assms s2, where d = data and r = "ae_request_id r"] same_desk_trans [OF same_desk_upd same_desk_commit])
qed

lemma desk_skip:
  assumes "room (Suc k) s" "same_desk (s\<lparr>next_message_id := next_message_id s + 1\<rparr>) s'" "desk asked disk R L s"
  shows "desk asked disk R L s'"
  by (rule moves_desk [OF moves_skip [OF assms(1,2)] assms(3)])

lemma follower_append_entries_moves:
  assumes "room (Suc k) s" "desk asked disk R L s" "follower_append_entries cp ev r cb (d, s) = (c, d', s')"
  shows "moves asked disk (Suc k) s s'"
proof -
  let ?l = "recognise_leader r s"
  have l: "same_desk s ?l" by simp
  have rec: "moves asked disk (Suc k) s (apply_log_entry cp r cb ?l)"
    by (rule moves_same_left [OF l apply_log_entry_moves])
       (use assms(1,2) in \<open>simp_all add: room_same [OF l] desk_same [OF l]\<close>)
  have send: "moves asked disk (Suc k) s (send_callback cb x u)" if "same_desk s u" "x \<noteq> Resp_RequestVote True" for x u
    by (rule moves_same [OF same_desk_trans [OF that(1)]]) (simp add: that(2))
  show ?thesis
    using assms(3) rec apply_log_entry_moves [OF assms(1,2), of cp r cb] l
    by (auto simp: follower_append_entries_def handle_new_leader_def handle_heartbeat_def wanted_previous_entry_def
        handle_non_consecutive_request_def send_unrecognized_leader_response_def Let_def
        intro!: send split: prod.splits if_splits)
qed

lemma requests_push:
  "requests (push_all_quorum q s) =
     requests s \<union> (if quorum_worker_tasks s = [] then {} else {(i, t). \<exists>lt li. q = QT_RequestVote i t lt li})"
  by (cases "quorum_worker_tasks s") (auto simp: requests_def push_all_quorum_def)

lemma same_desk_push [simp]:
  "\<forall>i t lt li. q \<noteq> QT_RequestVote i t lt li \<Longrightarrow> same_desk s (push_all_quorum q s)"
  by (simp add: same_desk_def requests_push) (simp add: sent_defs push_all_quorum_def)

lemma candidate_append_entries_moves: "moves asked disk k s (snd (candidate_append_entries ev r cb s))"
  by (rule moves_same)
     (auto simp: candidate_append_entries_def Let_def wanted_previous_entry_def intro: same_desk_trans [OF same_desk_leader same_desk_send])

lemma leader_append_entries_moves:
  assumes "room (Suc k) s"
  shows "moves asked disk (Suc k) s (snd (leader_append_entries ev r cb s))"
proof -
  let ?u = "recognise_leader r s"
  let ?v = "push_all_quorum (QT_StopHeartbeats (next_message_id ?u)) (?u\<lparr>next_message_id := next_message_id ?u + 1\<rparr>)"
  have "same_desk (?u\<lparr>next_message_id := next_message_id ?u + 1\<rparr>) ?v" by simp
  then have u: "same_desk (s\<lparr>next_message_id := next_message_id s + 1\<rparr>) ?v"
    by (rule same_desk_trans [rotated]) (simp add: same_desk_def recognise_leader_def sent_defs)
  have send: "moves asked disk (Suc k) s (send_callback cb x ?v)" if "x \<noteq> Resp_RequestVote True" for x
    by (rule moves_skip [OF assms same_desk_trans [OF u]]) (simp add: that)
  show ?thesis
    by (auto simp: leader_append_entries_def leader_handle_new_leader_def Let_def wanted_previous_entry_def
        intro: send moves_same)
qed

lemma raise_next_term_same [simp]: "same_desk s (raise_next_term t s)"
  by (simp add: raise_next_term_def)

lemma accept_vote_moves:
  assumes "room (Suc k) s" "desk asked disk R L s" "asked cb (rv_term r) (rv_candidate_id r)"
  shows "moves asked disk (Suc k) s (accept_vote r cb s)"
proof (cases "persistence_connected s")
  case True
  let ?u = "s\<lparr>next_message_id := next_message_id s + 1\<rparr>"
  let ?t = "PT_AppendVote (next_message_id s) (rv_term r) (rv_candidate_id r)"
  let ?v = "s\<lparr>persistence_work := persistence_work s @ [?t], term_votes := (term_votes s)(rv_term r \<mapsto> rv_candidate_id r),
      next_message_id := next_message_id s + 1\<rparr>"
  have "same_desk (?u\<lparr>persistence_work := persistence_work ?u @ [?t]\<rparr>) ?v" by (rule same_deskI) simp_all
  from moves_file_vote [OF assms(1,2) same_desk_simps(1) _ this, of "OM_RequestVote cb"] assms(3) True show ?thesis
    by (simp add: accept_vote_def persistence_send_def Let_def)
qed (simp add: accept_vote_def persistence_send_def Let_def moves_same)

lemma candidate_request_vote_moves:
  assumes "room (Suc k) s" "desk asked disk R L s" "asked cb (rv_term r) (rv_candidate_id r)"
  shows "moves asked disk (Suc k) s (snd (candidate_request_vote r cb s))"
proof -
  let ?u = "raise_next_term (rv_term r) s"
  have u: "same_desk s ?u" by simp
  have "moves asked disk (Suc k) s (accept_vote r cb ?u)"
    by (rule moves_same_left [OF u accept_vote_moves])
       (use assms in \<open>simp_all add: room_same [OF u] desk_same [OF u]\<close>)
  then show ?thesis
    by (simp add: candidate_request_vote_def Let_def moves_same [OF same_desk_trans [OF u]])
qed

lemma follower_request_vote_moves:
  assumes "room (Suc k) s" "desk asked disk R L s" "follower_request_vote r cb s = Inr (c, s')"
  shows "moves asked disk (Suc k) s s'"
proof -
  let ?u = "raise_next_term (rv_term r) s"
  have u: "same_desk s ?u" by simp
  note U = same_deskD [OF u]
  consider "s' = send_callback cb (Resp_RequestVote False) ?u"
    | m where "s' = insert_outstanding (next_message_id ?u) m (?u\<lparr>next_message_id := next_message_id ?u + 1\<rparr>)"
    using assms(3) by (auto simp: follower_request_vote_def Let_def send_callback_unwrap_def send_callback_def split: if_splits)
  then show ?thesis
  proof cases
    case 1
    then show ?thesis by (simp add: moves_same [OF same_desk_trans [OF u]])
  next
    case 2
    show ?thesis
      by (rule moves_same_left [OF u moves_file [where ts = "[]" and m = m]])
         (use assms(1) U 2 desk_next [OF assms(2)] in \<open>simp_all add: insert_outstanding_def room_def requests_def granted_def\<close>)
  qed
qed

lemma leader_write_batch_moves:
  assumes "room (Suc k) s" "desk asked disk R L s" "leader_write_batch cp ev b cb s = Inr s'"
  shows "moves asked disk (Suc k) s s'"
proof -
  let ?i = "next_message_id s" and ?s1 = "s\<lparr>next_message_id := next_message_id s + 1\<rparr>"
  have err: "moves asked disk (Suc k) s x" if "send_error_response cp msg cb u = Inr x" "same_desk ?s1 u" for msg u x
    using that by (auto simp: send_error_response_def intro!: moves_skip [OF assms(1)] same_desk_trans [OF that(2)])
  have ok: "moves asked disk (Suc k) s (update_volatile_state idx (register_outstanding_message ?i idx sz cb
      (dispatch_to_quorum ?i e (append_entry e ?s1\<lparr>persistence_work := persistence_work s @ [PT_AppendLog ?i (as_bytes e) ?i]\<rparr>))))"
    for idx sz e
  proof -
    let ?u = "append_entry e ?s1"
    have u: "same_desk ?s1 ?u" by (simp add: append_entry_def)
    have w: "persistence_work ?u = persistence_work s" by (simp add: append_entry_def upd_vol_def)
    let ?v = "dispatch_to_quorum ?i e (?u\<lparr>persistence_work := persistence_work s @ [PT_AppendLog ?i (as_bytes e) ?i]\<rparr>)"
    have "same_desk (?u\<lparr>persistence_work := persistence_work ?u @ [PT_AppendLog ?i (as_bytes e) ?i]\<rparr>) ?v"
      by (simp add: dispatch_to_quorum_def w)
    from moves_file_log [OF assms(1,2) u _ this, of "OM_WriteBatch False 0 cb idx sz"]
    have "moves asked disk (Suc k) s (register_outstanding_message ?i idx sz cb ?v)"
      by (simp add: register_outstanding_message_def)
    from moves_same_right [OF this same_desk_upd] show ?thesis by (simp add: update_volatile_state_def)
  qed
  have u: "same_desk ?s1 (append_entry e ?s1)" for e by (simp add: append_entry_def)
  have w: "persistence_work (append_entry e ?s1) = persistence_work s" for e by (simp add: append_entry_def upd_vol_def)
  from assms(3) show ?thesis
    unfolding leader_write_batch_def Let_def
    by (auto simp: create_and_append_log_entry_def queue_persistence_task_def persistence_send_def ok w intro: err [OF _ u] err
        split: option.splits if_splits)
qed

section \<open>Responses of the workers\<close>

lemma moves_remove [simp]: "moves asked disk k s (remove_outstanding i s)"
  by (rule moves_answer) (auto simp: remove_outstanding_def sent_defs split: if_splits)

lemma moves_update:
  "outstanding_messages s i = Some m \<Longrightarrow> same_kind m m' \<Longrightarrow> moves asked disk k s (insert_outstanding i m' (remove_outstanding i s))"
  by (rule moves_answer) (auto simp: insert_outstanding_def remove_outstanding_def sent_defs split: if_splits)

lemma moves_grant:
  assumes "asked cb t c" "disk t = Some c"
  shows "moves asked disk k s (send_callback cb (Resp_RequestVote True) (remove_outstanding i s))"
  by (rule moves_answer)
     (use assms in \<open>auto simp: remove_outstanding_def send_callback_def sent_defs split: if_splits\<close>)

lemma become_leader_same [simp]: "same_desk s (become_leader t s)"
  by (rule same_deskI) (simp_all add: become_leader_def)

lemma advance_commit_same [simp]: "same_desk s (advance_commit n s)"
proof -
  have "same_desk s (push_all_quorum (QT_UpdateCommitIndex n) (broadcast_committed_entries n (bump_version (upd_vol f s))))" for f
    by (rule same_desk_trans [OF same_desk_upd same_desk_trans [OF same_desk_core same_desk_push]]) simp_all
  then show ?thesis by (simp add: advance_commit_def)
qed

lemma moves_simps [simp]:
  "moves asked disk k s s"
  "r \<noteq> Resp_RequestVote True \<Longrightarrow> moves asked disk k s u \<Longrightarrow> moves asked disk k s (send_callback cb r u)"
  "moves asked disk k s u \<Longrightarrow> moves asked disk k s (become_leader t u)"
  "moves asked disk k s u \<Longrightarrow> moves asked disk k s (advance_commit n u)"
  by (simp_all add: moves_same moves_same_right)

lemma desk_vote:
  assumes "desk asked disk R L s" "PR_VotePersisted i t c \<in> R" "outstanding_messages s i = Some m" "message_type m = OM_RequestVote cb"
  shows "asked cb t c" "disk t = Some c"
  using deskD(4) [OF assms(1) disjI2 [OF assms(2)] assms(3)] deskD(6) [OF assms(1,2)] assms(4) by simp_all

lemma desk_log:
  assumes "desk asked disk R L s" "PR_LogPersisted i \<in> R" "outstanding_messages s i = Some m"
  shows "message_type m \<noteq> OM_RequestVote cb"
  using deskD(8) [OF assms(1) _ assms(3)] assms(2) by auto

lemma desk_election:
  assumes "desk asked disk R L s" "(i, t) \<in> requests s" "outstanding_messages s i = Some m"
  obtains pd votes where "message_type m = OM_CandidateElection pd votes"
  using deskD(10) [OF assms] by (cases "message_type m") auto

lemma follower_persistence_moves:
  assumes "desk asked disk R L s" "r \<in> R" "follower_persistence_response r s = Inr s'"
  shows "moves asked disk k s s'"
proof (cases r)
  case (PR_VotePersisted i t c)
  with assms(3) show ?thesis
    by (auto simp: follower_persistence_response_def follower_vote_persisted_def send_callback_unwrap_Inr Let_def
        intro!: moves_grant desk_vote [OF assms(1) assms(2) [unfolded PR_VotePersisted]]
        split: option.splits OutstandingMessageType.splits)
next
  case (PR_LogPersisted i)
  with assms(3) show ?thesis
    by (auto simp: follower_persistence_response_def follower_log_persisted_def Let_def
        split: option.splits OutstandingMessageType.splits)
qed

lemma candidate_persistence_moves:
  assumes "desk asked disk R L s" "r \<in> R" "candidate_persistence_response r s = Inr (e, s')"
  shows "moves asked disk k s s'"
proof (cases r)
  case (PR_VotePersisted i t c)
  with assms(3) show ?thesis
    by (auto simp: candidate_persistence_response_def candidate_vote_persisted_def Let_def same_kind_def
        intro!: moves_grant desk_vote [OF assms(1) assms(2) [unfolded PR_VotePersisted]] moves_update
        split: option.splits OutstandingMessageType.splits if_splits)
next
  case (PR_LogPersisted i)
  with assms(3) show ?thesis
    by (auto simp: candidate_persistence_response_def candidate_log_persisted_def send_callback_unwrap_Inr Let_def
        split: option.splits OutstandingMessageType.splits)
qed

lemma candidate_quorum_moves:
  assumes "desk asked disk R L s" "\<And>i t v. q = QR_RequestVoteResponse i t v \<Longrightarrow> (i, t) \<in> requests s"
    and "candidate_quorum_response q s = Inr (e, s')"
  shows "moves asked disk k s s'"
proof (cases q)
  case (QR_RequestVoteResponse i t v)
  show ?thesis
  proof (cases "outstanding_messages s i")
    case None
    with QR_RequestVoteResponse assms(3) show ?thesis
      by (simp add: candidate_quorum_response_def candidate_vote_response_def moves_same)
  next
    case (Some m)
    obtain pd votes where "message_type m = OM_CandidateElection pd votes"
      by (rule desk_election [OF assms(1,2) Some]) (rule QR_RequestVoteResponse)
    with QR_RequestVoteResponse assms(3) Some show ?thesis
      by (auto simp: candidate_quorum_response_def candidate_vote_response_def Let_def same_kind_def
          intro!: moves_update split: if_splits)
  qed
qed (use assms(3) in \<open>simp_all add: candidate_quorum_response_def moves_same\<close>)

lemma complete_write_batch_moves:
  "complete_write_batch cp idx cb (remove_outstanding i s) = Inr s' \<Longrightarrow> moves asked disk k s s'"
  by (auto simp: complete_write_batch_def Let_def)

lemma leader_persistence_moves:
  assumes "desk asked disk R L s" "r \<in> R" "leader_persistence_response cp r s = Inr s'"
  shows "moves asked disk k s s'"
proof (cases r)
  case (PR_VotePersisted i t c)
  with assms(3) show ?thesis
    by (auto simp: leader_persistence_response_def leader_vote_persisted_def Let_def
        intro!: moves_grant desk_vote [OF assms(1) assms(2) [unfolded PR_VotePersisted]]
        split: option.splits OutstandingMessageType.splits)
next
  case (PR_LogPersisted i)
  show ?thesis
  proof (cases "outstanding_messages s i")
    case None
    with PR_LogPersisted assms(3) show ?thesis by (simp add: leader_persistence_response_def leader_log_persisted_def)
  next
    case (Some m)
    with PR_LogPersisted assms(3) desk_log [OF assms(1) assms(2) [unfolded PR_LogPersisted] Some] show ?thesis
      by (auto simp: leader_persistence_response_def leader_log_persisted_def Let_def complete_noop_def same_kind_def
          dest: complete_write_batch_moves intro!: moves_update split: OutstandingMessageType.splits if_splits)
  qed
qed

lemma leader_quorum_moves:
  assumes "leader_quorum_response cp q s = Inr s'"
  shows "moves asked disk k s s'"
  using assms
  by (auto simp: leader_quorum_response_def handle_append_entries_response_def Let_def complete_noop_def same_kind_def
      dest: complete_write_batch_moves intro!: moves_update
      split: LocalQuorumTaskResponseType.splits option.splits OutstandingMessageType.splits if_splits)

lemma truncate_same [simp]: "same_desk s (truncate_log t i s)"
proof -
  have "same_desk u (snd (persistence_send (PT_TruncateLog n) u))" for u n
    by (simp add: persistence_send_def same_desk_def) (auto simp: sent_defs)
  from same_desk_trans [OF same_desk_upd this] show ?thesis by (simp add: truncate_log_def Let_def)
qed

lemma follower_quorum_same: "same_desk s (follower_quorum_response q s)"
  by (cases q) (simp_all add: follower_quorum_response_def same_desk_trans [OF truncate_same same_desk_simps(2)])

lemma tasks_update:
  assumes "n < length ts" "x \<noteq> q"
  shows "(\<exists>q' \<in> set (ts[n := ts ! n @ [q]]). x \<in> set q') \<longleftrightarrow> (\<exists>q' \<in> set ts. x \<in> set q')"
proof -
  have "set ts = set (take n ts) \<union> {ts ! n} \<union> set (drop (Suc n) ts)"
    by (subst id_take_nth_drop [OF assms(1)]) simp
  then show ?thesis using assms by (auto simp: upd_conv_take_nth_drop)
qed

lemma same_desk_push_one [simp]:
  assumes "\<forall>i t lt li. q \<noteq> QT_RequestVote i t lt li"
  shows "same_desk s (push_quorum n q s)"
proof (cases "n < length (quorum_worker_tasks s)")
  case True
  have ne: "QT_RequestVote i t lt li \<noteq> q" for i t lt li using assms by blast
  have "(\<exists>q' \<in> set ((quorum_worker_tasks s)[n := quorum_worker_tasks s ! n @ [q]]). \<exists>lt li. QT_RequestVote i t lt li \<in> set q') \<longleftrightarrow>
      (\<exists>q' \<in> set (quorum_worker_tasks s). \<exists>lt li. QT_RequestVote i t lt li \<in> set q')" for i t
    using tasks_update [OF True ne] by blast
  then have "requests (push_quorum n q s) = requests s"
    using True by (simp add: requests_def push_quorum_def)
  then show ?thesis by (simp add: same_desk_def) (simp add: push_quorum_def ballots_def appends_def granted_def)
qed (simp add: push_quorum_def)

lemma handle_backfill_moves:
  assumes "room (Suc k) s" "handle_backfill_request cp q s = Inr s'"
  shows "moves asked disk (Suc k) s s'"
proof -
  have sig: "moves asked disk (Suc k) s (send_truncate_signal node t i s)" for node t i
    by (simp add: send_truncate_signal_def Let_def moves_skip [OF assms(1)])
  show ?thesis
    using assms(2)
    by (auto simp: handle_backfill_request_def Let_def handle_follower_ahead_def handle_term_mismatch_def send_backfill_data_def
        sig moves_same split: prod.splits if_splits option.splits)
qed

end
