(* ===== verification/Vote_Days.thy ===== *)
theory Vote_Days
  imports Vote_Desk
begin

text \<open>
  When a node grants its vote. A day of a node is its run between a start and the next stop:
  steps of its state machine, and tasks and flushes of its persistence worker. On every day a
  vote request is answered with yes only when the row for the request's term and candidate
  is in the votes file.
\<close>

section \<open>Elections and leadership\<close>

lemma initiate_election_moves:
  assumes "room (Suc k) s" "desk asked disk R L s"
  shows "moves asked disk (Suc k) s (initiate_election s)"
proof -
  let ?i = "next_message_id s" and ?t = "next_term (vol s)" and ?s' = "initiate_election s"
  have f: "next_message_id ?s' = ?i + 1" "identity ?s' = identity s" "persistence_response ?s' = persistence_response s"
    "quorum_response ?s' = quorum_response s" "granted ?s' = granted s" "appends ?s' = appends s"
    "ballots ?s' \<subseteq> insert (?i, ?t, identity s) (ballots s)"
    by (auto simp: initiate_election_def Let_def persistence_send_def push_all_quorum_def insert_outstanding_def upd_vol_def
        granted_def appends_def ballots_def)
  obtain m where m: "outstanding_messages ?s' = (outstanding_messages s)(?i \<mapsto> m)" "electing (message_type m)"
    "voter (message_type m) = None"
    by (simp add: initiate_election_def Let_def persistence_send_def push_all_quorum_def insert_outstanding_def upd_vol_def)
  have "requests ?s' = requests (push_all_quorum (QT_RequestVote ?i ?t (last_log_term (vol s)) (last_log_index (vol s))) s)"
    by (simp add: requests_def initiate_election_def Let_def persistence_send_def push_all_quorum_def insert_outstanding_def upd_vol_def)
  then have r: "requests s \<subseteq> requests ?s'" "requests ?s' \<subseteq> insert (?i, ?t) (requests s)"
    by (auto simp: requests_push)
  have new: "t = ?t" if "(?i, t) \<in> requests ?s'" for t using that r(2) desk_next [OF assms(2)] by blast
  have id: "new_ids (Suc k) s ?s'" "new_id s ?s' ?i" using assms(1) f(1) by simp_all
  show ?thesis
    unfolding moves_def
  proof (intro conjI allI impI ballI)
    fix i m' assume "outstanding_messages ?s' i = Some m'"
    then show "(\<exists>m. outstanding_messages s i = Some m \<and> same_kind m m') \<or> new_id s ?s' i"
      using m(1) id(2) by (cases "i = ?i") auto
  next
    fix i t c assume b: "(i, t, c) \<in> ballots ?s'"
    show "(i, t, c) \<in> ballots s \<or> new_id s ?s' i \<and>
        (\<forall>m cb. outstanding_messages ?s' i = Some m \<longrightarrow> voter (message_type m) = Some cb \<longrightarrow> asked cb t c) \<and>
        (\<forall>t'. (i, t') \<in> requests ?s' \<longrightarrow> t' = t \<and> c = identity s)"
    proof (cases "(i, t, c) \<in> ballots s")
      case False
      with b f(7) have "i = ?i" "t = ?t" "c = identity s" by auto
      with id(2) m(1,3) new show ?thesis by simp
    qed simp
  next
    fix i t assume b: "(i, t) \<in> requests ?s'"
    show "(i, t) \<in> requests s \<or> new_id s ?s' i \<and>
        (\<forall>m. outstanding_messages ?s' i = Some m \<longrightarrow> electing (message_type m)) \<and> (\<forall>t'. (i, t') \<in> requests ?s' \<longrightarrow> t' = t)"
    proof (cases "(i, t) \<in> requests s")
      case False
      with b r(2) have "i = ?i" "t = ?t" by auto
      with id(2) m(1,2) new show ?thesis by simp
    qed simp
  qed (use id f(1-6) r(1) in simp_all)
qed

text \<open>What a step keeps, for steps that are made of several moves.\<close>

definition works ::
  "(callback \<Rightarrow> u64 \<Rightarrow> u32 \<Rightarrow> bool) \<Rightarrow> (u64 \<rightharpoonup> u32) \<Rightarrow> PersistenceResponseType set \<Rightarrow> PersistenceResponseType set \<Rightarrow>
     nat \<Rightarrow> SharedState \<Rightarrow> SharedState \<Rightarrow> bool" where
  "works asked disk R L k s s' \<longleftrightarrow>
     desk asked disk R L s' \<and> new_ids k s s' \<and> identity s' = identity s \<and> requests s \<subseteq> requests s'"

lemma moves_works: "moves asked disk k s s' \<Longrightarrow> desk asked disk R L s \<Longrightarrow> works asked disk R L k s s'"
  by (simp add: works_def moves_desk movesD(1,2,8))

lemma works_refl: "desk asked disk R L s \<Longrightarrow> works asked disk R L k s s"
  by (rule moves_works) simp_all

lemma works_trans: "works asked disk R L k s u \<Longrightarrow> works asked disk R L l u s' \<Longrightarrow> works asked disk R L (k + l) s s'"
  by (auto simp: works_def new_ids_def)

lemma works_mono: "works asked disk R L k s s' \<Longrightarrow> k \<le> l \<Longrightarrow> works asked disk R L l s s'"
  by (auto simp: works_def new_ids_def)

lemma works_desk: "works asked disk R L k s s' \<Longrightarrow> desk asked disk R L s'"
  by (simp add: works_def)

lemma works_step: "works asked disk R L k s u \<Longrightarrow> moves asked disk 0 u s' \<Longrightarrow> works asked disk R L k s s'"
  using works_trans [of asked disk R L k s u 0 s'] moves_works [of asked disk 0 u s' R L] by (simp add: works_def)

lemma works_room: "works asked disk R L k s s' \<Longrightarrow> room (k + l) s \<Longrightarrow> room l s'"
  by (auto simp: works_def new_ids_def room_def)

text \<open>Folds over responses.\<close>

lemma fold_works:
  assumes "fold_res f rs s = Inr s'" "works asked disk R L k s0 s"
    and "\<And>r u u'. r \<in> set rs \<Longrightarrow> works asked disk R L k s0 u \<Longrightarrow> f r u = Inr u' \<Longrightarrow> moves asked disk 0 u u'"
  shows "works asked disk R L k s0 s'"
  by (rule fold_res_invariant [where P = "works asked disk R L k s0", OF _ assms(2,1)])
     (rule works_step, assumption, rule assms(3))

lemma clear_queues [simp]:
  "moves asked disk k s (s\<lparr>persistence_response := []\<rparr>)" "moves asked disk k s (s\<lparr>quorum_response := []\<rparr>)"
  by (rule moves_calm; simp add: sent_defs)+

lemma initialize_leadership_works:
  assumes "room 2 s" "desk asked disk R L s" "initialize_leadership cp ev s = Inr s'"
  shows "works asked disk R L 2 s s'"
proof -
  let ?i = "next_message_id s"
  let ?s1 = "upd_vol (\<lambda>v. v\<lparr>next_log_index := of_nat (length (replication_log v))\<rparr>) (s\<lparr>next_message_id := ?i + 1\<rparr>)"
  define s2 where "s2 = push_all_quorum (QT_StartHeartbeats ?i (current_term (server_state ?s1)) (last_log_term (vol ?s1))
                    (last_log_index (vol ?s1)) (commit_index (vol ?s1))) ?s1"
  define u where "u = (if commit_index (vol s2) > 0 then broadcast_committed_entries (commit_index (vol s2)) s2 else s2)"
  have "same_desk ?s1 s2" by (simp add: s2_def)
  then have "same_desk (s\<lparr>next_message_id := ?i + 1\<rparr>) s2" by (rule same_desk_trans [OF same_desk_upd])
  then have u: "same_desk (s\<lparr>next_message_id := ?i + 1\<rparr>) u"
    by (rule same_desk_trans) (simp add: u_def)
  have w1: "works asked disk R L (Suc 0) s u"
    by (rule moves_works [OF moves_skip [OF _ u] assms(2)]) (use assms(1) in \<open>simp add: room_def\<close>)
  have room: "room (Suc 0) u" using works_room [OF w1, of 1] assms(1) by (simp add: numeral_2_eq_2)
  let ?j = "next_message_id u" and ?u1 = "u\<lparr>next_message_id := next_message_id u + 1\<rparr>"
  have "initialize_leadership cp ev s =
      bind_res (create_and_append_noop_entry cp ev (next_log_index (vol u)) ?j ?u1) (\<lambda>(noop_entry, s5).
        let (_, s6) = queue_persistence_task ?j noop_entry s5 in
        Inr (update_volatile_state (next_log_index (vol u))
              (register_noop_outstanding_message ?j (next_log_index (vol u)) (dispatch_to_quorum ?j noop_entry s6))))"
    by (simp add: initialize_leadership_def Let_def s2_def u_def)
  with assms(3) obtain e where s': "s' = update_volatile_state (next_log_index (vol u))
      (register_noop_outstanding_message ?j (next_log_index (vol u))
        (dispatch_to_quorum ?j e (snd (queue_persistence_task ?j e (append_entry e ?u1)))))"
    by (auto simp: create_and_append_noop_entry_def split_beta)
  have "moves asked disk (Suc 0) u s'"
  proof (cases "persistence_connected u")
    case True
    let ?a = "append_entry e ?u1" and ?t = "PT_AppendLog ?j (as_bytes e) ?j"
    have a: "same_desk ?u1 ?a" by (simp add: append_entry_def)
    have "same_desk (?a\<lparr>persistence_work := persistence_work ?a @ [?t]\<rparr>)
        (dispatch_to_quorum ?j e (?a\<lparr>persistence_work := persistence_work ?a @ [?t]\<rparr>))"
      by (simp add: dispatch_to_quorum_def)
    from moves_file_log [OF room works_desk [OF w1] a _ this, of "OM_NoOp False 0 (next_log_index (vol u))"]
    have "moves asked disk (Suc 0) u (register_noop_outstanding_message ?j (next_log_index (vol u))
        (dispatch_to_quorum ?j e (?a\<lparr>persistence_work := persistence_work ?a @ [?t]\<rparr>)))"
      by (simp add: register_noop_outstanding_message_def)
    from moves_same_right [OF this same_desk_upd] True show ?thesis
      unfolding s' by (simp add: update_volatile_state_def queue_persistence_task_def persistence_send_def append_entry_def)
  next
    case False
    let ?a = "dispatch_to_quorum ?j e (append_entry e ?u1)"
    have "same_desk (append_entry e ?u1) ?a" by (simp add: dispatch_to_quorum_def)
    then have a: "same_desk ?u1 ?a" by (rule same_desk_trans [rotated]) (simp add: append_entry_def)
    note A = same_deskD [OF a]
    have w: "persistence_work ?a = persistence_work u" by (simp add: dispatch_to_quorum_def append_entry_def push_all_quorum_def upd_vol_def)
    have "moves asked disk (Suc 0) u (register_noop_outstanding_message ?j (next_log_index (vol u)) ?a)"
      unfolding register_noop_outstanding_message_def
      by (rule moves_file [OF room, where ts = "[]"])
         (use A w desk_next [OF works_desk [OF w1]] in \<open>simp_all add: insert_outstanding_def requests_def granted_def\<close>)
    from moves_same_right [OF this same_desk_upd] False show ?thesis
      unfolding s' by (simp add: update_volatile_state_def queue_persistence_task_def persistence_send_def append_entry_def)
  qed
  from works_trans [OF w1 moves_works [OF this works_desk [OF w1]]] show ?thesis by (simp add: numeral_2_eq_2)
qed

section \<open>Time steps\<close>

lemma sent_queues [simp]:
  "ballots (s\<lparr>persistence_response := rs\<rparr>) = ballots s" "ballots (s\<lparr>quorum_response := qs\<rparr>) = ballots s"
  "appends (s\<lparr>persistence_response := rs\<rparr>) = appends s" "appends (s\<lparr>quorum_response := qs\<rparr>) = appends s"
  "requests (s\<lparr>persistence_response := rs\<rparr>) = requests s" "requests (s\<lparr>quorum_response := qs\<rparr>) = requests s"
  "granted (s\<lparr>persistence_response := rs\<rparr>) = granted s" "granted (s\<lparr>quorum_response := qs\<rparr>) = granted s"
  by (simp_all add: sent_defs)

lemma works_queues:
  assumes "works asked disk R L k s0 s" "set rs \<subseteq> R" "\<And>i t v. QR_RequestVoteResponse i t v \<in> set qs \<Longrightarrow> (i, t) \<in> requests s"
  shows "works asked disk R L k s0 (s\<lparr>persistence_response := rs\<rparr>)" "works asked disk R L k s0 (s\<lparr>quorum_response := qs\<rparr>)"
proof -
  have d: "desk asked disk R L s" using assms(1) by (rule works_desk)
  have "desk asked disk R L (s\<lparr>persistence_response := rs\<rparr>)" "desk asked disk R L (s\<lparr>quorum_response := qs\<rparr>)"
    using d assms(2,3) by (simp_all add: desk_def)
  with assms(1) show "works asked disk R L k s0 (s\<lparr>persistence_response := rs\<rparr>)" "works asked disk R L k s0 (s\<lparr>quorum_response := qs\<rparr>)"
    by (simp_all add: works_def new_ids_def)
qed

lemma candidate_persistence_loop_works:
  assumes "candidate_persistence_loop rs w s = Inr (e, w', s')" "works asked disk R L k s0 s" "set rs \<subseteq> R"
  shows "works asked disk R L k s0 s'"
  using assms
proof (induction rs w s rule: candidate_persistence_loop.induct)
  case (2 r rs w s)
  let ?u = "s\<lparr>persistence_response := rs\<rparr>"
  have u: "works asked disk R L k s0 ?u" using works_queues(1) [OF 2(3), of rs "[]"] 2(4) by simp
  from 2(2) obtain b v where v: "candidate_persistence_response r ?u = Inr (b, v)"
    by (cases "candidate_persistence_response r ?u") auto
  have "works asked disk R L k s0 v"
    by (rule works_step [OF u candidate_persistence_moves [OF works_desk [OF u] _ v]]) (use 2(4) in simp)
  with 2(1) [of b v] 2(2,4) v show ?case by (cases b) simp_all
qed simp

lemma candidate_quorum_loop_works:
  assumes "candidate_quorum_loop qs w s = Inr (e, w', s')" "works asked disk R L k s0 s"
    "\<And>i t v. QR_RequestVoteResponse i t v \<in> set qs \<Longrightarrow> (i, t) \<in> requests s"
  shows "works asked disk R L k s0 s'"
  using assms
proof (induction qs w s rule: candidate_quorum_loop.induct)
  case (2 q qs w s)
  let ?u = "s\<lparr>quorum_response := qs\<rparr>"
  have u: "works asked disk R L k s0 ?u"
    by (rule works_queues(2) [OF 2(3), of "[]"]) (simp, rule 2(4), rule list.set_intros(2))
  from 2(2) obtain b v where v: "candidate_quorum_response q ?u = Inr (b, v)"
    by (cases "candidate_quorum_response q ?u") auto
  have r: "requests ?u = requests s" by (simp add: requests_def)
  have m: "moves asked disk 0 ?u v"
    by (rule candidate_quorum_moves [OF works_desk [OF u] _ v]) (unfold r, rule 2(4), erule subst, rule list.set_intros(1))
  then have sub: "requests s \<subseteq> requests v" using movesD(8) r by blast
  show ?case
  proof (cases b)
    case True
    with 2(2) v works_step [OF u m] show ?thesis by simp
  next
    case False
    with 2(2) v have l: "candidate_quorum_loop qs (w + 1) v = Inr (e, w', s')" by simp
    show ?thesis
      by (rule 2(1) [OF False l works_step [OF u m]])
         (rule subsetD [OF sub], rule 2(4), rule list.set_intros(2))
  qed
qed simp

lemma candidate_time_step_works:
  assumes "candidate_time_step ev ev' (d, s) = Inr (c, w, d', s')" "desk asked disk R L s" "room 1 s"
  shows "works asked disk R L 1 s s'"
proof -
  from assms(1) obtain e w1 s1 where l1: "candidate_persistence_loop (persistence_response s) 0 s = Inr (e, w1, s1)"
    by (cases "candidate_persistence_loop (persistence_response s) 0 s") (auto simp: candidate_time_step_def)
  have w1: "works asked disk R L 0 s s1"
    by (rule candidate_persistence_loop_works [OF l1 works_refl [OF assms(2)] deskD(1) [OF assms(2)]])
  show ?thesis
  proof (cases e)
    case True
    with assms(1) l1 have "s' = s1" by (simp add: candidate_time_step_def)
    with works_mono [OF w1, of 1] show ?thesis by simp
  next
    case False
    with assms(1) l1 obtain e2 w2 s2 where l2: "candidate_quorum_loop (quorum_response s1) w1 s1 = Inr (e2, w2, s2)"
      by (cases "candidate_quorum_loop (quorum_response s1) w1 s1") (auto simp: candidate_time_step_def)
    have w2: "works asked disk R L 0 s s2"
      by (rule candidate_quorum_loop_works [OF l2 w1 deskD(12) [OF works_desk [OF w1]]])
    have elect: "works asked disk R L 1 s (initiate_election s2)"
      using works_trans [OF w2 moves_works [OF initiate_election_moves [of 0, OF works_room [OF w2]] works_desk [OF w2]]]
        assms(3) works_desk [OF w2] by simp
    have "works asked disk R L 1 s (snd (retry_deferred_broadcast u))" if "works asked disk R L 1 s u" for u
      by (rule works_step [OF that moves_same]) simp
    with False assms(1) l1 l2 works_mono [OF w2, of 1] elect show ?thesis
      by (auto simp: candidate_time_step_def candidate_check_election_def split_beta Let_def split: if_splits)
  qed
qed

lemma follower_time_step_works:
  assumes "follower_time_step ev (d, s) = Inr (c, w, d', s')" "desk asked disk R L s"
  shows "works asked disk R L 0 s s'"
proof -
  from assms(1) obtain s1 where l1: "follower_drain_persistence s = Inr s1"
    and s': "s' = snd (retry_deferred_broadcast (follower_drain_quorum s1))"
    by (cases "follower_drain_persistence s") (auto simp: follower_time_step_def split_beta Let_def split: option.splits)
  have "works asked disk R L 0 s (s\<lparr>persistence_response := []\<rparr>)" by (rule moves_works [OF _ assms(2)]) simp
  from fold_works [OF l1 [unfolded follower_drain_persistence_def] this]
  have w1: "works asked disk R L 0 s s1"
    using follower_persistence_moves works_desk deskD(1) [OF assms(2)] by blast
  have "same_desk u (fold follower_quorum_response qs u)" for qs u
  proof (induction qs arbitrary: u)
    case (Cons q qs)
    from same_desk_trans [OF follower_quorum_same Cons] show ?case by simp
  qed simp
  then have "works asked disk R L 0 s (follower_drain_quorum s1)"
    unfolding follower_drain_quorum_def
    by (rule works_step [OF works_step [OF w1 clear_queues(2)] moves_same])
  then show ?thesis unfolding s' by (rule works_step [OF _ moves_same]) simp
qed

lemma backfills_works:
  assumes "fold_res (handle_backfill_request cp) bs s = Inr s'" "works asked disk R L k s0 s" "room (k + length bs) s0"
  shows "works asked disk R L (k + length bs) s0 s'"
  using assms
proof (induction bs arbitrary: k s)
  case (Cons b bs)
  from Cons.prems(1) obtain u where u: "handle_backfill_request cp b s = Inr u"
    "fold_res (handle_backfill_request cp) bs u = Inr s'"
    by (cases "handle_backfill_request cp b s") auto
  have "room (Suc 0) s" by (rule works_room [OF Cons.prems(2)]) (use Cons.prems(3) in \<open>simp add: room_def\<close>)
  from works_trans [OF Cons.prems(2) moves_works [OF handle_backfill_moves [OF this u(1)] works_desk [OF Cons.prems(2)]]]
  have "works asked disk R L (Suc k) s0 u" by simp
  from Cons.IH [OF u(2) this] Cons.prems(3) show ?case by simp
qed simp

lemma length_backfill_requests: "length (backfill_requests qs) \<le> length qs"
  by (induction qs rule: backfill_requests.induct) auto

lemma initialize_leadership_queue: "initialize_leadership cp ev s = Inr s' \<Longrightarrow> quorum_response s' = quorum_response s"
  by (auto simp: initialize_leadership_def create_and_append_noop_entry_def Let_def queue_persistence_task_def
      persistence_send_def update_volatile_state_def register_noop_outstanding_message_def dispatch_to_quorum_def
      append_entry_def push_all_quorum_def split: if_splits prod.splits)

lemma leader_time_step_works:
  assumes "leader_time_step cp ev (d, s) = Inr (c, w, d', s')" "desk asked disk R L s"
    "room (2 + length (quorum_response s)) s"
  shows "works asked disk R L (2 + length (quorum_response s)) s s'"
proof -
  from assms(1) obtain w0 d0 s0 w1 s1 bs w2 s2 s3 where
    l0: "leader_initialize cp ev (d, s) = Inr (w0, d0, s0)" and l1: "process_persistence_responses cp s0 = Inr (w1, s1)"
    and l2: "process_quorum_responses cp s1 = Inr (bs, w2, s2)" and l3: "fold_res (handle_backfill_request cp) bs s2 = Inr s3"
    and s': "s' = snd (retry_deferred_broadcast s3)"
    by (auto simp: leader_time_step_def split_beta Let_def)
  have w0: "works asked disk R L 2 s s0"
    using l0 initialize_leadership_works [OF _ assms(2), of cp ev s0] works_refl [OF assms(2)] assms(3)
    by (auto simp: leader_initialize_def room_def split: if_splits)
  from l1 have f1: "fold_res (leader_persistence_response cp) (persistence_response s0) (s0\<lparr>persistence_response := []\<rparr>) = Inr s1"
    by (auto simp: process_persistence_responses_def)
  have "works asked disk R L 2 s (s0\<lparr>persistence_response := []\<rparr>)" by (rule works_step [OF w0]) simp
  from fold_works [OF f1 this] have w1: "works asked disk R L 2 s s1"
    using leader_persistence_moves works_desk deskD(1) [OF works_desk [OF w0]] by blast
  have "quorum_response s1 = quorum_response s0"
    by (rule fold_res_invariant [where P = "\<lambda>u. quorum_response u = quorum_response s0", OF _ _ f1])
       (simp_all add: leader_persistence_queues)
  then have q: "quorum_response s1 = quorum_response s"
    using l0 initialize_leadership_queue by (auto simp: leader_initialize_def split: if_splits)
  have "works asked disk R L 2 s (s1\<lparr>quorum_response := []\<rparr>)" by (rule works_step [OF w1]) simp
  from l2 obtain f2: "fold_res (leader_quorum_response cp) (quorum_response s1) (s1\<lparr>quorum_response := []\<rparr>) = Inr s2"
    and bs: "bs = backfill_requests (quorum_response s1)"
    by (auto simp: process_quorum_responses_def)
  have w2: "works asked disk R L 2 s s2"
    by (rule fold_works [OF f2 \<open>works asked disk R L 2 s (s1\<lparr>quorum_response := []\<rparr>)\<close>]) (rule leader_quorum_moves)
  have len: "length bs \<le> length (quorum_response s)" using bs q length_backfill_requests by simp
  have "works asked disk R L (2 + length bs) s s3"
    by (rule backfills_works [OF l3 w2]) (use assms(3) len in \<open>simp add: room_def\<close>)
  then have "works asked disk R L (2 + length (quorum_response s)) s s3" by (rule works_mono) (use len in simp)
  then show ?thesis unfolding s' by (rule works_step [OF _ moves_same]) simp
qed

lemma time_step_works:
  assumes "exec cp (Time_Step ev ev') x = Inr y" "desk asked disk R L (shared_state x)"
    "room (2 + length (quorum_response (shared_state x))) (shared_state x)"
  shows "works asked disk R L (2 + length (quorum_response (shared_state x))) (shared_state x) (shared_state y)"
proof -
  from assms(1) obtain c w d where "delegate_time_step cp ev ev' (state_delegate x) (shared_state x) = Inr (c, w, d, shared_state y)"
    by (auto simp: time_step_def)
  then show ?thesis
  proof (cases rule: delegate_time_stepE)
    case (follower f f')
    from works_mono [OF follower_time_step_works [OF this(3) assms(2)]] show ?thesis by simp
  next
    case (candidate k k')
    have "room 1 (shared_state x)" using assms(3) by (simp add: room_def)
    from works_mono [OF candidate_time_step_works [OF candidate(3) assms(2) this]] show ?thesis by simp
  next
    case (leader l l')
    from leader_time_step_works [OF this(3) assms(2,3)] show ?thesis .
  qed
qed

lemma accept_moves:
  assumes "exec cp (Accept ev m cb) x = Inr y" "desk asked disk R L (shared_state x)" "room 1 (shared_state x)"
    and "\<And>r. m = Msg_RequestVote r \<Longrightarrow> asked cb (rv_term r) (rv_candidate_id r)"
  shows "moves asked disk 1 (shared_state x) (shared_state y)"
proof (cases m)
  case (Msg_RequestVote r)
  with assms(1) obtain c d where "delegate_request_vote r cb (state_delegate x) (shared_state x) = Inr (c, d, shared_state y)"
    by (auto simp: accept_def)
  then show ?thesis
  proof (cases rule: delegate_request_voteE)
    case (follower f)
    from follower_request_vote_moves [of 0, OF _ assms(2) this(2)] assms(3) show ?thesis by simp
  next
    case other
    from candidate_request_vote_moves [of 0, OF _ assms(2) assms(4) [OF Msg_RequestVote]] assms(3) other show ?thesis by simp
  qed
next
  case (Msg_AppendEntries r)
  with assms(1) obtain c d where
    "delegate_append_entries cp ev r cb (state_delegate x) (shared_state x) = (c, d, shared_state y)"
    by (auto simp: accept_def split: prod.splits)
  then show ?thesis
  proof (cases rule: delegate_append_entriesE)
    case (follower f f')
    from follower_append_entries_moves [of 0, OF _ assms(2) this(3)] assms(3) show ?thesis by simp
  next
    case (candidate k)
    with candidate_append_entries_moves [of asked disk 1 "shared_state x" ev r cb] show ?thesis by simp
  next
    case (leader l)
    with leader_append_entries_moves [of 0 "shared_state x" asked disk ev r cb] assms(3) show ?thesis by simp
  qed
next
  case Msg_GetRaftState
  with assms(1) show ?thesis by (auto simp: accept_def)
next
  case (Msg_WriteBatch b)
  with assms(1,3) leader_write_batch_moves [of 0, OF _ assms(2), of cp ev b cb "shared_state y"] show ?thesis
    by (auto simp: accept_def split: if_splits)
qed

section \<open>Days\<close>

text \<open>The inputs asked for a vote with this callback.\<close>

definition asks :: "input list \<Rightarrow> callback \<Rightarrow> u64 \<Rightarrow> u32 \<Rightarrow> bool" where
  "asks is cb t c \<longleftrightarrow> (\<exists>ev r. Accept ev (Msg_RequestVote r) cb \<in> set is \<and> rv_term r = t \<and> rv_candidate_id r = c)"

text \<open>
  What the node relies on: a callback is not used twice, the persistence worker's queue brings
  what the worker has put there, a vote response answers a vote request that the node has sent
  since its start, with the request's term, and the identifiers do not run out.
\<close>

fun day_promise :: "input list \<Rightarrow> input \<Rightarrow> live_node \<Rightarrow> bool" where
  "day_promise is (Time_Step _ _) (x, w) = room (2 + length (quorum_response (shared_state x))) (shared_state x)"
| "day_promise is (Accept _ _ cb) (x, w) = (room 1 (shared_state x) \<and> (\<forall>ev m. Accept ev m cb \<notin> set is))"
| "day_promise is (Respond prs qrs) (x, w) =
     (set prs \<subseteq> set (response_queue w) \<and>
      (\<forall>i t v. QR_RequestVoteResponse i t v \<in> set qrs \<longrightarrow> (i, t) \<in> requests (shared_state x)))"

inductive node_day :: "capnp \<Rightarrow> csv \<Rightarrow> live_node \<Rightarrow> input list \<Rightarrow> live_node \<Rightarrow> bool" for cp cv p where
  dawn: "node_day cp cv p [] p"
| act: "node_day cp cv p is (x, w) \<Longrightarrow> votes_promise i x \<Longrightarrow> day_promise is i (x, w) \<Longrightarrow> exec cp i x = Inr y \<Longrightarrow>
    node_day cp cv p (is @ [i]) (y, w)"
| persist: "node_day cp cv p is (x, w) \<Longrightarrow> persistence_work (shared_state x) = t # ts \<Longrightarrow>
    process_task cv BATCH_SIZE t w = Inr w' \<Longrightarrow>
    node_day cp cv p is (x\<lparr>shared_state := (shared_state x)\<lparr>persistence_work := ts\<rparr>\<rparr>, w')"
| sync: "node_day cp cv p is (x, w) \<Longrightarrow> node_day cp cv p is (x, flush_pending_logs w)"

lemma node_day_life: "node_day cp cv p is q \<Longrightarrow> node_life cp cv p q"
  by (induction rule: node_day.induct) (blast intro: node_life.intros)+

text \<open>A node that has just started, whose votes file has one row for each term.\<close>

definition day_start :: "csv \<Rightarrow> live_node \<Rightarrow> bool" where
  "day_start cv = (\<lambda>(x, w).
     votes_recorded cv (x, w) \<and> fresh_node (shared_state x) \<and> persistence_work (shared_state x) = [] \<and>
     responses (shared_state x) = [] \<and> concat (quorum_worker_tasks (shared_state x)) = [] \<and>
     response_queue w = [] \<and> pending_log_responses w = [])"

definition live_desk :: "csv \<Rightarrow> input list \<Rightarrow> live_node \<Rightarrow> bool" where
  "live_desk cv is = (\<lambda>(x, w).
     desk (asks is) (disk_votes cv w) (set (response_queue w)) (set (pending_log_responses w)) (shared_state x) \<and>
     (\<forall>i t c. PR_VotePersisted i t c \<notin> set (pending_log_responses w)))"

lemma day_start_desk: "day_start cv (x, w) \<Longrightarrow> live_desk cv [] (x, w)"
  by (auto simp: day_start_def live_desk_def desk_def fresh_node_def sent_defs)

lemma desk_asked:
  assumes "desk asked disk R L s" "\<And>cb t c. asked cb t c \<Longrightarrow> asked' cb t c"
  shows "desk asked' disk R L s"
proof -
  note D = deskD [OF assms(1)]
  have "\<exists>t c. asked' cb t c \<and> disk t = Some c" if "cb \<in> granted s" for cb using D(13) [OF that] assms(2) by blast
  moreover note D(1-3) assms(2) [OF D(4)] D(5-12)
  ultimately show ?thesis by (rule deskI [rotated 12])
qed

text \<open>The persistence worker takes a task, and writes and reports.\<close>

lemma desk_work:
  assumes "desk asked disk R L s" "set ts \<subseteq> set (persistence_work s)" "disk \<subseteq>\<^sub>m disk'" "R \<subseteq> R'"
    and vote: "\<And>i t c. PR_VotePersisted i t c \<in> R' \<Longrightarrow> PR_VotePersisted i t c \<in> R \<or> (i, t, c) \<in> ballots s \<and> disk' t = Some c"
    and log: "\<And>i. PR_LogPersisted i \<in> R' \<union> L' \<Longrightarrow> PR_LogPersisted i \<in> R \<union> L \<or> i \<in> appends s"
  shows "desk asked disk' R' L' (s\<lparr>persistence_work := ts\<rparr>)"
proof -
  note D = deskD [OF assms(1)]
  let ?s = "s\<lparr>persistence_work := ts\<rparr>"
  have sub: "ballots ?s \<subseteq> ballots s" "appends ?s \<subseteq> appends s" and eq: "requests ?s = requests s" "granted ?s = granted s"
    using assms(2) by (auto simp: sent_defs)
  have up: "disk' t = Some c" if "disk t = Some c" for t c using assms(3) that by (auto simp: map_le_def dom_def)
  have b: "(i, t, c) \<in> ballots s \<or> PR_VotePersisted i t c \<in> R" if "(i, t, c) \<in> ballots ?s \<or> PR_VotePersisted i t c \<in> R'" for i t c
    using that sub(1) vote by blast
  have l: "i \<in> appends s \<or> PR_LogPersisted i \<in> R \<union> L" if "i \<in> appends ?s \<or> PR_LogPersisted i \<in> R' \<union> L'" for i
    using that sub(2) log by blast
  show ?thesis
  proof (rule deskI, unfold eq)
    show "set (persistence_response ?s) \<subseteq> R'" using D(1) assms(4) by auto
    show "disk' t = Some c" if "PR_VotePersisted i t c \<in> R'" for i t c using vote [OF that] D(6) up by blast
    show "\<exists>t c. asked cb t c \<and> disk' t = Some c" if "cb \<in> granted s" for cb using D(13) [OF that] up by blast
  qed (use D(2,12) D(3-5) [OF b] D(7,8) [OF l] D(9-11) in simp_all)
qed

lemma flush_reports:
  "set (response_queue (flush_pending_logs w)) = set (response_queue w) \<union> set (pending_log_responses w)"
  "pending_log_responses (flush_pending_logs w) = []"
  by (auto simp: flush_pending_logs_def flush_buffer_def Let_def)

lemma persist_vote_reports [simp]:
  "response_queue (persist_vote cv t c w) = response_queue w" "pending_log_responses (persist_vote cv t c w) = pending_log_responses w"
  by (simp_all add: persist_vote_def)

lemma write_log_entry_reports [simp]:
  "response_queue (write_log_entry d w) = response_queue w" "pending_log_responses (write_log_entry d w) = pending_log_responses w"
  by (simp_all add: write_log_entry_def buf_write_all_def flush_buffer_def Let_def)

lemma process_task_reports:
  assumes "process_task cv b t w = Inr w'"
  shows "set (response_queue w) \<subseteq> set (response_queue w')"
    "\<And>i tm c. PR_VotePersisted i tm c \<in> set (response_queue w') \<Longrightarrow>
       PR_VotePersisted i tm c \<in> set (response_queue w) \<union> set (pending_log_responses w) \<or> t = PT_AppendVote i tm c"
    "\<And>i. PR_LogPersisted i \<in> set (response_queue w') \<union> set (pending_log_responses w') \<Longrightarrow>
       PR_LogPersisted i \<in> set (response_queue w) \<union> set (pending_log_responses w) \<or> (\<exists>d r. t = PT_AppendLog i d r)"
    "PR_VotePersisted i tm c \<in> set (pending_log_responses w') \<Longrightarrow> PR_VotePersisted i tm c \<in> set (pending_log_responses w)"
  using assms by (cases t; auto simp: process_task_def Let_def flush_reports split: if_splits)+

lemma recorded_vote:
  assumes "csv_law cv" "votes_recorded cv (x, w)" "process_task cv b (PT_AppendVote i t c) w = Inr w'"
  shows "disk_votes cv w' t = Some c"
proof -
  from assms(2) obtain rows where rows: "votes_file w = concat (map (csv_write_row cv) rows)"
    by (auto simp: votes_recorded_def)
  then have "votes_file w' = concat (map (csv_write_row cv) (rows @ [\<lparr> vote_term = t, vote_candidate_id = c \<rparr>]))"
    using process_task_votes [OF assms(3)] by simp
  from disk_votes_rows [OF assms(1) this] show ?thesis by (simp add: record_votes_append)
qed

lemma persist_desk:
  assumes "csv_law cv" "votes_recorded cv (x, w)" "live_desk cv is (x, w)" "persistence_work (shared_state x) = t # ts"
    "process_task cv b t w = Inr w'"
  shows "live_desk cv is (x\<lparr>shared_state := (shared_state x)\<lparr>persistence_work := ts\<rparr>\<rparr>, w')"
proof -
  note rep = process_task_reports [OF assms(5)]
  have d: "desk (asks is) (disk_votes cv w) (set (response_queue w)) (set (pending_log_responses w)) (shared_state x)"
    and no: "PR_VotePersisted i tm c \<notin> set (pending_log_responses w)" for i tm c
    using assms(3) by (simp_all add: live_desk_def)
  have "desk (asks is) (disk_votes cv w') (set (response_queue w')) (set (pending_log_responses w'))
      ((shared_state x)\<lparr>persistence_work := ts\<rparr>)"
  proof (rule desk_work [OF d])
    show "disk_votes cv w \<subseteq>\<^sub>m disk_votes cv w'" by (rule task_recorded(2) [OF assms(1,2,4,5)])
    show "PR_VotePersisted i tm c \<in> set (response_queue w) \<or> (i, tm, c) \<in> ballots (shared_state x) \<and> disk_votes cv w' tm = Some c"
      if "PR_VotePersisted i tm c \<in> set (response_queue w')" for i tm c
      using rep(2) [OF that] no recorded_vote [OF assms(1,2)] assms(4,5) by (auto simp: ballots_def)
    show "PR_LogPersisted i \<in> set (response_queue w) \<union> set (pending_log_responses w) \<or> i \<in> appends (shared_state x)"
      if "PR_LogPersisted i \<in> set (response_queue w') \<union> set (pending_log_responses w')" for i
      using rep(3) [OF that] assms(4) by (auto simp: appends_def)
  qed (use assms(4) rep(1) in auto)
  then show ?thesis using rep(4) no by (auto simp: live_desk_def)
qed

lemma sync_desk:
  assumes "live_desk cv is (x, w)"
  shows "live_desk cv is (x, flush_pending_logs w)"
proof -
  have d: "desk (asks is) (disk_votes cv w) (set (response_queue w)) (set (pending_log_responses w)) (shared_state x)"
    and no: "PR_VotePersisted i tm c \<notin> set (pending_log_responses w)" for i tm c
    using assms by (simp_all add: live_desk_def)
  have "desk (asks is) (disk_votes cv w) (set (response_queue (flush_pending_logs w)))
      (set (pending_log_responses (flush_pending_logs w))) ((shared_state x)\<lparr>persistence_work := persistence_work (shared_state x)\<rparr>)"
    by (rule desk_work [OF d]) (use no in \<open>auto simp: flush_reports\<close>)
  then show ?thesis by (simp add: live_desk_def flush_reports disk_votes_def read_votes_def)
qed

lemma respond_desk:
  assumes "desk asked disk R L s" "set prs \<subseteq> R" "\<forall>i t v. QR_RequestVoteResponse i t v \<in> set qrs \<longrightarrow> (i, t) \<in> requests s"
  shows "desk asked disk R L (s\<lparr>persistence_response := persistence_response s @ prs, quorum_response := quorum_response s @ qrs\<rparr>)"
  using assms by (simp add: desk_def) blast

lemma act_desk:
  assumes "live_desk cv is (x, w)" "day_promise is i (x, w)" "exec cp i x = Inr y"
  shows "live_desk cv (is @ [i]) (y, w) \<and> identity (shared_state y) = identity (shared_state x) \<and>
    requests (shared_state x) \<subseteq> requests (shared_state y)"
proof -
  let ?D = "\<lambda>is s. desk (asks is) (disk_votes cv w) (set (response_queue w)) (set (pending_log_responses w)) s"
  have "asks is cb t c \<Longrightarrow> asks (is @ [i]) cb t c" for cb t c by (auto simp: asks_def)
  then have d: "?D (is @ [i]) (shared_state x)" using assms(1) desk_asked by (auto simp: live_desk_def)
  have "?D (is @ [i]) (shared_state y) \<and> identity (shared_state y) = identity (shared_state x) \<and>
    requests (shared_state x) \<subseteq> requests (shared_state y)"
  proof (cases i)
    case (Time_Step ev ev')
    with time_step_works [OF _ d, of cp ev ev' y] assms(2,3) show ?thesis by (simp add: works_def)
  next
    case (Accept ev m cb)
    have "asks (is @ [i]) cb (rv_term r) (rv_candidate_id r)" if "m = Msg_RequestVote r" for r
      using that Accept by (auto simp: asks_def)
    with accept_moves [OF _ d, of cp ev m cb y] assms(2,3) Accept
    have "moves (asks (is @ [i])) (disk_votes cv w) 1 (shared_state x) (shared_state y)" by simp
    from moves_works [OF this d] show ?thesis by (simp add: works_def)
  next
    case (Respond prs qrs)
    with respond_desk [OF d, of prs qrs] assms(2,3) show ?thesis by auto
  qed
  then show ?thesis using assms(1) by (simp add: live_desk_def)
qed

lemma day_desk:
  assumes "csv_law cv" "day_start cv p" "node_day cp cv p is q"
  shows "live_desk cv is q \<and> votes_recorded cv q"
  using assms(3)
proof induction
  case dawn
  with assms(2) show ?case by (cases p) (simp add: day_start_desk, simp add: day_start_def)
next
  case (act "is" x w i y)
  then show ?case using act_desk [of cv "is" x w i cp y] step_recorded [of cv x w i cp y] by blast
next
  case (persist "is" x w t ts w')
  then show ?case using persist_desk [OF assms(1)] task_recorded(1) [OF assms(1)] by blast
next
  case (sync "is" x w)
  then show ?case using sync_desk by (simp add: votes_recorded_def)
qed


text \<open>
  A candidate of a cluster of three that is asked for its vote, whose worker writes the vote,
  and that then grants it.
\<close>

definition sample_elector :: live_node where
  "sample_elector = (sample_candidate\<lparr>shared_state := sample_state 2\<rparr>, new_persistence_worker [] [] [])"

definition sample_ballot :: LocalRequestVoteRequest where
  "sample_ballot = \<lparr> rv_term = 1, rv_candidate_id = 1, rv_last_log_index = 0, rv_last_log_term = 0 \<rparr>"

definition sample_grant_day :: "input list" where
  "sample_grant_day =
     [Accept sample_env (Msg_RequestVote sample_ballot) 7, Respond [PR_VotePersisted 0 1 1] [], Time_Step sample_env sample_env]"

lemma sample_start:
  assumes "x = sample_candidate\<lparr>shared_state := sample_state n\<rparr>"
  shows "day_start sample_csv (x, new_persistence_worker [] [] [])"
  using assms
  by (simp add: day_start_def votes_recorded_def new_persistence_worker_def sample_candidate_def sample_state_def fresh_node_def
      create_shared_state_def empty_recovered_def create_volatile_state_def pending_votes_def votes_fresh_def exI [of _ "[]"])

lemma sample_grant:
  obtains x w where "node_day sample_capnp sample_csv sample_elector sample_grant_day (x, w)"
    "(7, Resp_RequestVote True) \<in> set (responses (shared_state x))"
proof -
  let ?x0 = "sample_candidate\<lparr>shared_state := sample_state 2\<rparr>" and ?w0 = "new_persistence_worker [] [] []"
  let ?i1 = "Accept sample_env (Msg_RequestVote sample_ballot) 7" and ?i2 = "Respond [PR_VotePersisted 0 1 1] []"
  note defs = sample_candidate_def sample_state_def create_shared_state_def create_volatile_state_def empty_recovered_def
    create_server_state_def new_candidate_def
  obtain x1 where x1: "exec sample_capnp ?i1 ?x0 = Inr x1" "persistence_work (shared_state x1) = [PT_AppendVote 0 1 1]"
    "state_delegate x1 = Candidate_Delegate new_candidate" "next_message_id (shared_state x1) = 1"
    "outstanding_messages (shared_state x1) 0 = Some \<lparr> om_id = 0, outstanding_responses = 1, message_type = OM_RequestVote 7 \<rparr>"
    "persistence_response (shared_state x1) = []" "quorum_response (shared_state x1) = []" "receiver_alive (shared_state x1) 7"
    "next_term (vol (shared_state x1)) = 2" "\<not> has_deferred_broadcast (vol (shared_state x1))"
    "persistence_connected (shared_state x1)"
    by (simp add: accept_def delegate_request_vote_def candidate_request_vote_def accept_vote_def Let_def should_accept_vote_def
        raise_next_term_def persistence_send_def insert_outstanding_def sample_ballot_def apply_change_def upd_vol_def defs)
  have d1: "node_day sample_capnp sample_csv sample_elector [?i1] (x1, ?w0)"
    using node_day.act [OF node_day.dawn [of sample_capnp sample_csv "(?x0, ?w0)"], of ?i1 x1] x1(1)
    by (simp add: sample_elector_def sample_ballot_def room_def defs)
  obtain w1 where w1: "process_task sample_csv BATCH_SIZE (PT_AppendVote 0 1 1) ?w0 = Inr w1"
    "response_queue w1 = [PR_VotePersisted 0 1 1]"
    by (simp add: process_task_def persist_vote_def flush_pending_logs_def new_persistence_worker_def)
  let ?x2 = "x1\<lparr>shared_state := (shared_state x1)\<lparr>persistence_work := []\<rparr>\<rparr>"
  have d2: "node_day sample_capnp sample_csv sample_elector [?i1] (?x2, w1)"
    by (rule node_day.persist [OF d1 x1(2) w1(1)])
  let ?x3 = "?x2\<lparr>shared_state := (shared_state ?x2)\<lparr>persistence_response := [PR_VotePersisted 0 1 1], quorum_response := []\<rparr>\<rparr>"
  have "exec sample_capnp ?i2 ?x2 = Inr ?x3" using x1(6,7) by simp
  from node_day.act [OF d2 _ _ this] w1(2) have d3: "node_day sample_capnp sample_csv sample_elector [?i1, ?i2] (?x3, w1)" by simp
  obtain x4 where x4: "exec sample_capnp (Time_Step sample_env sample_env) ?x3 = Inr x4"
    "(7, Resp_RequestVote True) \<in> set (responses (shared_state x4))"
    by (simp add: time_step_def delegate_time_step_def candidate_time_step_def candidate_check_election_def x1(3-11)
        candidate_persistence_response_def candidate_vote_persisted_def send_callback_def remove_outstanding_def
        retry_deferred_broadcast_def initiate_election_def persistence_send_def push_all_quorum_def insert_outstanding_def
        upd_vol_def Let_def election_timeout_expired_def new_candidate_def sample_env_def)
  from node_day.act [OF d3 _ _ x4(1)] x1(4,9)
  have "node_day sample_capnp sample_csv sample_elector sample_grant_day (x4, w1)"
    by (simp add: sample_grant_day_def room_def)
  with x4(2) show thesis by (rule that [rotated])
qed


end
