(* ===== verification/Election_Safety.thy ===== *)
theory Election_Safety
  imports Vote_Days
begin

text \<open>
  Election safety. A node that wins an election of a term rests on a quorum of nodes whose
  votes files record that vote; two such quorums share a node, and no node records two votes
  of one term. So a term has at most one leader, whatever crashes and restarts occur.
\<close>

section \<open>What a day delivers\<close>

lemma day_callbacks:
  "node_day cp cv p is q \<Longrightarrow> Accept ev m cb \<in> set is \<Longrightarrow> Accept ev' m' cb \<in> set is \<Longrightarrow> m' = m"
  by (induction arbitrary: ev m ev' m' rule: node_day.induct) auto

lemma tally_inv_work [simp]: "tally_inv P D (s\<lparr>persistence_work := ts\<rparr>) = tally_inv P D s"
  by (simp add: tally_inv_def)

lemma day_tally:
  assumes "node_day cp cv p is q" "day_start cv p"
  shows "tally_inv (persisted_in is) (delivered_in is) (shared_state (fst q))"
  using assms
proof induction
  case dawn
  then show ?case using fresh_tally by (auto simp: day_start_def persisted_in_def delivered_in_def)
next
  case (act "is" x w i y)
  from exec_tally [OF act(4), of "persisted_in is" "delivered_in is"] act show ?case by (simp add: persisted_in_def delivered_in_def)
qed simp_all

text \<open>The requests that vote responses answer, with their terms.\<close>

definition answered :: "LocalQuorumTaskResponseType list \<Rightarrow> (u64 \<times> u64) set" where
  "answered D = {(i, t). \<exists>v. QR_RequestVoteResponse i t v \<in> set D}"

lemma answered_simps [simp]: "answered [] = {}" "answered (D @ E) = answered D \<union> answered E"
  by (auto simp: answered_def)

lemma answeredI: "QR_RequestVoteResponse i t v \<in> set D \<Longrightarrow> (i, t) \<in> answered D"
  by (auto simp: answered_def)

lemma day_promise_responses:
  assumes "day_promise is i (x, w)"
  shows "set (fst (responses_in i)) \<subseteq> set (response_queue w)" "answered (snd (responses_in i)) \<subseteq> requests (shared_state x)"
  using assms by (cases i; simp add: answered_def; blast)+

lemma day_delivered:
  assumes "node_day cp cv p is q" "csv_law cv" "day_start cv p"
  shows "set (persisted_in is) \<subseteq> set (response_queue (snd q)) \<and> answered (delivered_in is) \<subseteq> requests (shared_state (fst q))"
  using assms(1)
proof induction
  case dawn
  then show ?case by (simp add: persisted_in_def delivered_in_def)
next
  case (act "is" x w i y)
  have "live_desk cv is (x, w)" using day_desk [OF assms(2,3) act(1)] by simp
  from act_desk [OF this act(3,4)] have "requests (shared_state x) \<subseteq> requests (shared_state y)" by (elim conjE)
  then show ?case using act(5) day_promise_responses [OF act(3)] by (simp add: persisted_in_def delivered_in_def) blast
next
  case (persist "is" x w t ts w')
  then show ?case using process_task_reports(1) [OF persist(3)] by (simp add: requests_def) blast
next
  case (sync "is" x w)
  then show ?case by (simp add: flush_reports le_supI1)
qed

section \<open>Granted votes and won elections\<close>

text \<open>A node that has granted its vote at some moment up to now.\<close>

definition grants :: "capnp \<Rightarrow> csv \<Rightarrow> live_node \<Rightarrow> u64 \<Rightarrow> u32 \<Rightarrow> bool" where
  "grants cp cv q t c \<longleftrightarrow> (\<exists>p is x w ev r cb.
     day_start cv p \<and> node_day cp cv p is (x, w) \<and> Accept ev (Msg_RequestVote r) cb \<in> set is \<and>
     rv_term r = t \<and> rv_candidate_id r = c \<and> (cb, Resp_RequestVote True) \<in> set (responses (shared_state x)) \<and>
     node_life cp cv (x, w) q)"

text \<open>
  The positive vote responses that node \<open>a\<close> got: each was given by another node of the cluster
  to a request of \<open>a\<close>, and no node answered a message twice.
\<close>

definition relayed :: "capnp \<Rightarrow> csv \<Rightarrow> nat \<Rightarrow> (nat \<Rightarrow> live_node) \<Rightarrow> nat \<Rightarrow> LocalQuorumTaskResponseType list \<Rightarrow> bool" where
  "relayed cp cv n nodes a D \<longleftrightarrow> (\<exists>sender.
     (\<forall>j<length D. \<forall>i t. D ! j = QR_RequestVoteResponse i t True \<longrightarrow>
        sender j < n \<and> sender j \<noteq> a \<and> grants cp cv (nodes (sender j)) t (of_nat a)) \<and>
     (\<forall>i. inj_on sender {j. j < length D \<and> supports True i (D ! j)}))"

text \<open>Node \<open>a\<close> of the cluster has become leader of term \<open>t\<close> at some moment up to now.\<close>

definition wins :: "capnp \<Rightarrow> csv \<Rightarrow> nat \<Rightarrow> (nat \<Rightarrow> live_node) \<Rightarrow> nat \<Rightarrow> u64 \<Rightarrow> bool" where
  "wins cp cv n nodes a t \<longleftrightarrow> (\<exists>p is x w k ev ev' y.
     day_start cv p \<and> node_day cp cv p is (x, w) \<and> state_delegate x = Candidate_Delegate k \<and>
     exec cp (Time_Step ev ev') x = Inr y \<and> get_node_type (state_delegate y) = Node_Leader \<and>
     current_term (server_state (shared_state y)) = t \<and>
     a < n \<and> identity (shared_state x) = of_nat a \<and> quorum_size (shared_state x) = cluster_quorum_size n \<and>
     relayed cp cv n nodes a (delivered_in is) \<and> node_life cp cv (x, w) (nodes a))"

lemma grants_recorded:
  assumes "csv_law cv" "grants cp cv q t c"
  shows "disk_votes cv (snd q) t = Some c" "votes_recorded cv q"
proof -
  from assms(2) obtain p "is" x w ev r cb where g: "day_start cv p" "node_day cp cv p is (x, w)"
    "Accept ev (Msg_RequestVote r) cb \<in> set is" "rv_term r = t" "rv_candidate_id r = c"
    "(cb, Resp_RequestVote True) \<in> set (responses (shared_state x))" "node_life cp cv (x, w) q"
    unfolding grants_def by (elim exE conjE) (rule that)
  have d: "live_desk cv is (x, w)" and v: "votes_recorded cv (x, w)" using day_desk [OF assms(1) g(1,2)] by simp_all
  from d have "desk (asks is) (disk_votes cv w) (set (response_queue w)) (set (pending_log_responses w)) (shared_state x)"
    by (simp add: live_desk_def)
  from deskD(13) [OF this, of cb] g(6) obtain ev' r' where r': "Accept ev' (Msg_RequestVote r') cb \<in> set is"
    "disk_votes cv w (rv_term r') = Some (rv_candidate_id r')"
    by (auto simp: granted_def asks_def)
  from day_callbacks [OF g(2,3) r'(1)] have "disk_votes cv w t = Some c" using r'(2) g(4,5) by simp
  moreover have "votes_recorded cv q \<and> disk_votes cv w \<subseteq>\<^sub>m disk_votes cv (snd q)"
    using life_recorded [OF assms(1), of cp x w "fst q" "snd q"] g(7) v by simp
  ultimately show "disk_votes cv (snd q) t = Some c" "votes_recorded cv q" by (auto simp: map_le_def dom_def)
qed

text \<open>The responses and the reports of one election are for one term.\<close>

lemma one_election:
  assumes "csv_law cv" "day_start cv p" "node_day cp cv p is (x, w)"
    and "QR_RequestVoteResponse i u True \<in> set (delivered_in is)"
  shows "\<And>t v. QR_RequestVoteResponse i t v \<in> set (delivered_in is) \<Longrightarrow> t = u"
    "\<And>t c. PR_VotePersisted i t c \<in> set (persisted_in is) \<Longrightarrow> t = u \<and> c = identity (shared_state x) \<and> disk_votes cv w t = Some c"
proof -
  have d: "desk (asks is) (disk_votes cv w) (set (response_queue w)) (set (pending_log_responses w)) (shared_state x)"
    using day_desk [OF assms(1-3)] by (simp add: live_desk_def)
  have del: "set (persisted_in is) \<subseteq> set (response_queue w)" and sub: "answered (delivered_in is) \<subseteq> requests (shared_state x)"
    using day_delivered [OF assms(3,1,2)] by simp_all
  note req = subsetD [OF sub answeredI]
  note u = req [OF assms(4)]
  show "t = u" if "QR_RequestVoteResponse i t v \<in> set (delivered_in is)" for t v
    by (rule deskD(11) [OF d u req [OF that]])
  show "t = u \<and> c = identity (shared_state x) \<and> disk_votes cv w t = Some c" if "PR_VotePersisted i t c \<in> set (persisted_in is)" for t c
  proof -
    have r: "PR_VotePersisted i t c \<in> set (response_queue w)" using that del by blast
    from deskD(5) [OF d disjI2 [OF r] u] deskD(6) [OF d r] show ?thesis by simp
  qed
qed

lemma wins_quorum:
  assumes "csv_law cv" "3 \<le> n" "n < 2 ^ 32" "wins cp cv n nodes a t"
  obtains V where "V \<subseteq> {..<n}" "unat (cluster_quorum_size n) \<le> card V"
    "\<And>j. j \<in> V \<Longrightarrow> disk_votes cv (snd (nodes j)) t = Some (of_nat a) \<and> votes_recorded cv (nodes j)"
proof -
  from assms(4) obtain p "is" x w k ev ev' y where h: "day_start cv p" "node_day cp cv p is (x, w)"
    "state_delegate x = Candidate_Delegate k" "exec cp (Time_Step ev ev') x = Inr y"
    "get_node_type (state_delegate y) = Node_Leader" "current_term (server_state (shared_state y)) = t"
    "a < n" "identity (shared_state x) = of_nat a" "quorum_size (shared_state x) = cluster_quorum_size n"
    "relayed cp cv n nodes a (delivered_in is)" "node_life cp cv (x, w) (nodes a)"
    unfolding wins_def by (elim exE conjE) (rule that)
  let ?P = "persisted_in is" and ?D = "delivered_in is"
  from elected_from_tally [OF _ h(3-5), of ?P ?D] day_tally [OF h(2,1)] h(6,9)
  obtain i where i: "won ?P ?D (cluster_quorum_size n) i t" by (auto simp: elected_in_def)
  let ?J = "{j. j < length ?D \<and> supports True i (?D ! j)}"
  have J: "card ?J = support True i ?D" "finite ?J"
    unfolding support_def length_filter_conv_card by simp_all
  obtain sender where s: "\<And>j i t. j < length ?D \<Longrightarrow> ?D ! j = QR_RequestVoteResponse i t True \<Longrightarrow>
      sender j < n \<and> sender j \<noteq> a \<and> grants cp cv (nodes (sender j)) t (of_nat a)" "inj_on sender ?J"
  proof -
    from h(10) obtain sender where "\<forall>j<length ?D. \<forall>i t. ?D ! j = QR_RequestVoteResponse i t True \<longrightarrow>
        sender j < n \<and> sender j \<noteq> a \<and> grants cp cv (nodes (sender j)) t (of_nat a)"
      "\<forall>i. inj_on sender {j. j < length ?D \<and> supports True i (?D ! j)}"
      unfolding relayed_def by (elim exE conjE)
    then show thesis by (intro that [of sender]) simp_all
  qed
  have q: "2 \<le> unat (cluster_quorum_size n)" using unat_cluster_quorum_size [of n] assms(2,3) by simp
  moreover have "unat (cluster_quorum_size n) \<le> 1 + card ?J" using i J(1) by (simp add: won_def)
  ultimately have "card ?J \<noteq> 0" by linarith
  then have "?J \<noteq> {}" by (metis card.empty)
  then obtain u where u: "QR_RequestVoteResponse i u True \<in> set ?D" by (auto simp: supports_vote in_set_conv_nth)
  note one = one_election [OF assms(1) h(1,2) u]
  from i have "(\<exists>c. PR_VotePersisted i t c \<in> set ?P) \<or> (\<exists>v. QR_RequestVoteResponse i t v \<in> set ?D)" by (simp add: won_def)
  then have "t = u" by (elim disjE exE) (simp add: one(2), rule one(1))
  let ?V = "insert a (sender ` ?J)"
  from i obtain r where "r \<in> set ?P" "reports True i r" by (auto simp: won_def)
  then obtain t' c where "PR_VotePersisted i t' c \<in> set ?P" by (auto simp: reports_vote)
  from one(2) [OF this] h(8) have "disk_votes cv w t = Some (of_nat a)" using \<open>t = u\<close> by auto
  moreover have "votes_recorded cv (nodes a)" "disk_votes cv w \<subseteq>\<^sub>m disk_votes cv (snd (nodes a))"
    using life_recorded [OF assms(1), of cp x w "fst (nodes a)" "snd (nodes a)"] h(11) day_desk [OF assms(1) h(1,2)] by simp_all
  ultimately have own: "disk_votes cv (snd (nodes a)) t = Some (of_nat a)" "votes_recorded cv (nodes a)"
    by (auto simp: map_le_def dom_def)
  have voters: "sender j < n \<and> sender j \<noteq> a \<and> grants cp cv (nodes (sender j)) t (of_nat a)" if "j \<in> ?J" for j
  proof -
    from that obtain t' where j: "j < length ?D" "?D ! j = QR_RequestVoteResponse i t' True" by (auto simp: supports_vote)
    have "t' = t" using one(1) [of t' True] nth_mem [OF j(1)] j(2) \<open>t = u\<close> by simp
    with s(1) [OF j] show ?thesis by simp
  qed
  show thesis
  proof (rule that)
    show "?V \<subseteq> {..<n}" using voters h(7) by auto
    have "a \<notin> sender ` ?J" using voters by blast
    then have "card ?V = 1 + support True i ?D" using J card_image [OF s(2)] by simp
    then show "unat (cluster_quorum_size n) \<le> card ?V" using i by (simp add: won_def)
    show "disk_votes cv (snd (nodes j)) t = Some (of_nat a) \<and> votes_recorded cv (nodes j)" if "j \<in> ?V" for j
      using that own voters grants_recorded [OF assms(1)] by blast
  qed
qed

section \<open>Properties\<close>


text \<open>Node 1 of three wins its election of term 1 with the vote of node 2.\<close>

lemma sample_win:
  obtains nodes where "wins sample_capnp sample_csv 3 nodes 1 1"
proof -
  let ?x0 = "sample_candidate" and ?w0 = "new_persistence_worker [] [] []"
  let ?i1 = "Time_Step sample_env sample_env" and ?i2 = "Respond [PR_VotePersisted 0 1 1] [QR_RequestVoteResponse 0 1 True]"
  note defs = sample_candidate_def sample_state_def create_shared_state_def create_volatile_state_def empty_recovered_def
    create_server_state_def new_candidate_def
  obtain x1 k where x1: "exec sample_capnp ?i1 ?x0 = Inr x1" "persistence_work (shared_state x1) = [PT_AppendVote 0 1 1]"
    "state_delegate x1 = Candidate_Delegate k"
    "outstanding_messages (shared_state x1) 0 =
      Some \<lparr> om_id = 0, outstanding_responses = 3, message_type = OM_CandidateElection False 1 \<rparr>"
    "persistence_response (shared_state x1) = []" "quorum_response (shared_state x1) = []"
    "quorum_size (shared_state x1) = 2" "identity (shared_state x1) = 1" "(0, 1) \<in> requests (shared_state x1)"
    by (simp add: time_step_def delegate_time_step_def candidate_time_step_def candidate_check_election_def
        election_timeout_expired_def initiate_election_def Let_def sample_env_def retry_deferred_broadcast_def persistence_send_def
        push_all_quorum_def insert_outstanding_def apply_change_def upd_vol_def requests_def defs)
  have d1: "node_day sample_capnp sample_csv (?x0, ?w0) [?i1] (x1, ?w0)"
    using node_day.act [OF node_day.dawn [of sample_capnp sample_csv "(?x0, ?w0)"], of ?i1 x1] x1(1)
    by (simp add: room_def defs)
  obtain w1 where w1: "process_task sample_csv BATCH_SIZE (PT_AppendVote 0 1 1) ?w0 = Inr w1"
    "response_queue w1 = [PR_VotePersisted 0 1 1]"
    by (simp add: process_task_def persist_vote_def flush_pending_logs_def new_persistence_worker_def)
  let ?x2 = "x1\<lparr>shared_state := (shared_state x1)\<lparr>persistence_work := []\<rparr>\<rparr>"
  have d2: "node_day sample_capnp sample_csv (?x0, ?w0) [?i1] (?x2, w1)"
    by (rule node_day.persist [OF d1 x1(2) w1(1)])
  let ?x3 = "?x2\<lparr>shared_state := (shared_state ?x2)\<lparr>persistence_response := [PR_VotePersisted 0 1 1],
    quorum_response := [QR_RequestVoteResponse 0 1 True]\<rparr>\<rparr>"
  have "exec sample_capnp ?i2 ?x2 = Inr ?x3" using x1(5,6) by simp
  from node_day.act [OF d2 _ _ this] w1(2) x1(9)
  have d3: "node_day sample_capnp sample_csv (?x0, ?w0) [?i1, ?i2] (?x3, w1)" by (simp add: requests_def)
  have few: "\<not> (2 :: u32) \<le> 1" by (simp add: word_le_nat_alt)
  obtain z where z: "exec sample_capnp ?i1 ?x3 = Inr z" "get_node_type (state_delegate z) = Node_Leader"
    "current_term (server_state (shared_state z)) = 1"
    by (simp add: x1(3,4,7,8) few time_step_def delegate_time_step_def candidate_time_step_def candidate_persistence_response_def
        candidate_vote_persisted_def candidate_quorum_response_def candidate_vote_response_def Let_def become_leader_def
        get_node_type_def insert_outstanding_def remove_outstanding_def)
  obtain v u where v: "node_day sample_capnp sample_csv sample_elector sample_grant_day (v, u)"
    "(7, Resp_RequestVote True) \<in> set (responses (shared_state v))"
    by (rule sample_grant)
  let ?nodes = "\<lambda>j :: nat. if j = 1 then (?x3, w1) else (v, u)"
  have st: "day_start sample_csv (?x0, ?w0)" "day_start sample_csv sample_elector"
    unfolding sample_elector_def by (rule sample_start, simp add: sample_candidate_def)+
  have "grants sample_capnp sample_csv (v, u) 1 1"
    unfolding grants_def
    by (intro exI [of _ sample_elector] exI [of _ sample_grant_day] exI [of _ v] exI [of _ u] exI [of _ sample_env]
        exI [of _ sample_ballot] exI [of _ 7] conjI st v node_life.live) (simp_all add: sample_grant_day_def sample_ballot_def)
  then have r: "relayed sample_capnp sample_csv 3 ?nodes 1 (delivered_in [?i1, ?i2])"
    unfolding relayed_def
    by (intro exI [of _ "\<lambda>_. 2"]) (simp add: delivered_in_def inj_on_def)
  have q: "cluster_quorum_size 3 = 2" by (simp add: cluster_quorum_size_def)
  have "wins sample_capnp sample_csv 3 ?nodes 1 1"
    unfolding wins_def
    by (intro exI [of _ "(?x0, ?w0)"] exI [of _ "[?i1, ?i2]"] exI [of _ ?x3] exI [of _ w1] exI [of _ k] exI [of _ sample_env]
        exI [of _ z] conjI st d3 z r) (simp_all add: x1 q node_life.live)
  then show thesis by (rule that)
qed


end
