(* ===== verification/Stream_Codec.thy ===== *)
theory Stream_Codec
  imports Kraft_Prelude
begin

text \<open>
  The contract of a codec on a byte stream: what is written can be read back, whatever
  follows it, and a loop around the reader collects the messages until the first error.
  The frames of the datastore protocol and the messages between nodes are two such codecs.
\<close>

locale stream_codec =
  fixes encode :: "'m \<Rightarrow> 'b list"
    and decode :: "'b list \<Rightarrow> 'e + ('m \<times> 'b list)"
    and read_all :: "'b list \<Rightarrow> 'm list \<times> 'e"
    and valid :: "'m \<Rightarrow> bool"
    and eof :: 'e
  assumes read_written: "valid m \<Longrightarrow> decode (encode m @ rest) = Inr (m, rest)"
    and read_empty: "decode [] = Inl eof"
    and read_all_step:
      "read_all bs = (case decode bs of Inl e \<Rightarrow> ([], e) | Inr (m, rest) \<Rightarrow> (let (ms, e) = read_all rest in (m # ms, e)))"
begin

lemma read_all_empty: "read_all [] = ([], eof)"
  by (subst read_all_step) (simp add: read_empty)

lemma read_all_write: "valid m \<Longrightarrow> read_all (encode m @ rest) = (let (ms, e) = read_all rest in (m # ms, e))"
  by (subst read_all_step) (simp add: read_written)

lemma read_all_error: "decode bs = Inl e \<Longrightarrow> read_all bs = ([], e)"
  by (subst read_all_step) simp

lemma read_all_append:
  "list_all valid ms \<Longrightarrow> read_all (concat (map encode ms) @ rest) = (let (ms', e) = read_all rest in (ms @ ms', e))"
  by (induction ms) (simp_all add: read_all_write split_beta)

lemma read_all_written: "list_all valid ms \<Longrightarrow> read_all (concat (map encode ms)) = (ms, eof)"
  using read_all_append [of ms "[]"] by (simp add: read_all_empty)

text \<open>Two sequences of messages never have the same bytes.\<close>

lemma written_inj:
  "list_all valid ms \<Longrightarrow> list_all valid ms' \<Longrightarrow> concat (map encode ms) = concat (map encode ms') \<Longrightarrow> ms = ms'"
  by (metis read_all_written prod.inject)

end

end
