(* ===== verification/Frame_Codec.thy ===== *)
theory Frame_Codec
  imports Stream_Codec
begin

text \<open>
  The framing of the TCP datastore protocol, \<open>transport/datastore/codec.rs\<close>, and
  the loop of \<open>connection.rs\<close> that reads the frames of a connection. A reader is
  the list of bytes that arrive before the connection ends; \<open>read_exact\<close> and its
  variants take bytes from it or fail with \<open>UnexpectedEof\<close>.
\<close>

section \<open>Little-endian integers\<close>

fun le_bytes :: "nat \<Rightarrow> nat \<Rightarrow> u8 list" where
  "le_bytes 0 n = []"
| "le_bytes (Suc k) n = of_nat n # le_bytes k (n div 256)"

fun le_nat :: "u8 list \<Rightarrow> nat" where
  "le_nat [] = 0"
| "le_nat (b # bs) = unat b + 256 * le_nat bs"

definition put_u32_le :: "u32 \<Rightarrow> u8 list" where
  "put_u32_le x = le_bytes 4 (unat x)"

definition put_u64_le :: "u64 \<Rightarrow> u8 list" where
  "put_u64_le x = le_bytes 8 (unat x)"

definition u32_from_le_bytes :: "u8 list \<Rightarrow> u32" where
  "u32_from_le_bytes bs = of_nat (le_nat bs)"

definition u64_from_le_bytes :: "u8 list \<Rightarrow> u64" where
  "u64_from_le_bytes bs = of_nat (le_nat bs)"

section \<open>Reading and writing frames\<close>

datatype io_error = UnexpectedEof | InvalidData

definition HEADER_SIZE :: nat where
  "HEADER_SIZE = 4 + 1 + 8"

definition MAX_FRAME_SIZE :: u32 where
  "MAX_FRAME_SIZE = 16 * 1024 * 1024"

definition read_exact :: "nat \<Rightarrow> u8 list \<Rightarrow> io_error + (u8 list \<times> u8 list)" where
  "read_exact n bs = (if n \<le> length bs then Inr (take n bs, drop n bs) else Inl UnexpectedEof)"

definition read_frame :: "u8 list \<Rightarrow> io_error + ((u8 \<times> u64 \<times> u8 list) \<times> u8 list)" where
  "read_frame reader =
     (case read_exact 4 reader of Inl e \<Rightarrow> Inl e | Inr (len_buf, r1) \<Rightarrow>
      let frame_len = u32_from_le_bytes len_buf in
      if frame_len < 9 then Inl InvalidData
      else if frame_len > MAX_FRAME_SIZE then Inl InvalidData
      else
        case read_exact 1 r1 of Inl e \<Rightarrow> Inl e | Inr (rpc, r2) \<Rightarrow>
        case read_exact 8 r2 of Inl e \<Rightarrow> Inl e | Inr (rid, r3) \<Rightarrow>
        let payload_len = unat frame_len - 9 in
        case read_exact payload_len r3 of Inl e \<Rightarrow> Inl e | Inr (payload, r4) \<Rightarrow>
          Inr ((hd rpc, u64_from_le_bytes rid, payload), r4))"

definition encode_frame :: "u8 \<Rightarrow> u64 \<Rightarrow> u8 list \<Rightarrow> u8 list" where
  "encode_frame rpc_type request_id payload =
     (let frame_len = 1 + 8 + length payload in
      put_u32_le (of_nat frame_len) @ [rpc_type] @ put_u64_le request_id @ payload)"

text \<open>The bytes that \<open>write_all\<close> receives.\<close>

definition write_frame :: "u8 \<Rightarrow> u64 \<Rightarrow> u8 list \<Rightarrow> io_error + u8 list" where
  "write_frame rpc_type request_id payload =
     (let frame_len = 1 + 8 + length payload in
      if frame_len > unat MAX_FRAME_SIZE then Inl InvalidData
      else Inr (put_u32_le (of_nat frame_len) @ [rpc_type] @ put_u64_le request_id @ payload))"

text \<open>
  The reader loop of a connection: the frames it dispatches, and the error that
  ends it.
\<close>

lemma read_frame_shorter:
  "read_frame bs = Inr (f, rest) \<Longrightarrow> length rest < length bs"
  by (auto simp: read_frame_def read_exact_def Let_def split: if_splits sum.splits)

function read_frames :: "u8 list \<Rightarrow> (u8 \<times> u64 \<times> u8 list) list \<times> io_error" where
  "read_frames reader =
     (case read_frame reader of
        Inl e \<Rightarrow> ([], e)
      | Inr (frame, rest) \<Rightarrow> (let (fs, e) = read_frames rest in (frame # fs, e)))"
  by pat_completeness auto
termination
  by (relation "measure length") (auto dest: read_frame_shorter)

declare read_frames.simps [simp del]

section \<open>Lemmas\<close>

lemma length_le_bytes [simp]: "length (le_bytes k n) = k"
  by (induction k arbitrary: n) simp_all

lemma le_nat_le_bytes: "n < 256 ^ k \<Longrightarrow> le_nat (le_bytes k n) = n"
proof (induction k arbitrary: n)
  case (Suc k)
  then have "n div 256 < 256 ^ k" by (simp add: less_mult_imp_div_less mult.commute)
  with Suc.IH show ?case by (simp add: unat_of_nat)
qed simp

lemma le_nat_bound: "le_nat bs < 256 ^ length bs"
proof (induction bs)
  case (Cons b bs)
  have "unat b < 256" using unsigned_less [of b] by simp
  with Cons show ?case by simp
qed simp

lemma le_bytes_le_nat: "le_bytes (length bs) (le_nat bs) = bs"
proof (induction bs)
  case (Cons b bs)
  have "unat b < 256" using unsigned_less [of b] by simp
  then have "(unat b + 256 * le_nat bs) div 256 = le_nat bs" by simp
  moreover have "(of_nat (unat b + 256 * le_nat bs) :: u8) = b"
    by (rule word_unat_eq_iff [THEN iffD2], subst unat_of_nat) (use \<open>unat b < 256\<close> in simp)
  ultimately show ?case using Cons by simp
qed simp

lemma u32_le_roundtrip [simp]: "u32_from_le_bytes (put_u32_le x) = x"
proof -
  have "unat x < 256 ^ 4" using unsigned_less [of x] by simp
  then show ?thesis by (simp add: u32_from_le_bytes_def put_u32_le_def le_nat_le_bytes)
qed

lemma u64_le_roundtrip [simp]: "u64_from_le_bytes (put_u64_le x) = x"
proof -
  have "unat x < 256 ^ 8" using unsigned_less [of x] by simp
  then show ?thesis by (simp add: u64_from_le_bytes_def put_u64_le_def le_nat_le_bytes)
qed

lemma put_u32_from_le: "length bs = 4 \<Longrightarrow> put_u32_le (u32_from_le_bytes bs) = bs"
  using le_nat_bound [of bs] le_bytes_le_nat [of bs]
  by (simp add: u32_from_le_bytes_def put_u32_le_def unat_of_nat)

lemma put_u64_from_le: "length bs = 8 \<Longrightarrow> put_u64_le (u64_from_le_bytes bs) = bs"
  using le_nat_bound [of bs] le_bytes_le_nat [of bs]
  by (simp add: u64_from_le_bytes_def put_u64_le_def unat_of_nat)

lemma length_put [simp]: "length (put_u32_le x) = 4" "length (put_u64_le y) = 8"
  by (simp_all add: put_u32_le_def put_u64_le_def)

lemma read_exact_append [simp]: "length a = n \<Longrightarrow> read_exact n (a @ r) = Inr (a, r)"
  by (simp add: read_exact_def)

lemma read_exact_Cons [simp]: "read_exact (Suc 0) (a # r) = Inr ([a], r)"
  by (simp add: read_exact_def)

lemma read_exact_InrD: "read_exact n bs = Inr (a, r) \<Longrightarrow> bs = a @ r \<and> length a = n"
  by (auto simp: read_exact_def split: if_splits)

lemma frame_len_u32:
  assumes "n \<le> unat MAX_FRAME_SIZE"
  shows "unat (of_nat n :: u32) = n"
  using assms by (simp add: MAX_FRAME_SIZE_def unat_of_nat)

lemma read_encode_frame:
  assumes "9 + length payload \<le> unat MAX_FRAME_SIZE"
  shows "read_frame (encode_frame t i payload @ rest) = Inr ((t, i, payload), rest)"
proof -
  let ?n = "9 + length payload"
  note u = frame_len_u32 [OF assms]
  have "\<not> (of_nat ?n :: u32) < 9" "\<not> (of_nat ?n :: u32) > MAX_FRAME_SIZE"
    using u assms by (simp_all add: word_less_nat_alt)
  then show ?thesis
    using u by (simp add: read_frame_def encode_frame_def Let_def)
qed

lemma read_frame_InrD:
  assumes "read_frame bs = Inr ((t, i, payload), rest)"
  shows "bs = encode_frame t i payload @ rest" "9 + length payload \<le> unat MAX_FRAME_SIZE"
proof -
  from assms obtain len_buf r1 rpc r2 rid r3 where
    r: "read_exact 4 bs = Inr (len_buf, r1)" "read_exact 1 r1 = Inr (rpc, r2)" "read_exact 8 r2 = Inr (rid, r3)"
      "read_exact (unat (u32_from_le_bytes len_buf) - 9) r3 = Inr (payload, rest)"
    and c: "\<not> u32_from_le_bytes len_buf < 9" "\<not> u32_from_le_bytes len_buf > MAX_FRAME_SIZE"
    and eq: "t = hd rpc" "i = u64_from_le_bytes rid"
    by (auto simp: read_frame_def Let_def split: if_splits sum.splits)
  note d = r [THEN read_exact_InrD]
  from d(2) eq(1) have rpc: "rpc = [t]" by (cases rpc) auto
  from c have n: "9 \<le> unat (u32_from_le_bytes len_buf)" "unat (u32_from_le_bytes len_buf) \<le> unat MAX_FRAME_SIZE"
    by (simp_all add: word_less_nat_alt)
  with d(4) have len: "9 + length payload = unat (u32_from_le_bytes len_buf)" by simp
  with n(2) show "9 + length payload \<le> unat MAX_FRAME_SIZE" by simp
  have "put_u32_le (of_nat (9 + length payload)) = len_buf"
    unfolding len using d(1) put_u32_from_le by simp
  moreover have "put_u64_le i = rid" using d(3) eq(2) put_u64_from_le by simp
  ultimately show "bs = encode_frame t i payload @ rest"
    using d rpc by (simp add: encode_frame_def)
qed

lemma write_frame_Inr:
  "write_frame t i p = Inr buf \<longleftrightarrow> 9 + length p \<le> unat MAX_FRAME_SIZE \<and> buf = encode_frame t i p"
  by (auto simp: write_frame_def encode_frame_def Let_def)

interpretation frames: stream_codec "\<lambda>(t, i, p). encode_frame t i p" read_frame read_frames
    "\<lambda>(t, i, p). 9 + length p \<le> unat MAX_FRAME_SIZE" UnexpectedEof
proof (unfold_locales, goal_cases)
  case (1 m rest)
  then show ?case by (cases m) (simp add: read_encode_frame)
next
  case 2
  show ?case by (simp add: read_frame_def read_exact_def)
next
  case (3 bs)
  show ?case by (rule read_frames.simps)
qed

text \<open>
  A frame above the limit never reaches a reader as a frame: \<open>write_frame\<close> refuses it,
  and a reader rejects what \<open>encode_frame\<close>, which has no check, produces for it.
\<close>

lemma oversized_frame_rejected:
  assumes "unat MAX_FRAME_SIZE < 9 + length p" "9 + length p < 2 ^ 32"
  shows "write_frame t i p = Inl InvalidData \<and> read_frame (encode_frame t i p @ rest) = Inl InvalidData"
proof -
  have "unat (of_nat (9 + length p) :: u32) = 9 + length p"
    using assms(2) by (subst unat_of_nat) simp
  then have "MAX_FRAME_SIZE < of_nat (9 + length p)"
    using assms(1) by (simp add: word_less_nat_alt)
  then show ?thesis
    using assms(1) by (simp add: write_frame_def read_frame_def encode_frame_def Let_def)
qed

section \<open>Properties\<close>

text \<open>
  C21: The frame codec is exact. Reading a stream yields a frame and the rest of
  the stream precisely when writing that frame succeeds and the stream is the
  written bytes followed by the rest: what is written is read back, whatever
  follows it, and nothing else is ever accepted.
\<close>

theorem read_frame_iff_written:
  "read_frame bs = Inr ((t, i, p), rest) \<longleftrightarrow> (\<exists>buf. write_frame t i p = Inr buf \<and> bs = buf @ rest)"
  using read_frame_InrD [of bs t i p rest] read_encode_frame [of p t i rest]
  by (auto simp: write_frame_Inr)

end
