(* ===== verification/Write_Proxy.thy ===== *)
theory Write_Proxy
  imports Quorum_Worker Capnp_Instance "HOL-Library.AList"
begin

text \<open>
  The write proxy, \<open>transport/write_proxy\<close>: it combines the write batches of the
  clients up to a size, hands the combined batch to the state machine when this node
  is the leader and to the quorum worker of the leader otherwise, and routes the
  answer back to the clients.

  The spawned tasks that await an answer are \<open>wp_tasks\<close>. A \<open>HashMap\<close> of callbacks is
  an association list with distinct keys; the order in which the source iterates over
  it is not specified, and no property depends on it. Back-off, spans and log lines
  are left out; the sizes are added as \<open>u64\<close> values.
\<close>

section \<open>The queue\<close>

definition write_batch_size :: "capnp \<Rightarrow> WriteBatch \<Rightarrow> u64" where
  "write_batch_size cp b =
     unwrap_or (write_batch_with_message cp (wb_message b)
       (\<lambda>r. unwrap_or (map_option (\<lambda>reqs. sum_list (map payload_size reqs)) (iwb_requests r)) 0)) 0"

definition write_batch_request_count :: "capnp \<Rightarrow> WriteBatch \<Rightarrow> usize" where
  "write_batch_request_count cp b =
     unwrap_or (write_batch_with_message cp (wb_message b) (\<lambda>r. unwrap_or (map_option length (iwb_requests r)) 0)) 0"

record WriteQueue =
  wq_work_queue :: "WriteBatch list"
  wq_shelved_batch :: "WriteBatch option"

text \<open>The loop: the batches taken, the batch that did not fit, the rest of the queue, and whether the batch is full.\<close>

fun take_batches :: "capnp \<Rightarrow> u64 \<Rightarrow> u64 \<Rightarrow> WriteBatch list \<Rightarrow> WriteBatch list \<times> WriteBatch option \<times> WriteBatch list \<times> bool" where
  "take_batches cp max_size current_size [] =
     (if current_size < max_size then ([], None, [], False) else ([], None, [], True))"
| "take_batches cp max_size current_size (nxt # q) =
     (if current_size < max_size then
        let new_size = write_batch_size cp nxt + current_size in
        if new_size \<le> max_size then
          let (taken, shelved, q', full) = take_batches cp max_size new_size q in (nxt # taken, shelved, q', full)
        else ([], Some nxt, q, True)
      else ([], None, nxt # q, True))"

definition next_write_batch :: "capnp \<Rightarrow> u64 \<Rightarrow> WriteQueue \<Rightarrow> WriteBatch list \<times> bool \<times> WriteQueue" where
  "next_write_batch cp max_size wq =
     (let (taken0, current_size) =
        (case wq_shelved_batch wq of None \<Rightarrow> ([], 0) | Some val \<Rightarrow> ([val], 0 + write_batch_size cp val));
        (taken, shelved, q, full) = take_batches cp max_size current_size (wq_work_queue wq) in
      (taken0 @ taken, full, \<lparr> wq_work_queue = q, wq_shelved_batch = shelved \<rparr>))"

section \<open>Combining batches\<close>

type_synonym batch_callbacks = "(text_bytes \<times> callback) list"

definition copy_request :: "InternalPutRequest \<Rightarrow> InternalPutRequest" where
  "copy_request r =
     \<lparr> put_id = Some (unwrap_or (put_id r) []), put_payload = Some (unwrap_or (put_payload r) []),
       put_node_id = put_node_id r \<rparr>"

text \<open>The requests of a batch; a batch that cannot be read contributes none.\<close>

definition readable_requests :: "capnp \<Rightarrow> OwnedWriteBatch \<Rightarrow> InternalPutRequest list" where
  "readable_requests cp b = unwrap_or (write_batch_with_message cp b (\<lambda>r. unwrap_or (iwb_requests r) [])) []"

definition prepare_batch_and_callbacks ::
  "capnp \<Rightarrow> text_bytes \<Rightarrow> WriteBatch list \<Rightarrow> (OwnedWriteBatch \<times> batch_callbacks) result" where
  "prepare_batch_and_callbacks cp batch_id batches =
     (let callbacks = fold (\<lambda>b. AList.update (wb_batch_id b) (wb_callback b)) batches [] in
      bind_res (build_owned_write_batch cp
          \<lparr> iwb_batch_id = Some batch_id,
            iwb_requests = Some (map copy_request (concat (map (\<lambda>b. readable_requests cp (wb_message b)) batches))) \<rparr>)
        (\<lambda>combined. Inr (combined, callbacks)))"

section \<open>Answers\<close>

definition batch_response :: "capnp \<Rightarrow> OwnedWriteBatchResponse \<Rightarrow> text_bytes \<Rightarrow> OwnedWriteBatchResponse result" where
  "batch_response cp response batch_id =
     build_owned_write_batch_response cp
       \<lparr> iwr_responses = Some (unwrap_or (write_batch_response_with_message cp response
            (\<lambda>r. map copy_put_response (unwrap_or (iwr_responses r) []))) []),
         iwr_batch_id = Some batch_id \<rparr>"

fun respond_to_batch_callbacks ::
  "capnp \<Rightarrow> OwnedWriteBatchResponse \<Rightarrow> batch_callbacks \<Rightarrow> (callback \<times> WriteResponse) list result" where
  "respond_to_batch_callbacks cp response [] = Inr []"
| "respond_to_batch_callbacks cp response ((batch_id, cb) # cbs) =
     bind_res (batch_response cp response batch_id) (\<lambda>m.
       bind_res (respond_to_batch_callbacks cp response cbs) (\<lambda>rest.
         Inr ((cb, write_response_success m) # rest)))"

definition error_callbacks :: "capnp \<Rightarrow> batch_callbacks \<Rightarrow> (callback \<times> WriteResponse) list result" where
  "error_callbacks cp cbs = bind_res (write_response_error cp) (\<lambda>e. Inr (map (\<lambda>(_, cb). (cb, e)) cbs))"

definition handle_insert_completed ::
  "capnp \<Rightarrow> LocalRaftResponsePayload \<Rightarrow> batch_callbacks \<Rightarrow> (callback \<times> WriteResponse) list result" where
  "handle_insert_completed cp payload cbs =
     (case payload of
        Resp_WriteBatch response \<Rightarrow> respond_to_batch_callbacks cp (wr_message response) cbs
      | _ \<Rightarrow> error_callbacks cp cbs)"

text \<open>What the two kinds of task do with the answer they await; \<^const>\<open>None\<close> is a dropped sender.\<close>

definition handle_local_write_response ::
  "capnp \<Rightarrow> LocalRaftResponsePayload option \<Rightarrow> batch_callbacks \<Rightarrow> (callback \<times> WriteResponse) list result" where
  "handle_local_write_response cp resp cbs =
     (case resp of Some payload \<Rightarrow> handle_insert_completed cp payload cbs | None \<Rightarrow> Inr [])"

definition handle_remote_write_response ::
  "capnp \<Rightarrow> WriteResponse option \<Rightarrow> batch_callbacks \<Rightarrow> (callback \<times> WriteResponse) list result" where
  "handle_remote_write_response cp resp cbs =
     (case resp of
        Some put_response \<Rightarrow> respond_to_batch_callbacks cp (wresp_message put_response) cbs
      | None \<Rightarrow> error_callbacks cp cbs)"

section \<open>The worker\<close>

datatype proxy_task = Await_Local callback batch_callbacks | Await_Remote callback batch_callbacks

record WriteProxy =
  wp_write_queue :: WriteQueue
  wp_max_batch_size :: u64
  wp_task_queue :: "(LocalRaftMessagePayload \<times> callback) list"
  wp_self_id :: u32
  wp_min_batch_interval :: u128
  wp_quorum_worker_tasks :: "LocalQuorumWorkerTaskType list list"
  wp_current_leader_id :: u32
  wp_tasks :: "proxy_task list"
  wp_next_callback :: callback

definition new_write_proxy :: "WriteBatch list \<Rightarrow> u64 \<Rightarrow> u32 \<Rightarrow> u64 \<Rightarrow> nat \<Rightarrow> WriteProxy" where
  "new_write_proxy work_queue max_batch_size self_id min_batch_interval workers =
     \<lparr> wp_write_queue = \<lparr> wq_work_queue = work_queue, wq_shelved_batch = None \<rparr>,
       wp_max_batch_size = max_batch_size, wp_task_queue = [], wp_self_id = self_id,
       wp_min_batch_interval = ucast min_batch_interval, wp_quorum_worker_tasks = replicate workers [],
       wp_current_leader_id = 0, wp_tasks = [], wp_next_callback = 0 \<rparr>"

text \<open>The request for the leader and what its answer means; \<open>resp\<close> is what the channel delivers.\<close>

definition get_current_leader :: "LocalRaftResponsePayload option \<Rightarrow> WriteProxy \<Rightarrow> u32 option \<times> WriteProxy" where
  "get_current_leader resp w =
     (case resp of
        Some (Resp_RaftState leader) \<Rightarrow> if leader = 0 then None else Some leader
      | _ \<Rightarrow> None,
      w\<lparr>wp_task_queue := wp_task_queue w @ [(Msg_GetRaftState, wp_next_callback w)],
        wp_next_callback := Suc (wp_next_callback w)\<rparr>)"

definition process_local_batch :: "OwnedWriteBatch \<Rightarrow> batch_callbacks \<Rightarrow> WriteProxy \<Rightarrow> WriteProxy" where
  "process_local_batch combined cbs w =
     w\<lparr>wp_task_queue := wp_task_queue w @ [(Msg_WriteBatch combined, wp_next_callback w)],
       wp_tasks := wp_tasks w @ [Await_Local (wp_next_callback w) cbs],
       wp_next_callback := Suc (wp_next_callback w)\<rparr>"

definition leader_quorum_worker_index :: "u32 \<Rightarrow> u32 \<Rightarrow> usize" where
  "leader_quorum_worker_index current_leader self_id =
     (if current_leader < self_id then unat (current_leader - 1) else unat (current_leader - 2))"

definition process_remote_batch ::
  "text_bytes \<Rightarrow> OwnedWriteBatch \<Rightarrow> batch_callbacks \<Rightarrow> WriteProxy \<Rightarrow> WriteProxy result" where
  "process_remote_batch batch_id combined cbs w =
     (let i = leader_quorum_worker_index (wp_current_leader_id w) (wp_self_id w);
          task = QT_WriteBatch \<lparr> wb_batch_id = batch_id, wb_message = combined, wb_callback = wp_next_callback w \<rparr> in
      bind_res (index_checked (wp_quorum_worker_tasks w) i) (\<lambda>q.
        Inr (w\<lparr>wp_quorum_worker_tasks := (wp_quorum_worker_tasks w)[i := q @ [task]],
               wp_tasks := wp_tasks w @ [Await_Remote (wp_next_callback w) cbs],
               wp_next_callback := Suc (wp_next_callback w)\<rparr>)))"

text \<open>The part of an iteration after the leader is known.\<close>

definition forward_batch :: "capnp \<Rightarrow> text_bytes \<Rightarrow> WriteProxy \<Rightarrow> WriteProxy result" where
  "forward_batch cp uuid w =
     (let (batch, full, wq) = next_write_batch cp (wp_max_batch_size w) (wp_write_queue w);
          w1 = w\<lparr>wp_write_queue := wq\<rparr> in
      if batch = [] then Inr w1
      else
        bind_res (prepare_batch_and_callbacks cp uuid batch) (\<lambda>(combined, cbs).
          if wp_self_id w1 = wp_current_leader_id w1 then Inr (process_local_batch combined cbs w1)
          else process_remote_batch uuid combined cbs w1))"

definition proxy_iteration ::
  "capnp \<Rightarrow> text_bytes \<Rightarrow> bool \<Rightarrow> LocalRaftResponsePayload option \<Rightarrow> WriteProxy \<Rightarrow> WriteProxy result" where
  "proxy_iteration cp uuid resync resp w =
     (if wp_current_leader_id w = 0 \<or> resync then
        let (leader, w1) = get_current_leader resp w in
        (case leader of
           Some l \<Rightarrow> forward_batch cp uuid (w1\<lparr>wp_current_leader_id := l\<rparr>)
         | None \<Rightarrow> Inr w1)
      else forward_batch cp uuid w)"

section \<open>Lemmas\<close>

text \<open>The batches of the clients in the order in which they must be forwarded.\<close>

definition pending_batches :: "WriteQueue \<Rightarrow> WriteBatch list" where
  "pending_batches wq = (case wq_shelved_batch wq of None \<Rightarrow> [] | Some b \<Rightarrow> [b]) @ wq_work_queue wq"

definition total_size :: "capnp \<Rightarrow> WriteBatch list \<Rightarrow> nat" where
  "total_size cp bs = sum_list (map (\<lambda>b. unat (write_batch_size cp b)) bs)"

lemma total_size_simps [simp]:
  "total_size cp [] = 0" "total_size cp (b # bs) = unat (write_batch_size cp b) + total_size cp bs"
  by (simp_all add: total_size_def)

lemma take_batches_fifo:
  "take_batches cp max_size cur q = (taken, shelved, q', full) \<Longrightarrow>
   taken @ (case shelved of None \<Rightarrow> [] | Some b \<Rightarrow> [b]) @ q' = q \<and> (\<not> full \<longrightarrow> shelved = None \<and> q' = [])"
proof (induction q arbitrary: cur taken)
  case (Cons b q)
  show ?case
  proof (cases "cur < max_size \<and> write_batch_size cp b + cur \<le> max_size")
    case True
    obtain tk where tk: "take_batches cp max_size (write_batch_size cp b + cur) q = (tk, shelved, q', full)"
      "taken = b # tk"
      using Cons.prems True by (auto simp: Let_def split: prod.splits)
    from Cons.IH [OF tk(1)] tk(2) show ?thesis by simp
  next
    case False
    with Cons.prems show ?thesis by (auto simp: Let_def split: if_splits)
  qed
qed (auto split: if_splits)

lemma take_batches_bound:
  assumes "take_batches cp max_size cur q = (taken, shelved, q', full)" "unat cur + total_size cp q < 2 ^ 64" "cur \<le> max_size"
  shows "unat cur + total_size cp taken \<le> unat max_size"
  using assms
proof (induction q arbitrary: cur taken)
  case (Cons b q)
  show ?case
  proof (cases "cur < max_size \<and> write_batch_size cp b + cur \<le> max_size")
    case True
    obtain tk where tk: "take_batches cp max_size (write_batch_size cp b + cur) q = (tk, shelved, q', full)"
      "taken = b # tk"
      using Cons.prems True by (auto simp: Let_def split: prod.splits)
    have sum: "unat (write_batch_size cp b + cur) = unat (write_batch_size cp b) + unat cur"
      using Cons.prems(2) by (subst unat_add_lem [THEN iffD1]) simp_all
    from Cons.IH [OF tk(1)] Cons.prems True sum tk(2) show ?thesis by simp
  next
    case False
    with Cons.prems show ?thesis by (auto simp: Let_def word_le_nat_alt split: if_splits)
  qed
qed (auto simp: word_le_nat_alt split: if_splits)

lemma take_batches_full: "\<not> cur < max_size \<Longrightarrow> take_batches cp max_size cur q = ([], None, q, True)"
  by (cases q) simp_all

lemma pending_simps [simp]:
  "pending_batches \<lparr> wq_work_queue = q, wq_shelved_batch = None \<rparr> = q"
  "pending_batches \<lparr> wq_work_queue = q, wq_shelved_batch = Some b \<rparr> = b # q"
  by (simp_all add: pending_batches_def)

lemma next_write_batch_fifo:
  assumes "next_write_batch cp max_size wq = (taken, full, wq')"
  shows "taken @ pending_batches wq' = pending_batches wq" "\<not> full \<Longrightarrow> pending_batches wq' = []"
proof -
  obtain taken0 cur tk shelved q' where
    t: "take_batches cp max_size cur (wq_work_queue wq) = (tk, shelved, q', full)"
    "taken = taken0 @ tk" "wq' = \<lparr> wq_work_queue = q', wq_shelved_batch = shelved \<rparr>"
    "taken0 = (case wq_shelved_batch wq of None \<Rightarrow> [] | Some b \<Rightarrow> [b])"
    using assms by (auto simp: next_write_batch_def split: option.splits prod.splits)
  note f = take_batches_fifo [OF t(1)]
  show "taken @ pending_batches wq' = pending_batches wq"
    using f t(2-4) by (simp add: pending_batches_def)
  show "\<not> full \<Longrightarrow> pending_batches wq' = []"
    using f t(3) by simp
qed

lemma next_write_batch_bounded:
  assumes "next_write_batch cp max_size wq = (taken, full, wq')" "total_size cp (pending_batches wq) < 2 ^ 64"
  shows "total_size cp taken \<le> unat max_size \<or> (\<exists>b. taken = [b] \<and> max_size < write_batch_size cp b)"
proof (cases "wq_shelved_batch wq")
  case None
  then have "take_batches cp max_size 0 (wq_work_queue wq) =
      (taken, wq_shelved_batch wq', wq_work_queue wq', full)"
    using assms(1) by (auto simp: next_write_batch_def split: prod.splits)
  from take_batches_bound [OF this] assms(2) None show ?thesis by (simp add: pending_batches_def)
next
  case (Some b)
  then obtain tk where t: "take_batches cp max_size (write_batch_size cp b) (wq_work_queue wq) =
      (tk, wq_shelved_batch wq', wq_work_queue wq', full)" "taken = b # tk"
    using assms(1) by (auto simp: next_write_batch_def split: prod.splits)
  show ?thesis
  proof (cases "write_batch_size cp b \<le> max_size")
    case True
    with take_batches_bound [OF t(1)] assms(2) Some t(2) show ?thesis by (simp add: pending_batches_def)
  next
    case False
    with take_batches_full [of "write_batch_size cp b" max_size] t show ?thesis by auto
  qed
qed

section \<open>Properties\<close>

text \<open>
  C27: The queue of the write proxy forwards every batch once, in order and within the
  configured size: what one call takes, followed by what is left (the shelved batch first),
  is what was pending; a batch that is not reported as full has emptied the queue; and the
  payloads that one call takes add up to at most the limit, unless a single batch is larger
  than the limit, which then goes alone.
\<close>

theorem next_write_batch_combines:
  assumes "next_write_batch cp max_size wq = (taken, full, wq')" "total_size cp (pending_batches wq) < 2 ^ 64"
  shows "taken @ pending_batches wq' = pending_batches wq \<and> (full \<or> pending_batches wq' = []) \<and>
    (total_size cp taken \<le> unat max_size \<or> (\<exists>b. taken = [b] \<and> max_size < write_batch_size cp b))"
  using next_write_batch_fifo [OF assms(1)] next_write_batch_bounded [OF assms] by auto

text \<open>
  No batch starves: with a positive limit and something pending, a call takes a
  batch, or it shelves one that is larger than the limit, which the next call takes.
\<close>

lemma next_write_batch_progress:
  assumes "0 < max_size" "pending_batches wq \<noteq> []" "next_write_batch cp max_size wq = (taken, full, wq')"
  shows "taken \<noteq> [] \<or> fst (next_write_batch cp max_size wq') \<noteq> []"
proof (cases "wq_shelved_batch wq")
  case None
  then obtain b q where q: "wq_work_queue wq = b # q"
    using assms(2) by (auto simp: pending_batches_def neq_Nil_conv)
  show ?thesis
  proof (cases "write_batch_size cp b \<le> max_size")
    case True
    with None q assms(1,3) show ?thesis by (auto simp: next_write_batch_def Let_def split: prod.splits)
  next
    case False
    with None q assms(1,3) have "wq_shelved_batch wq' = Some b" by (auto simp: next_write_batch_def Let_def)
    then show ?thesis by (simp add: next_write_batch_def split_beta)
  qed
next
  case (Some b)
  with assms(3) show ?thesis by (auto simp: next_write_batch_def split: prod.splits)
qed

text \<open>Two batches of one request each, with payloads of two bytes and of one byte.\<close>

definition sample_batch :: "text_bytes \<Rightarrow> u8 list \<Rightarrow> callback \<Rightarrow> WriteBatch" where
  "sample_batch key payload cb =
     \<lparr> wb_batch_id = key,
       wb_message = OwnedWriteBatch (write_write_batch sample_capnp
         \<lparr> iwb_batch_id = Some key,
           iwb_requests = Some [\<lparr> put_id = Some key, put_payload = Some payload, put_node_id = 1 \<rparr>] \<rparr>),
       wb_callback = cb \<rparr>"

lemma sample_batch_message:
  "write_batch_with_message sample_capnp (wb_message (sample_batch key payload cb)) f =
     Some (f \<lparr> iwb_batch_id = Some key,
           iwb_requests = Some [\<lparr> put_id = Some key, put_payload = Some payload, put_node_id = 1 \<rparr>] \<rparr>)"
proof (rule build_owned_write_batchD [OF sample_write_batch_law])
  show "build_owned_write_batch sample_capnp \<lparr> iwb_batch_id = Some key,
      iwb_requests = Some [\<lparr> put_id = Some key, put_payload = Some payload, put_node_id = 1 \<rparr>] \<rparr> =
    Inr (wb_message (sample_batch key payload cb))"
    by (simp add: build_owned_write_batch_def write_batch_from_bytes_def sample_batch_def)
       (simp add: sample_capnp_def read_frame_len_def frame_def)
qed (simp add: built_write_batch_def built_put_request_def)

lemma sample_batch_size [simp]:
  "write_batch_size sample_capnp (sample_batch key payload cb) = of_nat (length payload)"
  by (simp add: write_batch_size_def sample_batch_message payload_size_def)

definition sample_queue :: WriteQueue where
  "sample_queue = \<lparr> wq_work_queue = [sample_batch [97] [1, 2] 5, sample_batch [98] [3] 6, sample_batch [99] [4, 5] 7],
                    wq_shelved_batch = None \<rparr>"

theorem next_write_batch_combines_witness:
  "\<exists>taken full wq'. next_write_batch sample_capnp 4 sample_queue = (taken, full, wq') \<and>
     taken @ pending_batches wq' = pending_batches sample_queue \<and> total_size sample_capnp taken \<le> 4"
proof -
  have n: "next_write_batch sample_capnp 4 sample_queue =
      ([sample_batch [97] [1, 2] 5, sample_batch [98] [3] 6], True,
       \<lparr> wq_work_queue = [], wq_shelved_batch = Some (sample_batch [99] [4, 5] 7) \<rparr>)"
    by (simp add: next_write_batch_def sample_queue_def)
  have "total_size sample_capnp (pending_batches sample_queue) < 2 ^ 64" by (simp add: sample_queue_def pending_batches_def)
  from next_write_batch_combines [OF n this] n show ?thesis by auto
qed

lemma respond_all_ok:
  "respond_to_batch_callbacks cp m cbs = Inr rs \<Longrightarrow>
   map fst rs = map snd cbs \<and> list_all (\<lambda>(_, r). wresp_status r = Status_Ok) rs"
  by (induction cbs arbitrary: rs) (auto simp: write_response_success_def)

text \<open>
  C40: A failed write is reported as a success. Whatever error the state machine puts
  beside its answer to a write batch (that this node is not the leader, that the batch
  was rejected), every client of the combined batch is told \<open>WriteStatus::Ok\<close>.
\<close>

theorem failed_write_reported_ok:
  assumes "handle_local_write_response cp (Some (Resp_WriteBatch \<lparr> wr_message = m, wr_err = Some err \<rparr>)) cbs = Inr rs"
  shows "map fst rs = map snd cbs \<and> list_all (\<lambda>(_, r). wresp_status r = Status_Ok) rs"
  using assms respond_all_ok by (simp add: handle_local_write_response_def handle_insert_completed_def)

theorem failed_write_reported_ok_witness:
  "\<exists>rs. handle_local_write_response sample_capnp
      (Some (Resp_WriteBatch \<lparr> wr_message = OwnedWriteBatchResponse (frame []), wr_err = Some ''Received write batch as non-leader'' \<rparr>))
      [([97], 5)] = Inr rs \<and> map fst rs = [5] \<and> wresp_status (snd (hd rs)) = Status_Ok"
proof -
  let ?m = "OwnedWriteBatchResponse (frame [])"
  have "read_frame_len (frame []) \<noteq> None" by (simp add: frame_def enc_nat_def read_frame_len_def)
  then obtain b where "batch_response sample_capnp ?m [97] = Inr b"
    by (auto simp: batch_response_def build_owned_write_batch_response_def write_batch_response_from_bytes_def
        sample_capnp_def)
  then obtain rs where rs: "handle_local_write_response sample_capnp
      (Some (Resp_WriteBatch \<lparr> wr_message = ?m, wr_err = Some ''Received write batch as non-leader'' \<rparr>)) [([97], 5)] = Inr rs"
    by (simp add: handle_local_write_response_def handle_insert_completed_def)
  from failed_write_reported_ok [OF rs] rs show ?thesis by (cases rs) auto
qed

section \<open>Routing to the leader\<close>

lemma others_split:
  assumes "1 \<le> self" "self \<le> n"
  shows "filter (\<lambda>i. i \<noteq> self) [1 ..< Suc n] = [1 ..< self] @ [Suc self ..< Suc n]"
proof -
  have "[1 ..< Suc n] = [1 ..< self] @ self # [Suc self ..< Suc n]"
    using assms upt_add_eq_append [of 1 self "Suc n - self"] by (simp add: upt_conv_Cons del: upt_Suc)
  moreover have "filter (\<lambda>i. i \<noteq> self) [1 ..< self] = [1 ..< self]"
    "filter (\<lambda>i. i \<noteq> self) [Suc self ..< Suc n] = [Suc self ..< Suc n]"
    by (auto simp: filter_id_conv)
  ultimately show ?thesis by simp
qed

text \<open>
  The position of the leader's worker among the workers of the other nodes, when the nodes
  are numbered from 1.
\<close>

lemma leader_worker_index_correct:
  assumes "1 \<le> self" "self \<le> n" "1 \<le> leader" "leader \<le> n" "leader \<noteq> self" "n < 2 ^ 32"
    "others = filter (\<lambda>i. i \<noteq> self) [1 ..< Suc n]"
  shows "leader_quorum_worker_index (of_nat leader) (of_nat self) < length others \<and>
    others ! leader_quorum_worker_index (of_nat leader) (of_nat self) = leader"
proof -
  have u: "unat (of_nat leader :: u32) = leader" "unat (of_nat self :: u32) = self"
    using assms by (subst unat_of_nat; simp)+
  have less: "((of_nat leader :: u32) < of_nat self) = (leader < self)" using u by (simp add: word_less_nat_alt)
  have o: "others = [1 ..< self] @ [Suc self ..< Suc n]" using others_split assms by simp
  show ?thesis
  proof (cases "leader < self")
    case True
    have "unat ((of_nat leader :: u32) - 1) = leader - 1"
      using u assms(3) by (subst unat_sub) (simp_all add: word_le_nat_alt)
    then have "leader_quorum_worker_index (of_nat leader) (of_nat self) = leader - 1"
      using True less by (simp add: leader_quorum_worker_index_def)
    with True assms(1-6) o show ?thesis by (auto simp: nth_append simp del: upt_Suc)
  next
    case False
    then have "2 \<le> leader" using assms by simp
    then have "unat ((of_nat leader :: u32) - 2) = leader - 2"
      using u by (subst unat_sub) (simp_all add: word_le_nat_alt)
    then have "leader_quorum_worker_index (of_nat leader) (of_nat self) = leader - 2"
      using False less by (simp add: leader_quorum_worker_index_def)
    moreover have "\<not> leader - 2 < self - 1" "leader - 2 < n - 1" "leader - 2 - (self - 1) + Suc self = leader"
      using False assms(1-5) by arith+
    ultimately show ?thesis using o assms(1,2) by (auto simp: nth_append simp del: upt_Suc)
  qed
qed

end
