(* ===== verification/Query_Worker.thy ===== *)
theory Query_Worker
  imports Log_Consistency Sample_Runs
begin

text \<open>
  The query worker, \<open>query/worker.rs\<close>: it applies the committed entries that the
  bus brings to its key-value map and answers the queries whose index has been
  applied. Each worker has its own reader of the bus; \<open>qk_bus\<close> holds what the
  reader has not received yet. The local variables of \<open>run\<close> that live across
  iterations are fields of the state. The version and the commit index that an
  iteration loads are its arguments. Back-off and log lines are left out.
\<close>

section \<open>The worker\<close>

record QueryRequest =
  qr_id :: text_bytes
  qr_index :: u64
  qr_callback :: callback

record QueryWorker =
  qk_bus :: "OwnedLogEntry list"
  query_structure :: "text_bytes \<rightharpoonup> u8 list"
  pending_queries :: "QueryRequest list"
  last_version :: u64
  parked :: "OwnedLogEntry option"
  parked_request :: "QueryRequest option"
  applied_index :: u64
  query_responses :: "(callback \<times> u8 list option) list"

definition new_query_worker :: QueryWorker where
  "new_query_worker =
     \<lparr> qk_bus = [], query_structure = (\<lambda>_. None), pending_queries = [], last_version = 0, parked = None,
       parked_request = None, applied_index = 0, query_responses = [] \<rparr>"

text \<open>\<open>for_each_command\<close> with the closure that inserts the payload; an entry that cannot be read is ignored.\<close>

definition apply_commands :: "capnp \<Rightarrow> OwnedLogEntry \<Rightarrow> (text_bytes \<rightharpoonup> u8 list) \<Rightarrow> (text_bytes \<rightharpoonup> u8 list)" where
  "apply_commands cp e m =
     (case for_each_command cp e of
        None \<Rightarrow> m
      | Some cmds \<Rightarrow> fold (\<lambda>(i, payload, _) m. m(i \<mapsto> payload)) cmds m)"

definition apply_entry :: "capnp \<Rightarrow> OwnedLogEntry \<Rightarrow> QueryWorker \<Rightarrow> QueryWorker" where
  "apply_entry cp e w =
     w\<lparr>query_structure := apply_commands cp e (query_structure w), applied_index := entry_index cp e\<rparr>"

definition apply_parked :: "capnp \<Rightarrow> u64 \<Rightarrow> QueryWorker \<Rightarrow> QueryWorker" where
  "apply_parked cp index w =
     (case parked w of
        None \<Rightarrow> w
      | Some parked_value \<Rightarrow>
          (if entry_index cp parked_value \<le> index then apply_entry cp parked_value (w\<lparr>parked := None\<rparr>)
           else w))"

text \<open>The loop over \<open>try_recv\<close>; the list is what the reader has yet to receive.\<close>

fun drain_bus :: "capnp \<Rightarrow> u64 \<Rightarrow> OwnedLogEntry list \<Rightarrow> QueryWorker \<Rightarrow> QueryWorker" where
  "drain_bus cp index [] w = w\<lparr>qk_bus := []\<rparr>"
| "drain_bus cp index (val # rest) w =
     (if entry_index cp val \<le> index then drain_bus cp index rest (apply_entry cp val w)
      else if entry_term cp val = u64_max then
        drain_bus cp index rest (w\<lparr>query_structure := (\<lambda>_. None), applied_index := 0\<rparr>)
      else w\<lparr>parked := Some val, qk_bus := rest\<rparr>)"

definition handle_query :: "QueryRequest \<Rightarrow> QueryWorker \<Rightarrow> QueryWorker" where
  "handle_query q w =
     w\<lparr>query_responses := query_responses w @ [(qr_callback q, query_structure w (qr_id q))]\<rparr>"

fun serve_queries :: "QueryRequest list \<Rightarrow> QueryWorker \<Rightarrow> QueryWorker" where
  "serve_queries [] w = w\<lparr>pending_queries := []\<rparr>"
| "serve_queries (q # qs) w =
     (if qr_index q \<le> applied_index w then serve_queries qs (handle_query q w)
      else w\<lparr>parked_request := Some q, pending_queries := qs\<rparr>)"

definition apply_new_entries :: "capnp \<Rightarrow> u64 \<Rightarrow> u64 \<Rightarrow> QueryWorker \<Rightarrow> QueryWorker" where
  "apply_new_entries cp current_version index w =
     (if current_version \<noteq> last_version w then
        let w1 = apply_parked cp index (w\<lparr>last_version := current_version\<rparr>) in
        drain_bus cp index (qk_bus w1) w1
      else w)"

definition query_iteration :: "capnp \<Rightarrow> u64 \<Rightarrow> u64 \<Rightarrow> QueryWorker \<Rightarrow> QueryWorker" where
  "query_iteration cp current_version index w =
     (let w1 = apply_new_entries cp current_version index w in
      case parked_request w1 of
        Some q \<Rightarrow>
          (if qr_index q \<le> applied_index w1 then
             let w2 = handle_query q (w1\<lparr>parked_request := None\<rparr>) in serve_queries (pending_queries w2) w2
           else w1)
      | None \<Rightarrow> serve_queries (pending_queries w1) w1)"

section \<open>What the worker promises\<close>

text \<open>The map after a sequence of entries.\<close>

definition replay :: "capnp \<Rightarrow> OwnedLogEntry list \<Rightarrow> (text_bytes \<rightharpoonup> u8 list) \<Rightarrow> (text_bytes \<rightharpoonup> u8 list)" where
  "replay cp es m = fold (apply_commands cp) es m"

text \<open>The queries in the order in which the worker must answer them.\<close>

definition waiting :: "QueryWorker \<Rightarrow> QueryRequest list" where
  "waiting w = (case parked_request w of None \<Rightarrow> [] | Some q \<Rightarrow> [q]) @ pending_queries w"

section \<open>Lemmas\<close>

lemma replay_simps [simp]:
  "replay cp [] m = m" "replay cp (e # es) m = replay cp es (apply_commands cp e m)"
  "replay cp (es @ fs) m = replay cp fs (replay cp es m)"
  by (simp_all add: replay_def)

lemma apply_entry_simps [simp]:
  "query_structure (apply_entry cp e w) = apply_commands cp e (query_structure w)"
  "applied_index (apply_entry cp e w) = entry_index cp e"
  "qk_bus (apply_entry cp e w) = qk_bus w" "pending_queries (apply_entry cp e w) = pending_queries w"
  "parked (apply_entry cp e w) = parked w" "parked_request (apply_entry cp e w) = parked_request w"
  "query_responses (apply_entry cp e w) = query_responses w" "last_version (apply_entry cp e w) = last_version w"
  by (simp_all add: apply_entry_def)

lemma drain_bus_committed:
  "list_all (\<lambda>e. entry_index cp e \<le> index) es \<Longrightarrow>
   query_structure (drain_bus cp index es w) = replay cp es (query_structure w) \<and>
   applied_index (drain_bus cp index es w) = (if es = [] then applied_index w else entry_index cp (last es)) \<and>
   parked (drain_bus cp index es w) = parked w \<and> qk_bus (drain_bus cp index es w) = []"
  by (induction es arbitrary: w) auto

lemma drain_bus_frame [simp]:
  "pending_queries (drain_bus cp index es w) = pending_queries w"
  "parked_request (drain_bus cp index es w) = parked_request w"
  "query_responses (drain_bus cp index es w) = query_responses w"
  by (induction es arbitrary: w) simp_all

lemma apply_parked_frame [simp]:
  "pending_queries (apply_parked cp index w) = pending_queries w"
  "parked_request (apply_parked cp index w) = parked_request w"
  "query_responses (apply_parked cp index w) = query_responses w"
  "qk_bus (apply_parked cp index w) = qk_bus w"
  by (simp_all add: apply_parked_def split: option.split)

lemma apply_new_entries_frame [simp]:
  "pending_queries (apply_new_entries cp v index w) = pending_queries w"
  "parked_request (apply_new_entries cp v index w) = parked_request w"
  "query_responses (apply_new_entries cp v index w) = query_responses w"
  by (simp_all add: apply_new_entries_def Let_def)

lemma handle_query_simps [simp]:
  "query_structure (handle_query q w) = query_structure w" "applied_index (handle_query q w) = applied_index w"
  "pending_queries (handle_query q w) = pending_queries w" "parked_request (handle_query q w) = parked_request w"
  "query_responses (handle_query q w) = query_responses w @ [(qr_callback q, query_structure w (qr_id q))]"
  by (simp_all add: handle_query_def)

text \<open>The answers to a list of queries that the applied index allows.\<close>

definition answers_for :: "(text_bytes \<rightharpoonup> u8 list) \<Rightarrow> QueryRequest list \<Rightarrow> (callback \<times> u8 list option) list" where
  "answers_for m qs = map (\<lambda>q. (qr_callback q, m (qr_id q))) qs"

lemma serve_queries_eq:
  "serve_queries qs w =
     (let ready = (\<lambda>q. qr_index q \<le> applied_index w); rest = dropWhile ready qs in
      w\<lparr>query_responses := query_responses w @ answers_for (query_structure w) (takeWhile ready qs),
        parked_request := (case rest of [] \<Rightarrow> parked_request w | q # _ \<Rightarrow> Some q),
        pending_queries := tl rest\<rparr>)"
proof (induction qs arbitrary: w)
  case (Cons q qs)
  show ?case
  proof (cases "qr_index q \<le> applied_index w")
    case True
    with Cons.IH [of "handle_query q w"] show ?thesis
      by (cases "dropWhile (\<lambda>q. qr_index q \<le> applied_index w) qs")
         (simp_all add: Let_def answers_for_def handle_query_def del: dropWhile_eq_Nil_conv)
  qed (simp add: answers_for_def)
qed (simp add: answers_for_def)

lemma query_iteration_spec:
  fixes w cp v index
  defines "w1 \<equiv> apply_new_entries cp v index w" and "w' \<equiv> query_iteration cp v index w"
  defines "ready \<equiv> \<lambda>q. qr_index q \<le> applied_index w1"
  shows "query_structure w' = query_structure w1" "applied_index w' = applied_index w1"
    "waiting w' = dropWhile ready (waiting w)"
    "query_responses w' = query_responses w @ answers_for (query_structure w1) (takeWhile ready (waiting w))"
proof -
  have fr: "parked_request w1 = parked_request w" "pending_queries w1 = pending_queries w"
    "query_responses w1 = query_responses w"
    by (simp_all add: w1_def)
  have it: "w' = (case parked_request w1 of
        Some q \<Rightarrow> (if ready q then
             let w2 = handle_query q (w1\<lparr>parked_request := None\<rparr>) in serve_queries (pending_queries w2) w2 else w1)
      | None \<Rightarrow> serve_queries (pending_queries w1) w1)"
    by (simp only: w'_def query_iteration_def Let_def ready_def w1_def)
  have "query_structure w' = query_structure w1 \<and> applied_index w' = applied_index w1 \<and>
    waiting w' = dropWhile ready (waiting w) \<and>
    query_responses w' = query_responses w @ answers_for (query_structure w1) (takeWhile ready (waiting w))"
  proof (cases "parked_request w1")
    case None
    then show ?thesis
      using fr unfolding it
      by (cases "dropWhile ready (pending_queries w)")
         (simp_all add: serve_queries_eq Let_def waiting_def ready_def del: dropWhile_eq_Nil_conv)
  next
    case (Some q)
    then show ?thesis
      using fr unfolding it
      by (cases "dropWhile ready (pending_queries w)")
         (simp_all add: serve_queries_eq Let_def waiting_def ready_def answers_for_def del: dropWhile_eq_Nil_conv)
  qed
  then show "query_structure w' = query_structure w1" "applied_index w' = applied_index w1"
    "waiting w' = dropWhile ready (waiting w)"
    "query_responses w' = query_responses w @ answers_for (query_structure w1) (takeWhile ready (waiting w))"
    by simp_all
qed

section \<open>Properties\<close>

text \<open>
  C25: Queries are answered in order and never too early. In every iteration the
  worker answers the longest start of its waiting queries whose index has been
  applied, each with the value of its key after everything applied so far; the
  others wait on in the same order, so no query is lost, answered twice or
  overtaken.
\<close>

theorem query_iteration_answers:
  "let w1 = apply_new_entries cp v index w; w' = query_iteration cp v index w;
       ready = (\<lambda>q. qr_index q \<le> applied_index w1) in
   query_structure w' = query_structure w1 \<and>
   waiting w' = dropWhile ready (waiting w) \<and>
   query_responses w' = query_responses w @
     map (\<lambda>q. (qr_callback q, query_structure w1 (qr_id q))) (takeWhile ready (waiting w))"
  using query_iteration_spec [of cp v index w] by (simp add: Let_def answers_for_def)

text \<open>
  Committed entries are applied completely and in order. When the version has
  changed and the parked entry and all entries on the bus are committed, one
  iteration leaves the map at the replay of exactly those entries, in the order of
  the bus, with nothing parked and nothing left on the bus.
\<close>

lemma query_iteration_applies:
  assumes "v \<noteq> last_version w"
    and "list_all (\<lambda>e. entry_index cp e \<le> index) (qk_bus w)"
    and "(case parked w of None \<Rightarrow> True | Some e \<Rightarrow> entry_index cp e \<le> index)"
    and "w' = apply_new_entries cp v index w"
  shows "query_structure w' = replay cp ((case parked w of None \<Rightarrow> [] | Some e \<Rightarrow> [e]) @ qk_bus w) (query_structure w) \<and>
    parked w' = None \<and> qk_bus w' = [] \<and> last_version w' = v"
proof -
  let ?w1 = "apply_parked cp index (w\<lparr>last_version := v\<rparr>)"
  have w1: "query_structure ?w1 = replay cp (case parked w of None \<Rightarrow> [] | Some e \<Rightarrow> [e]) (query_structure w)"
    "parked ?w1 = None" "last_version ?w1 = v"
    using assms(3) by (auto simp: apply_parked_def split: option.splits)
  have lv: "last_version (drain_bus cp index es u) = last_version u" for es u
    by (induction es arbitrary: u) simp_all
  show ?thesis
    using assms(1,4) drain_bus_committed [OF assms(2), of ?w1] w1 lv by (simp add: apply_new_entries_def Let_def)
qed

lemma apply_commands_sample_put [simp]:
  "list_all (\<lambda>(k, _). utf8_valid k) cmds \<Longrightarrow>
   apply_commands sample_capnp (sample_put idx t pi pt i cmds) m = fold (\<lambda>(k, v) m. m(k \<mapsto> v)) cmds m"
  by (simp add: apply_commands_def fold_map comp_def case_prod_unfold)

text \<open>
  C37: A parked entry can be lost. When an iteration sees a new version while the
  commit index is still below the parked entry, and the next entry on the bus is
  not committed either, that entry takes the place of the parked one, which is
  never applied.
\<close>

theorem parked_entry_overwritten:
  assumes "v \<noteq> last_version w" "parked w = Some e" "index < entry_index cp e"
    and "qk_bus w = e' # es" "index < entry_index cp e'" "entry_term cp e' \<noteq> u64_max"
  shows "parked (apply_new_entries cp v index w) = Some e' \<and> qk_bus (apply_new_entries cp v index w) = es \<and>
    query_structure (apply_new_entries cp v index w) = query_structure w"
  using assms by (simp add: apply_new_entries_def apply_parked_def Let_def not_le [symmetric])

theorem parked_entry_overwritten_witness:
  "parked (apply_new_entries sample_capnp 3 0
     (new_query_worker\<lparr>parked := Some (sample_put 1 1 0 0 2 [([107], [1])]), qk_bus := [sample_put 2 1 0 0 2 [([108], [2])]]\<rparr>)) = Some (sample_put 2 1 0 0 2 [([108], [2])])"
  using parked_entry_overwritten [of 3 "new_query_worker\<lparr>parked := Some (sample_put 1 1 0 0 2 [([107], [1])]), qk_bus := [sample_put 2 1 0 0 2 [([108], [2])]]\<rparr>"
      "sample_put 1 1 0 0 2 [([107], [1])]" 0 sample_capnp "sample_put 2 1 0 0 2 [([108], [2])]" "[]"]
  by (simp add: new_query_worker_def)

end
