(* ===== verification/Read_Path.thy ===== *)
theory Read_Path
  imports Query_Worker
begin

text \<open>
  The path of a committed entry to the readers, which takes three components: the
  state machine moves the commit index and broadcasts the entries up to it
  (\<open>broadcast_committed_entries\<close> in \<open>raft_sm.rs\<close>), the bus carries them, and the
  query worker applies them and answers the queries that wait for them
  (\<open>query/worker.rs\<close>). The last property is the case the retries do not cover: a
  bus that stays full.
\<close>

section \<open>A reader in step with the bus\<close>

text \<open>
  Of the entries \<open>D\<close> delivered so far the worker has applied the first ones and
  will receive the others.
\<close>

definition in_step :: "capnp \<Rightarrow> OwnedLogEntry list \<Rightarrow> QueryWorker \<Rightarrow> bool" where
  "in_step cp D w \<longleftrightarrow>
     parked w = None \<and>
     (let k = length D - length (qk_bus w) in
      qk_bus w = drop k D \<and> query_structure w = replay cp (take k D) (\<lambda>_. None) \<and>
      applied_index w = (if k = 0 then 0 else entry_index cp (D ! (k - 1))))"

lemma in_step_apply:
  assumes "in_step cp D w" "list_all (\<lambda>e. entry_index cp e \<le> index) D" "v \<noteq> last_version w" "D \<noteq> []"
  shows "query_structure (apply_new_entries cp v index w) = replay cp D (\<lambda>_. None)"
    and "applied_index (apply_new_entries cp v index w) = entry_index cp (last D)"
    and "in_step cp D (apply_new_entries cp v index w)"
proof -
  let ?k = "length D - length (qk_bus w)" and ?w = "w\<lparr>last_version := v\<rparr>"
  let ?w' = "apply_new_entries cp v index w"
  have w: "parked w = None" "qk_bus w = drop ?k D" "query_structure w = replay cp (take ?k D) (\<lambda>_. None)"
    "applied_index w = (if ?k = 0 then 0 else entry_index cp (D ! (?k - 1)))"
    using assms(1) by (simp_all add: in_step_def Let_def)
  have committed: "list_all (\<lambda>e. entry_index cp e \<le> index) (qk_bus w)"
    using assms(2) w(2) set_drop_subset [of ?k D] by (auto simp: list_all_iff)
  have w': "?w' = drain_bus cp index (qk_bus w) ?w"
    using assms(3) w(1) by (simp add: apply_new_entries_def apply_parked_def)
  have D: "take ?k D @ qk_bus w = D" using w(2) append_take_drop_id by metis
  note spec = drain_bus_committed [OF committed, of ?w, folded w']
  show st: "query_structure ?w' = replay cp D (\<lambda>_. None)"
    using spec w(3) replay_simps(3) [of cp "take ?k D" "qk_bus w"] D by simp
  show ap: "applied_index ?w' = entry_index cp (last D)"
  proof (cases "qk_bus w = []")
    case True
    then show ?thesis using spec w(4) assms(4) by (simp add: last_conv_nth)
  next
    case False
    then have "last (qk_bus w) = last D" using w(2) by (metis drop_eq_Nil last_drop leI)
    with False spec show ?thesis by simp
  qed
  show "in_step cp D ?w'"
    using spec st ap w(1) assms(4) by (simp add: in_step_def Let_def last_conv_nth)
qed

section \<open>A commit reaches the bus\<close>

lemma log_ok_indices:
  assumes "log_ok cp L" "unat (idx :: u64) < length L"
  shows "list_all (\<lambda>e. entry_index cp e \<le> idx) (take (Suc (unat idx)) L)"
    and "entry_index cp (last (take (Suc (unat idx)) L)) = idx"
proof -
  have "entry_index cp (L ! i) \<le> idx" if "i \<le> unat idx" for i
    using that assms unat_of_nat_below [of i idx] by (simp add: log_ok_def word_le_nat_alt)
  then show "list_all (\<lambda>e. entry_index cp e \<le> idx) (take (Suc (unat idx)) L)"
    using assms(2) by (auto simp: list_all_length)
  show "entry_index cp (last (take (Suc (unat idx)) L)) = idx"
    using assms by (simp add: take_Suc_nth log_ok_def)
qed

lemma advance_commit_broadcast:
  assumes "broadcast_inv s" "bus_live s" "unat idx < length (raft_log s)"
    "commit_index (vol s) < idx" "broadcast_start_index s \<le> idx"
  shows "delivered (log_entry_bus (advance_commit idx s)) = take (Suc (unat idx)) (raft_log s)"
    and "broadcast_inv (advance_commit idx s)"
    and "cs_commit_index (commit_state (vol (advance_commit idx s))) = idx"
proof -
  let ?t = "bump_version (upd_vol (\<lambda>v. v\<lparr>commit_index := idx,
              commit_state := (commit_state v)\<lparr>cs_commit_index := idx\<rparr>\<rparr>) s)"
  let ?u = "broadcast_committed_entries idx ?t"
  have t: "raft_log ?t = raft_log s" "log_entry_bus ?t = log_entry_bus s"
    "last_broadcast_index (vol ?t) = last_broadcast_index (vol s)"
    by (simp_all add: bump_version_def)
  then have pre: "broadcast_inv ?t" "unat idx < length (raft_log ?t)" "bus_live ?t" "broadcast_start_index ?t \<le> idx"
    using assms
    by (simp_all add: broadcast_inv_def bus_live_def broadcast_start_index_def delivered_upto_def split: option.splits)
  note live = broadcast_committed_entries_live [OF pre(1-3)]
  have "delivered_upto (Suc (unat idx)) ?u"
    using live(1) live(2) [OF pre(4)] by (simp add: broadcast_inv_def)
  then have d: "delivered (log_entry_bus ?u) = take (Suc (unat idx)) (raft_log s)"
    by (simp add: delivered_upto_def)
  have s': "advance_commit idx s = push_all_quorum (QT_UpdateCommitIndex idx) ?u"
    using assms(4) by (simp add: advance_commit_def)
  show "delivered (log_entry_bus (advance_commit idx s)) = take (Suc (unat idx)) (raft_log s)"
    using d s' by (simp add: push_all_quorum_def)
  show "broadcast_inv (advance_commit idx s)"
    using live(1) s' by (simp add: push_all_quorum_def broadcast_inv_def delivered_upto_def split: option.splits)
  show "cs_commit_index (commit_state (vol (advance_commit idx s))) = idx"
    using s' by (simp add: push_all_quorum_def bump_version_def)
qed

text \<open>
  C16: Committed entries reach the bus once, in order and without a gap. When the
  leader commits up to an index of its log and the bus accepts at least one of any
  hundred consecutive attempts, the bus has received exactly the entries up to that
  index, in log order, and the recorded position says so, so that the next commit
  continues after it.
\<close>

theorem commit_broadcasts_log:
  assumes "broadcast_inv s" "bus_live s" "unat idx < length (raft_log s)"
    "commit_index (vol s) < idx" "broadcast_start_index s \<le> idx"
  shows "delivered (log_entry_bus (advance_commit idx s)) = take (Suc (unat idx)) (raft_log s) \<and>
    broadcast_inv (advance_commit idx s)"
  using advance_commit_broadcast [OF assms] by simp

lemma reads_see_commit:
  assumes "broadcast_inv s" "bus_live s" "log_ok cp (raft_log s)" "unat idx < length (raft_log s)"
    "commit_index (vol s) < idx" "broadcast_start_index s \<le> idx" "s' = advance_commit idx s"
    "in_step cp (delivered (log_entry_bus s')) w" "v \<noteq> last_version w"
    "w' = query_iteration cp v (cs_commit_index (commit_state (vol s'))) w"
    "m = replay cp (take (Suc (unat idx)) (raft_log s)) (\<lambda>_. None)"
  shows "query_structure w' = m \<and>
    query_responses w' = query_responses w @
      map (\<lambda>q. (qr_callback q, m (qr_id q))) (takeWhile (\<lambda>q. qr_index q \<le> idx) (waiting w))"
proof -
  note b = advance_commit_broadcast [OF assms(1,2,4,5,6), folded assms(7)]
  let ?D = "take (Suc (unat idx)) (raft_log s)"
  have "?D \<noteq> []" using assms(4) by (cases "raft_log s") simp_all
  from in_step_apply [OF assms(8) [unfolded b] log_ok_indices(1) [OF assms(3,4)] assms(9) this]
    log_ok_indices(2) [OF assms(3,4)] query_iteration_spec(1,4) [of cp v idx w]
  show ?thesis unfolding assms(10,11) b by (simp add: answers_for_def)
qed


definition sample_kv_log :: "OwnedLogEntry list" where
  "sample_kv_log = [sample_put 0 1 0 0 2 [], sample_put 1 1 0 1 3 [([107], [7])]]"

definition sample_leader_log :: SharedState where
  "sample_leader_log = upd_vol (\<lambda>v. v\<lparr>replication_log := sample_kv_log\<rparr>) (sample_state 1)"

lemma sample_leader_log_simps:
  "raft_log sample_leader_log = sample_kv_log" "commit_index (vol sample_leader_log) = 0"
  "broadcast_inv sample_leader_log" "bus_live sample_leader_log" "broadcast_start_index sample_leader_log = 0"
  by (simp_all add: sample_leader_log_def sample_state_def create_shared_state_def empty_recovered_def broadcast_inv_def
      delivered_upto_def bus_live_def broadcast_start_index_def MAX_RETRIES_PER_ENTRY_def create_commit_state_def
      create_volatile_state_def sample_kv_log_def exI [of _ 0])

lemma sample_kv_log_ok: "log_ok sample_capnp sample_kv_log"
  by (simp add: log_ok_def sample_kv_log_def less_Suc_eq)

theorem commit_broadcasts_log_witness:
  "delivered (log_entry_bus (advance_commit 1 sample_leader_log)) = sample_kv_log"
  using commit_broadcasts_log [of sample_leader_log 1] sample_leader_log_simps
  by (simp add: sample_kv_log_def)


section \<open>A bus that stays full\<close>

lemma retry_entry_full:
  assumes "answers (log_entry_bus s) = (\<lambda>_. False)"
  shows "\<not> fst (retry_entry e r s)"
  using assms
proof (induction e r s rule: retry_entry.induct)
  case (1 e r s)
  show ?case
  proof (cases e s rule: try_broadcast_cases)
    case (accepted t)
    with 1(2) show ?thesis by simp
  next
    case (refused t)
    have "\<not> fst (retry_entry e (Suc r) (if Suc r mod YIELD_INTERVAL = 0 then bump_version t else t))"
      if "\<not> MAX_RETRIES_PER_ENTRY \<le> Suc r"
      using 1(1) [OF refused(1) [symmetric]] 1(2) refused that by simp
    with refused show ?thesis by (subst retry_entry.simps) simp
  qed
qed

text \<open>
  C36: A full bus loses the entry it refused. When the bus refuses every attempt,
  the broadcast records the first entry of the range as broadcast although nothing
  was delivered; the next broadcast starts after it, so that no reader ever
  receives this entry.
\<close>

theorem full_bus_skips_entry:
  assumes "answers (log_entry_bus s) = (\<lambda>_. False)" "broadcast_start_index s \<le> idx" "unat idx < length (raft_log s)"
    "s' = broadcast_committed_entries idx s"
  shows "delivered (log_entry_bus s') = delivered (log_entry_bus s) \<and>
    last_broadcast_index (vol s') = Some (broadcast_start_index s) \<and>
    broadcast_start_index s' = broadcast_start_index s + 1"
proof -
  let ?i = "unat (broadcast_start_index s)"
  have i: "?i \<le> unat idx" using assms(2) by (simp add: word_le_nat_alt)
  then have upt: "[?i ..< Suc (unat idx)] = ?i # [Suc ?i ..< Suc (unat idx)]" by (simp add: upt_conv_Cons)
  have len: "?i < length (raft_log s)" using i assms(3) by simp
  obtain t where t: "try_broadcast (raft_log s ! ?i) s = (False, t)" "core t = core s"
    "delivered (log_entry_bus t) = delivered (log_entry_bus s)" "answers (log_entry_bus t) = (\<lambda>_. False)"
    using assms(1) by (cases "raft_log s ! ?i" s rule: try_broadcast_cases) auto
  have log: "raft_log (bump_version t) = raft_log s" using core_eqD(1) [OF t(2)] by simp
  obtain ok u where u: "retry_entry (raft_log s ! ?i) 0 (bump_version t) = (ok, u)" by fastforce
  with retry_entry_full [of "bump_version t" "raft_log s ! ?i" 0] t(4) have "\<not> ok" by simp
  with u retry_entry_spec [OF u] t(3) have d: "delivered (log_entry_bus u) = delivered (log_entry_bus s)" by simp
  have "bus_full_loop (unat idx) ?i ?i (bump_version t) = (?i, u)"
    using i len log u \<open>\<not> ok\<close> by (subst bus_full_loop.simps) simp
  then have "broadcast_loop [?i ..< Suc (unat idx)] idx 0 s = (broadcast_start_index s, u)"
    using len t(1) by (simp add: upt broadcast_committed_entries_when_bus_full_def del: upt_Suc)
  then have "s' = bump_version (upd_vol (\<lambda>v. v\<lparr>last_broadcast_index := Some (broadcast_start_index s),
                                  has_deferred_broadcast := (broadcast_start_index s < idx)\<rparr>) u)"
    using assms(2,4) by (simp add: broadcast_committed_entries_def Let_def del: upt_Suc)
  with d show ?thesis by (simp add: broadcast_start_index_def)
qed

theorem full_bus_skips_entry_witness:
  "let s = sample_leader_log\<lparr>log_entry_bus := \<lparr> delivered = [], answers = (\<lambda>_. False), attempts = 0 \<rparr>\<rparr>;
       s' = broadcast_committed_entries 0 s in
   delivered (log_entry_bus s') = [] \<and> broadcast_start_index s' = 1"
  using full_bus_skips_entry [of "sample_leader_log\<lparr>log_entry_bus := \<lparr> delivered = [], answers = (\<lambda>_. False), attempts = 0 \<rparr>\<rparr>" 0, OF _ _ _ refl]
    sample_leader_log_simps
  by (simp add: broadcast_start_index_def Let_def sample_kv_log_def split: option.splits)

section \<open>The work of one broadcast\<close>

abbreviation bus_attempts :: "SharedState \<Rightarrow> nat" where
  "bus_attempts s \<equiv> attempts (log_entry_bus s)"

lemma bus_attempts_try [simp]: "bus_attempts (snd (try_broadcast e s)) = Suc (bus_attempts s)"
  by (simp add: try_broadcast_def Let_def)

lemma retry_entry_attempts:
  "r < MAX_RETRIES_PER_ENTRY \<Longrightarrow>
   bus_attempts (snd (retry_entry e r s)) \<le> bus_attempts s + (MAX_RETRIES_PER_ENTRY - r)"
proof (induction e r s rule: retry_entry.induct)
  case (1 e r s)
  obtain ok t where t: "try_broadcast e s = (ok, t)" by fastforce
  with bus_attempts_try [of e s] have a: "bus_attempts t = Suc (bus_attempts s)" by simp
  have "bus_attempts (snd (retry_entry e (Suc r) (if Suc r mod YIELD_INTERVAL = 0 then bump_version t else t)))
      \<le> Suc (bus_attempts s) + (MAX_RETRIES_PER_ENTRY - Suc r)" if "\<not> ok" "\<not> Suc r \<ge> MAX_RETRIES_PER_ENTRY"
    using 1(1) [OF t [symmetric] refl that] that a by (simp split: if_splits)
  with 1(2) t a show ?case by (subst retry_entry.simps) force
qed

lemma bus_full_loop_attempts:
  "bus_attempts (snd (bus_full_loop n st idx s)) \<le> bus_attempts s + MAX_RETRIES_PER_ENTRY * (Suc n - idx)"
proof (induction n st idx s rule: bus_full_loop.induct)
  case (1 n st idx s)
  show ?case
  proof (cases "idx \<le> n \<and> idx < length (raft_log s)")
    case True
    obtain ok t where t: "retry_entry (raft_log s ! idx) 0 s = (ok, t)" by fastforce
    with retry_entry_attempts [of 0 "raft_log s ! idx" s]
    have a: "bus_attempts t \<le> bus_attempts s + MAX_RETRIES_PER_ENTRY" by (simp add: MAX_RETRIES_PER_ENTRY_def)
    have n: "Suc n - idx = Suc (n - idx)" using True by (simp add: Suc_diff_le)
    have "bus_attempts (snd (bus_full_loop n st (Suc idx) t)) \<le> bus_attempts t + MAX_RETRIES_PER_ENTRY * (n - idx)" if ok
      using 1(1) [OF _ get_opt_Some t [symmetric, unfolded prod.sel]] True that by simp
    with True t a show ?thesis by (subst bus_full_loop.simps) (cases ok; simp add: n)
  next
    case False
    then show ?thesis by (subst bus_full_loop.simps) (auto simp: get_opt_def)
  qed
qed

lemma broadcast_loop_attempts:
  "bus_attempts (snd (broadcast_loop [i ..< Suc (unat nc)] nc lst s))
     \<le> Suc (bus_attempts s + MAX_RETRIES_PER_ENTRY * (Suc (unat nc) - i))"
proof (induction "Suc (unat nc) - i" arbitrary: i lst s)
  case (Suc k)
  have i: "i \<le> unat nc" "k = Suc (unat nc) - Suc i" using Suc.hyps(2) by linarith+
  then have upt: "[i ..< Suc (unat nc)] = i # [Suc i ..< Suc (unat nc)]" by (simp add: upt_conv_Cons)
  note IH = Suc.hyps(1) [OF i(2)]
  show ?case
  proof (cases "i < length (raft_log s)")
    case True
    obtain ok t where t: "try_broadcast (raft_log s ! i) s = (ok, t)" by fastforce
    with bus_attempts_try [of "raft_log s ! i" s] have a: "bus_attempts t = Suc (bus_attempts s)" by simp
    show ?thesis
      using True t a i IH [of "of_nat i" t] bus_full_loop_attempts [of "unat nc" i i "bump_version t"]
      by (cases ok) (simp_all add: upt broadcast_committed_entries_when_bus_full_def split_beta Suc_diff_le
          MAX_RETRIES_PER_ENTRY_def del: upt_Suc)
  next
    case False
    then show ?thesis
      using i IH [of lst s] by (simp add: upt get_opt_def Suc_diff_le del: upt_Suc)
  qed
qed simp


end
