(* ===== verification/Write_Path.thy ===== *)
theory Write_Path
  imports Write_Proxy Read_Path Node_Safety
begin

text \<open>
  The path of a client's write through the write proxy
  (\<open>prepare_batch_and_callbacks\<close>), the leader's log (\<open>write_batch\<close>) and the query
  worker's map (\<open>for_each_command\<close>).
\<close>

section \<open>Lemmas\<close>

lemma command_view_copies [simp]:
  "command_view (copy_command (copy_request r)) = command_view r"
  by (cases "put_id r")
     (simp_all add: command_view_def copy_command_def copy_request_def to_str_def unwrap_or_def utf8_valid.simps split: option.splits)

text \<open>The commands of a batch as the query worker sees them.\<close>

definition batch_commands :: "capnp \<Rightarrow> WriteBatch \<Rightarrow> (text_bytes \<times> u8 list \<times> u32) list" where
  "batch_commands cp b = map command_view (readable_requests cp (wb_message b))"

lemma leader_write_batch_appends:
  assumes "validate_write_batch cp b = None" "persistence_connected s" "leader_write_batch cp ev b cb s = Inr s'"
    "write_batch_with_message cp b iwb_requests = Some (Some rs)"
  obtains e i where "raft_log s' = raft_log s @ [e]"
    "build_owned_log_entry cp (new_log_entry ev (map copy_command rs) (next_log_index (vol s)) i s) = Inr e"
proof -
  let ?i = "next_message_id s" and ?idx = "next_log_index (vol s)"
  let ?s1 = "s\<lparr>next_message_id := ?i + 1\<rparr>"
  from assms(1,3) obtain e s2 q s3 where
    c: "create_and_append_log_entry cp ev b ?idx ?i ?s1 = Inr (e, s2)" and
    q: "queue_persistence_task ?i e s2 = (q, s3)" and
    s': "(if \<not> q then send_error_response cp ''Failed to queue persistence task'' cb s3
        else Inr (update_volatile_state ?idx (register_outstanding_message ?i ?idx (batch_len cp b) cb
                   (dispatch_to_quorum ?i e s3)))) = Inr s'"
    by (auto simp: leader_write_batch_def Let_def split: prod.splits)
  from c assms(4) have s2: "s2 = append_entry e ?s1"
    and e: "build_owned_log_entry cp (new_log_entry ev (map copy_command rs) ?idx ?i ?s1) = Inr e"
    by (auto simp: create_and_append_log_entry_def write_batch_with_message_def split: option.splits)
  have "q" using append_and_queue_logged(1) [of ?s1 ?i e q s3] q s2 assms(2) by simp
  with s' have "raft_log s' = raft_log s3" by auto
  also have "\<dots> = raft_log s @ [e]" using queue_frame [OF q] s2 by simp
  finally show thesis using that e by (simp add: new_log_entry_def)
qed

section \<open>Properties\<close>

text \<open>
  C14: A client's writes reach the readers unchanged and in order. When the write proxy
  combines the batches of several clients and the leader accepts the combined batch,
  the log grows by one entry, and applying this entry to the query worker's map puts
  exactly the keys and payloads of the clients' requests, batch after batch.
\<close>

theorem client_writes_replayed:
  assumes "capnp_law cp" "write_batch_law cp"
    and "prepare_batch_and_callbacks cp uuid batches = Inr (combined, cbs)"
    and "validate_write_batch cp combined = None" "persistence_connected s"
    and "leader_write_batch cp ev combined cb s = Inr s'"
  shows "\<exists>e. raft_log s' = raft_log s @ [e] \<and>
    apply_commands cp e = fold (\<lambda>(key, payload, _) m. m(key \<mapsto> payload)) (concat (map (batch_commands cp) batches))"
proof -
  let ?rs = "concat (map (\<lambda>b. readable_requests cp (wb_message b)) batches)"
  let ?m = "\<lparr> iwb_batch_id = Some uuid, iwb_requests = Some (map copy_request ?rs) \<rparr>"
  have built: "built_write_batch ?m"
    by (simp add: built_write_batch_def list_all_iff built_put_request_def copy_request_def)
  from assms(3) have b: "build_owned_write_batch cp ?m = Inr combined"
    by (auto simp: prepare_batch_and_callbacks_def Let_def)
  have "write_batch_with_message cp combined iwb_requests = Some (Some (map copy_request ?rs))"
    using build_owned_write_batchD [OF assms(2) built b, of iwb_requests] by simp
  then obtain e i where e: "raft_log s' = raft_log s @ [e]"
    "build_owned_log_entry cp (new_log_entry ev (map copy_command (map copy_request ?rs)) (next_log_index (vol s)) i s) = Inr e"
    by (rule leader_write_batch_appends [OF assms(4-6)])
  have "for_each_command cp e = Some (map command_view (map copy_command (map copy_request ?rs)))"
    by (simp add: for_each_command_def build_owned_log_entryD(3) [OF assms(1) built_new_log_entry [OF built_copy_commands] e(2)])
       (simp add: new_log_entry_def)
  also have "map command_view (map copy_command (map copy_request ?rs)) = concat (map (batch_commands cp) batches)"
    by (simp add: map_concat comp_def batch_commands_def [abs_def])
  finally show ?thesis using e(1) by (auto simp: apply_commands_def)
qed

lemma sample_batch_requests [simp]:
  "readable_requests sample_capnp (wb_message (sample_batch key payload cb)) =
     [\<lparr> put_id = Some key, put_payload = Some payload, put_node_id = 1 \<rparr>]"
  by (simp add: readable_requests_def sample_batch_message)

theorem client_writes_replayed_witness:
  "\<exists>combined cbs s' e.
     prepare_batch_and_callbacks sample_capnp [1] [sample_batch [97] [1, 2] 5, sample_batch [98] [3] 6] = Inr (combined, cbs) \<and>
     leader_write_batch sample_capnp sample_env combined 9 (sample_state 1) = Inr s' \<and>
     raft_log s' = [e] \<and> apply_commands sample_capnp e (\<lambda>_. None) = [[97] \<mapsto> [1, 2], [98] \<mapsto> [3]]"
proof -
  let ?bs = "[sample_batch [97] [1, 2] 5, sample_batch [98] [3] 6]"
  let ?m = "\<lparr> iwb_batch_id = Some [1], iwb_requests = Some (map copy_request
      (concat (map (\<lambda>b. readable_requests sample_capnp (wb_message b)) ?bs))) \<rparr>"
  have parse: "read_flat sample_capnp (frame body) \<noteq> None" for body
    by (simp add: sample_capnp_def read_frame_len_def frame_def)
  have wr: "write_write_batch sample_capnp m = frame (write_batch_body m)" for m
    by (simp add: sample_capnp_def)
  obtain combined where c: "build_owned_write_batch sample_capnp ?m = Inr combined"
    using parse [of "write_batch_body ?m"] by (auto simp: build_owned_write_batch_def write_batch_from_bytes_def wr)
  then have p: "prepare_batch_and_callbacks sample_capnp [1] ?bs = Inr (combined, [([97], 5), ([98], 6)])"
    by (simp add: prepare_batch_and_callbacks_def) (simp add: sample_batch_def)
  have built: "built_write_batch ?m" by (simp add: built_write_batch_def built_put_request_def copy_request_def)
  note msg = build_owned_write_batchD [OF sample_write_batch_law built c]
  have v: "validate_write_batch sample_capnp combined = None"
    by (simp add: validate_write_batch_def batch_is_empty_def msg)
  have build: "\<exists>e. build_owned_log_entry sample_capnp m = Inr e" for m
    using parse by (auto simp: build_owned_log_entry_def log_entry_from_bytes_def sample_capnp_def split: option.splits)
  have conn: "persistence_connected (sample_state 1)" "raft_log (sample_state 1) = []"
    by (simp_all add: sample_state_def create_shared_state_def create_volatile_state_def empty_recovered_def)
  obtain e0 where e0: "build_owned_log_entry sample_capnp
      (new_log_entry sample_env (map copy_command (map copy_request (concat (map (\<lambda>b. readable_requests sample_capnp (wb_message b)) ?bs))))
         (next_log_index (vol (sample_state 1))) (next_message_id (sample_state 1))
         ((sample_state 1)\<lparr>next_message_id := next_message_id (sample_state 1) + 1\<rparr>)) = Inr e0"
    using build by blast
  then obtain s' where s': "leader_write_batch sample_capnp sample_env combined 9 (sample_state 1) = Inr s'"
    using v conn(1)
    by (simp add: msg leader_write_batch_def Let_def create_and_append_log_entry_def queue_persistence_task_def persistence_send_def)
  from client_writes_replayed [OF sample_capnp_law sample_write_batch_law p v conn(1) s'] obtain e where
    "raft_log s' = [e]" "apply_commands sample_capnp e = fold (\<lambda>(key, payload, _) m. m(key \<mapsto> payload))
       (concat (map (batch_commands sample_capnp) ?bs))" using conn(2) by auto
  moreover have "fold (\<lambda>(key, payload, _) m. m(key \<mapsto> payload)) (concat (map (batch_commands sample_capnp) ?bs)) (\<lambda>_. None) =
      [[97] \<mapsto> [1, 2], [98] \<mapsto> [3]]"
    by (simp add: batch_commands_def command_view_def to_str_def utf8_valid.simps)
  ultimately show ?thesis using p s' by metis
qed

end
