(* ===== verification/Datastore.thy ===== *)
theory Datastore
  imports Frame_Codec Write_Path Step_System
begin

text \<open>
  The client connections, \<open>transport/datastore\<close>. For every frame the reader loop
  spawns a task that dispatches the request and sends one response message when the
  write proxy or the query worker has answered; a writer task writes the responses in
  the order in which they arrive. \<open>cn_inflight\<close> holds the tasks that await an answer,
  \<open>cn_responses\<close> the messages of the response channel. The Cap'n Proto messages of the
  client protocol are a parameter \<open>datastore_wire\<close>. Back-pressure and log lines are
  left out.
\<close>

section \<open>Messages\<close>

record datastore_wire =
  get_put_request :: "u8 list \<Rightarrow> InternalPutRequest option"
  get_get_request :: "u8 list \<Rightarrow> text_bytes option option"
  write_get_response :: "bool \<Rightarrow> text_bytes \<Rightarrow> u8 list \<Rightarrow> u8 list"

definition RPC_PUT_RECORD :: u8 where
  "RPC_PUT_RECORD = 1"

definition RPC_GET_RECORD :: u8 where
  "RPC_GET_RECORD = 2"

definition parse_put_request :: "capnp \<Rightarrow> datastore_wire \<Rightarrow> u8 list \<Rightarrow> (text_bytes \<times> u8 list) option" where
  "parse_put_request cp dw payload =
     Option.bind (read_flat cp payload) (\<lambda>_.
     Option.bind (get_put_request dw payload) (\<lambda>msg.
     Option.bind (Option.bind (put_id msg) to_str) (\<lambda>key.
     Option.bind (put_payload msg) (\<lambda>val. Some (key, val)))))"

definition parse_get_request :: "capnp \<Rightarrow> datastore_wire \<Rightarrow> u8 list \<Rightarrow> text_bytes option" where
  "parse_get_request cp dw payload =
     Option.bind (read_flat cp payload) (\<lambda>_.
     Option.bind (get_get_request dw payload) (\<lambda>key_text. Option.bind key_text to_str))"

definition build_put_response :: "WriteResponse \<Rightarrow> u8 list" where
  "build_put_response resp = response_bytes (wresp_message resp)"

definition build_error_put_response :: "capnp \<Rightarrow> string \<Rightarrow> u8 list result" where
  "build_error_put_response cp message =
     bind_res (build_owned_write_batch_response cp
         \<lparr> iwr_responses = Some [\<lparr> ipr_id = Some [], ipr_response_type = Some Invalid,
              ipr_message = Some (map of_char message), ipr_node_id = 0, ipr_batch_id = Some [] \<rparr>],
           iwr_batch_id = Some [] \<rparr>) (\<lambda>response. Inr (response_bytes response))"

definition build_get_response :: "datastore_wire \<Rightarrow> bool \<Rightarrow> text_bytes \<Rightarrow> u8 list \<Rightarrow> u8 list" where
  "build_get_response dw found key payload = write_get_response dw found key payload"

section \<open>A connection\<close>

record Queues =
  qs_task_queue :: "WriteBatch list"
  qs_query_queue :: "QueryRequest list"
  qs_commit_state :: CommitState

record ResponseMessage =
  rm_request_id :: u64
  rm_rpc_type :: u8
  rm_payload :: "u8 list"

datatype inflight = Inflight_Put u8 u64 | Inflight_Get u8 u64 text_bytes

record Connection =
  cn_queues :: Queues
  cn_inflight :: "(callback \<times> inflight) list"
  cn_next_callback :: callback
  cn_responses :: "ResponseMessage list"

definition respond :: "u8 \<Rightarrow> u64 \<Rightarrow> u8 list \<Rightarrow> Connection \<Rightarrow> Connection" where
  "respond rpc_type request_id payload c =
     c\<lparr>cn_responses := cn_responses c @ [\<lparr> rm_request_id = request_id, rm_rpc_type = rpc_type, rm_payload = payload \<rparr>]\<rparr>"

text \<open>The batch of one request that a put becomes.\<close>

definition put_batch_message :: "text_bytes \<Rightarrow> text_bytes \<Rightarrow> u8 list \<Rightarrow> InternalWriteBatch" where
  "put_batch_message batch_id key val =
     \<lparr> iwb_batch_id = Some batch_id,
       iwb_requests = Some [\<lparr> put_id = Some key, put_payload = Some val, put_node_id = 0 \<rparr>] \<rparr>"

text \<open>The two handlers up to the point where they await the answer.\<close>

definition handle_put_record ::
  "capnp \<Rightarrow> datastore_wire \<Rightarrow> text_bytes \<Rightarrow> u8 \<Rightarrow> u64 \<Rightarrow> u8 list \<Rightarrow> Connection \<Rightarrow> Connection result" where
  "handle_put_record cp dw uuid rpc_type request_id payload c =
     (case parse_put_request cp dw payload of
        None \<Rightarrow>
          bind_res (build_error_put_response cp ''parse error'') (\<lambda>resp. Inr (respond rpc_type request_id resp c))
      | Some (key, val) \<Rightarrow>
          bind_res (build_owned_write_batch cp (put_batch_message uuid key val)) (\<lambda>message.
            let cb = cn_next_callback c;
                batch = \<lparr> wb_batch_id = uuid, wb_message = message, wb_callback = cb \<rparr> in
            Inr (c\<lparr>cn_queues := (cn_queues c)\<lparr>qs_task_queue := qs_task_queue (cn_queues c) @ [batch]\<rparr>,
                   cn_inflight := cn_inflight c @ [(cb, Inflight_Put rpc_type request_id)],
                   cn_next_callback := Suc cb\<rparr>)))"

definition handle_get_record ::
  "capnp \<Rightarrow> datastore_wire \<Rightarrow> u8 \<Rightarrow> u64 \<Rightarrow> u8 list \<Rightarrow> Connection \<Rightarrow> Connection" where
  "handle_get_record cp dw rpc_type request_id payload c =
     (case parse_get_request cp dw payload of
        None \<Rightarrow> respond rpc_type request_id (build_get_response dw False [] []) c
      | Some key \<Rightarrow>
          (let cb = cn_next_callback c;
               query = \<lparr> qr_id = key, qr_index = cs_commit_index (qs_commit_state (cn_queues c)), qr_callback = cb \<rparr> in
           c\<lparr>cn_queues := (cn_queues c)\<lparr>qs_query_queue := qs_query_queue (cn_queues c) @ [query]\<rparr>,
             cn_inflight := cn_inflight c @ [(cb, Inflight_Get rpc_type request_id key)],
             cn_next_callback := Suc cb\<rparr>))"

definition dispatch_request ::
  "capnp \<Rightarrow> datastore_wire \<Rightarrow> text_bytes \<Rightarrow> u8 \<times> u64 \<times> u8 list \<Rightarrow> Connection \<Rightarrow> Connection result" where
  "dispatch_request cp dw uuid = (\<lambda>(rpc_type, request_id, payload) c.
     if rpc_type = RPC_PUT_RECORD then handle_put_record cp dw uuid rpc_type request_id payload c
     else if rpc_type = RPC_GET_RECORD then Inr (handle_get_record cp dw rpc_type request_id payload c)
     else Inr (respond rpc_type request_id [] c))"

text \<open>The rest of the handlers, when the answer arrives; \<^const>\<open>None\<close> is a dropped sender.\<close>

fun take_inflight :: "callback \<Rightarrow> (callback \<times> inflight) list \<Rightarrow> (inflight \<times> (callback \<times> inflight) list) option" where
  "take_inflight cb [] = None"
| "take_inflight cb ((c, i) # is) =
     (if c = cb then Some (i, is) else map_option (\<lambda>(j, js). (j, (c, i) # js)) (take_inflight cb is))"

definition put_answered :: "capnp \<Rightarrow> WriteResponse option \<Rightarrow> u8 list result" where
  "put_answered cp resp =
     (case resp of Some r \<Rightarrow> Inr (build_put_response r) | None \<Rightarrow> build_error_put_response cp ''internal error'')"

definition get_answered :: "datastore_wire \<Rightarrow> text_bytes \<Rightarrow> u8 list option option \<Rightarrow> u8 list" where
  "get_answered dw key resp =
     (case resp of
        Some (Some val) \<Rightarrow> build_get_response dw True key val
      | Some None \<Rightarrow> build_get_response dw False key []
      | None \<Rightarrow> build_get_response dw False key [])"

datatype conn_event =
    Frame_Read text_bytes "u8 \<times> u64 \<times> u8 list"
  | Write_Answer callback "WriteResponse option"
  | Query_Answer callback "u8 list option option"

fun conn_step :: "capnp \<Rightarrow> datastore_wire \<Rightarrow> conn_event \<Rightarrow> Connection \<Rightarrow> Connection result" where
  "conn_step cp dw (Frame_Read uuid f) c = dispatch_request cp dw uuid f c"
| "conn_step cp dw (Write_Answer cb resp) c =
     (case take_inflight cb (cn_inflight c) of
        Some (Inflight_Put rpc_type request_id, rest) \<Rightarrow>
          bind_res (put_answered cp resp) (\<lambda>p. Inr (respond rpc_type request_id p (c\<lparr>cn_inflight := rest\<rparr>)))
      | _ \<Rightarrow> Inr c)"
| "conn_step cp dw (Query_Answer cb resp) c =
     (case take_inflight cb (cn_inflight c) of
        Some (Inflight_Get rpc_type request_id key, rest) \<Rightarrow>
          Inr (respond rpc_type request_id (get_answered dw key resp) (c\<lparr>cn_inflight := rest\<rparr>))
      | _ \<Rightarrow> Inr c)"

text \<open>The writer task: the bytes it has written when the channel is closed or a write fails.\<close>

fun write_responses :: "ResponseMessage list \<Rightarrow> u8 list" where
  "write_responses [] = []"
| "write_responses (msg # msgs) =
     (case write_frame (rm_rpc_type msg) (rm_request_id msg) (rm_payload msg) of
        Inl e \<Rightarrow> []
      | Inr buf \<Rightarrow> buf @ write_responses msgs)"

section \<open>Lemmas\<close>

fun inflight_request :: "inflight \<Rightarrow> u8 \<times> u64" where
  "inflight_request (Inflight_Put t i) = (t, i)"
| "inflight_request (Inflight_Get t i _) = (t, i)"

fun event_requests :: "conn_event \<Rightarrow> (u8 \<times> u64) list" where
  "event_requests (Frame_Read _ (t, i, _)) = [(t, i)]"
| "event_requests _ = []"

text \<open>The requests of a connection that are answered or still being worked on.\<close>

definition accepted_requests :: "Connection \<Rightarrow> (u8 \<times> u64) multiset" where
  "accepted_requests c =
     mset (map (\<lambda>m. (rm_rpc_type m, rm_request_id m)) (cn_responses c)) +
     mset (map (\<lambda>(_, i). inflight_request i) (cn_inflight c))"

lemma accepted_respond [simp]:
  "accepted_requests (respond t i p c) = add_mset (t, i) (accepted_requests c)"
  by (simp add: accepted_requests_def respond_def)

lemma accepted_inflight:
  "accepted_requests (c\<lparr>cn_inflight := is\<rparr>) + mset (map (\<lambda>(_, i). inflight_request i) (cn_inflight c)) =
   accepted_requests c + mset (map (\<lambda>(_, i). inflight_request i) is)"
  by (simp add: accepted_requests_def ac_simps)

lemma take_inflight_mset:
  "take_inflight cb is = Some (i, rest) \<Longrightarrow>
   mset (map (\<lambda>(_, i). inflight_request i) is) = add_mset (inflight_request i) (mset (map (\<lambda>(_, i). inflight_request i) rest))"
  by (induction "is" arbitrary: rest) (auto split: if_splits)

lemma take_inflight_accepted:
  assumes "take_inflight cb (cn_inflight c) = Some (i, rest)"
  shows "add_mset (inflight_request i) (accepted_requests (c\<lparr>cn_inflight := rest\<rparr>)) = accepted_requests c"
  using take_inflight_mset [OF assms] by (simp add: accepted_requests_def)

lemma dispatch_accepted:
  assumes "dispatch_request cp dw uuid (t, i, p) c = Inr c'"
  shows "accepted_requests c' = add_mset (t, i) (accepted_requests c)"
proof -
  have new: "accepted_requests (c\<lparr>cn_queues := q, cn_inflight := cn_inflight c @ [(cb, j)], cn_next_callback := n\<rparr>) =
      add_mset (inflight_request j) (accepted_requests c)" for q cb j n
    by (simp add: accepted_requests_def)
  show ?thesis
    using assms
    by (auto simp: dispatch_request_def handle_put_record_def handle_get_record_def Let_def new
        split: if_splits option.splits prod.splits)
qed

lemma conn_step_accepted:
  "conn_step cp dw ev c = Inr c' \<Longrightarrow> accepted_requests c' = accepted_requests c + mset (event_requests ev)"
proof (cases ev)
  case (Frame_Read uuid f)
  then show "conn_step cp dw ev c = Inr c' \<Longrightarrow> ?thesis" by (cases f) (auto dest: dispatch_accepted)
qed (auto split: option.splits inflight.splits dest!: take_inflight_accepted)

lemma write_responses_frames:
  "write_responses ms =
     concat (map (\<lambda>(t, i, p). encode_frame t i p)
       (map (\<lambda>m. (rm_rpc_type m, rm_request_id m, rm_payload m))
         (takeWhile (\<lambda>m. 9 + length (rm_payload m) \<le> unat MAX_FRAME_SIZE) ms)))"
proof (induction ms)
  case (Cons m ms)
  show ?case
  proof (cases "write_frame (rm_rpc_type m) (rm_request_id m) (rm_payload m)")
    case (Inl e)
    then show ?thesis by (auto simp: write_frame_def Let_def split: if_splits)
  next
    case (Inr buf)
    with Cons write_frame_Inr [of "rm_rpc_type m" "rm_request_id m" "rm_payload m" buf] show ?thesis by simp
  qed
qed simp

text \<open>A connection keeps a ledger of its requests.\<close>

interpretation requests: step_ledger "conn_step cp dw" accepted_requests event_requests
  by unfold_locales (rule conn_step_accepted)

text \<open>
  The responses are read back as they were sent, up to the first one that is too large
  for a frame; nothing follows that one.
\<close>

lemma read_write_responses:
  "read_frames (write_responses ms) =
     (map (\<lambda>m. (rm_rpc_type m, rm_request_id m, rm_payload m))
        (takeWhile (\<lambda>m. 9 + length (rm_payload m) \<le> unat MAX_FRAME_SIZE) ms),
      UnexpectedEof)"
proof -
  have "list_all (\<lambda>(t, i, p). 9 + length p \<le> unat MAX_FRAME_SIZE)
      (map (\<lambda>m. (rm_rpc_type m, rm_request_id m, rm_payload m))
         (takeWhile (\<lambda>m. 9 + length (rm_payload m) \<le> unat MAX_FRAME_SIZE) ms))"
    by (auto simp: list_all_iff dest: set_takeWhileD)
  from frames.read_all_written [OF this] show ?thesis by (simp only: write_responses_frames)
qed

section \<open>Properties\<close>

text \<open>
  C23: Every request of a connection is answered at most once, under its own id and
  type, and none is forgotten: after any sequence of frames and answers, in any order,
  the responses sent and the requests still awaiting an answer are together exactly
  the frames that were read.
\<close>

theorem requests_answered_once:
  assumes "fold_res (conn_step cp dw) evs c = Inr c'"
  shows "accepted_requests c' = accepted_requests c + mset (concat (map event_requests evs))"
  by (rule requests.run_ledger [OF assms])


text \<open>A concrete client protocol: a request is the framed key, a put has an empty payload.\<close>

definition sample_datastore_wire :: datastore_wire where
  "sample_datastore_wire =
     \<lparr> get_put_request = (\<lambda>bs. Some \<lparr> put_id = Some (frame_body bs), put_payload = Some [], put_node_id = 0 \<rparr>),
       get_get_request = (\<lambda>bs. Some (Some (frame_body bs))),
       write_get_response = (\<lambda>found key val. (if found then 1 else 0) # enc_bytes key @ enc_bytes val) \<rparr>"

definition sample_connection :: "CommitState \<Rightarrow> Connection" where
  "sample_connection cs =
     \<lparr> cn_queues = \<lparr> qs_task_queue = [], qs_query_queue = [], qs_commit_state = cs \<rparr>,
       cn_inflight = [], cn_next_callback = 5, cn_responses = [] \<rparr>"

lemma sample_parse_get: "utf8_valid key \<Longrightarrow> parse_get_request sample_capnp sample_datastore_wire (frame key) = Some key"
  by (simp add: parse_get_request_def sample_datastore_wire_def to_str_def frame_body_def)
     (simp add: sample_capnp_def read_frame_len_def frame_def)

theorem requests_answered_once_witness:
  "\<exists>c'. fold_res (conn_step sample_capnp sample_datastore_wire)
      [Frame_Read [] (2, 7, frame [107]), Frame_Read [] (9, 8, []), Query_Answer 5 (Some (Some [1]))]
      (sample_connection create_commit_state) = Inr c' \<and>
     accepted_requests c' = {#(2, 7), (9, 8)#} \<and> cn_inflight c' = []"
proof -
  let ?evs = "[Frame_Read [] (2, 7, frame [107]), Frame_Read [] (9, 8, []), Query_Answer 5 (Some (Some [1]))]"
  obtain c' where c': "fold_res (conn_step sample_capnp sample_datastore_wire) ?evs (sample_connection create_commit_state) = Inr c'"
    "cn_inflight c' = []"
    by (simp add: dispatch_request_def RPC_PUT_RECORD_def RPC_GET_RECORD_def handle_get_record_def sample_parse_get
        utf8_valid.simps Let_def respond_def sample_connection_def)
  from requests_answered_once [OF c'(1)] c' show ?thesis
    by (simp add: accepted_requests_def sample_connection_def)
qed


end
