(* ===== verification/Tcp_Client.thy ===== *)
theory Tcp_Client
  imports Datastore
begin

text \<open>
  The connection of the datastore's TCP client, \<open>tcp_client.rs\<close>: request ids, the map of
  pending requests, the reader that matches responses to requests, and the two round-robin
  pools. The load tests around it and the metrics, which compute with floating-point
  numbers, are not modelled. A callback is the oneshot channel of a request.
\<close>

section \<open>A connection\<close>

record TcpConnection =
  tc_writer :: "u8 list"
  tc_pending :: "u64 \<rightharpoonup> callback"
  tc_next_request_id :: u64
  tc_delivered :: "(callback \<times> u8 list) list"

definition new_tcp_connection :: TcpConnection where
  "new_tcp_connection = \<lparr> tc_writer = [], tc_pending = (\<lambda>_. None), tc_next_request_id = 1, tc_delivered = [] \<rparr>"

text \<open>
  One response that has been read; a response without a pending request is dropped.
\<close>

definition handle_response :: "u8 \<times> u64 \<times> u8 list \<Rightarrow> TcpConnection \<Rightarrow> TcpConnection" where
  "handle_response = (\<lambda>(rpc_type, request_id, payload) c.
     (case tc_pending c request_id of
        Some tx \<Rightarrow> c\<lparr>tc_pending := (tc_pending c)(request_id := None), tc_delivered := tc_delivered c @ [(tx, payload)]\<rparr>
      | None \<Rightarrow> c))"

definition reader_loop :: "u8 list \<Rightarrow> TcpConnection \<Rightarrow> TcpConnection" where
  "reader_loop reader c = fold handle_response (fst (read_frames reader)) c"

text \<open>
  \<open>write_ok\<close> says whether the socket accepts the frame; if not, \<open>k\<close> bytes of it may
  have been written.
\<close>

datatype send_error = Frame_Error io_error | Write_Failed

definition send_request ::
  "nat option \<Rightarrow> u8 \<Rightarrow> u8 list \<Rightarrow> callback \<Rightarrow> TcpConnection \<Rightarrow> (send_error + callback) \<times> TcpConnection" where
  "send_request fails rpc_type payload tx c =
     (let request_id = tc_next_request_id c;
          c1 = c\<lparr>tc_next_request_id := request_id + 1, tc_pending := (tc_pending c)(request_id \<mapsto> tx)\<rparr> in
      case write_frame rpc_type request_id payload of
        Inl e \<Rightarrow> (Inl (Frame_Error e), c1\<lparr>tc_pending := (tc_pending c1)(request_id := None)\<rparr>)
      | Inr buf \<Rightarrow>
          (case fails of
             None \<Rightarrow> (Inr tx, c1\<lparr>tc_writer := tc_writer c1 @ buf\<rparr>)
           | Some k \<Rightarrow> (Inl Write_Failed, c1\<lparr>tc_writer := tc_writer c1 @ take k buf,
                                            tc_pending := (tc_pending c1)(request_id := None)\<rparr>)))"

section \<open>Request messages\<close>

text \<open>The generated builders, and what they promise the generated readers.\<close>

record client_wire =
  write_put_request :: "InternalPutRequest \<Rightarrow> u8 list"
  write_get_request :: "text_bytes \<Rightarrow> u8 list"

definition build_put_request :: "client_wire \<Rightarrow> text_bytes \<Rightarrow> u8 list \<Rightarrow> u8 list" where
  "build_put_request cw key val =
     write_put_request cw \<lparr> put_id = Some key, put_payload = Some val, put_node_id = 0 \<rparr>"

definition build_get_request :: "client_wire \<Rightarrow> text_bytes \<Rightarrow> u8 list" where
  "build_get_request cw key = write_get_request cw key"

definition client_law :: "datastore_wire \<Rightarrow> client_wire \<Rightarrow> bool" where
  "client_law dw cw \<longleftrightarrow>
     (\<forall>r. put_id r \<noteq> None \<longrightarrow> put_payload r \<noteq> None \<longrightarrow> get_put_request dw (write_put_request cw r) = Some r) \<and>
     (\<forall>key. get_get_request dw (write_get_request cw key) = Some (Some key))"

text \<open>A Rust string is valid UTF-8, so the server reads the key and the value that were sent.\<close>

lemma client_requests_parsed:
  assumes "client_law dw cw" "utf8_valid key"
  shows "read_flat cp (build_put_request cw key val) \<noteq> None \<Longrightarrow>
      parse_put_request cp dw (build_put_request cw key val) = Some (key, val)"
    "read_flat cp (build_get_request cw key) \<noteq> None \<Longrightarrow> parse_get_request cp dw (build_get_request cw key) = Some key"
  using assms
  by (auto simp: client_law_def build_put_request_def build_get_request_def parse_put_request_def parse_get_request_def to_str_def)

section \<open>The pools\<close>

text \<open>The connections are shared, so a pool holds handles to them.\<close>

type_synonym connection_handle = nat

record EndpointPool =
  ep_connections :: "connection_handle list"
  ep_next_conn :: u64

definition endpoint_get_connection :: "EndpointPool \<Rightarrow> (connection_handle \<times> EndpointPool) result" where
  "endpoint_get_connection p =
     (if ep_connections p = [] then Inl DivisionByZero
      else Inr (ep_connections p ! (unat (ep_next_conn p) mod length (ep_connections p)),
                p\<lparr>ep_next_conn := ep_next_conn p + 1\<rparr>))"

record TcpConnectionPool =
  tp_pools :: "EndpointPool list"
  tp_next_pool :: u64

definition pool_get_connection :: "TcpConnectionPool \<Rightarrow> (connection_handle \<times> TcpConnectionPool) result" where
  "pool_get_connection p =
     (if tp_pools p = [] then Inl DivisionByZero
      else
        let pool_idx = unat (tp_next_pool p) mod length (tp_pools p) in
        bind_res (endpoint_get_connection (tp_pools p ! pool_idx)) (\<lambda>(c, ep).
          Inr (c, p\<lparr>tp_next_pool := tp_next_pool p + 1, tp_pools := (tp_pools p)[pool_idx := ep]\<rparr>)))"

definition total_connections :: "TcpConnectionPool \<Rightarrow> nat" where
  "total_connections p = sum_list (map (\<lambda>ep. length (ep_connections ep)) (tp_pools p))"

section \<open>Sending\<close>

text \<open>The requests of a client, sent one after the other on a working socket.\<close>

definition send_all :: "(u8 \<times> u8 list \<times> callback) list \<Rightarrow> TcpConnection \<Rightarrow> TcpConnection" where
  "send_all qs c = fold (\<lambda>(t, p, tx) c. snd (send_request None t p tx c)) qs c"

text \<open>The frame of the \<open>i\<close>-th request that follows request id \<open>n\<close>.\<close>

fun frames_from :: "u64 \<Rightarrow> (u8 \<times> u8 list \<times> callback) list \<Rightarrow> (u8 \<times> u64 \<times> u8 list) list" where
  "frames_from n [] = []"
| "frames_from n ((t, p, tx) # qs) = (t, n, p) # frames_from (n + 1) qs"

abbreviation fits :: "u8 list \<Rightarrow> bool" where
  "fits p \<equiv> 9 + length p \<le> unat MAX_FRAME_SIZE"

lemma write_frame_fits: "fits p \<Longrightarrow> write_frame t i p = Inr (encode_frame t i p)"
  by (simp add: write_frame_Inr)

lemma send_request_ok:
  "fits p \<Longrightarrow> snd (send_request None t p tx c) =
     c\<lparr>tc_next_request_id := tc_next_request_id c + 1, tc_pending := (tc_pending c)(tc_next_request_id c \<mapsto> tx),
       tc_writer := tc_writer c @ encode_frame t (tc_next_request_id c) p\<rparr>"
  by (simp add: send_request_def Let_def write_frame_fits)

text \<open>A request that cannot be sent leaves no pending entry behind.\<close>

lemma send_request_error:
  assumes "send_request fails t p tx c = (Inl e, c')" "tc_pending c (tc_next_request_id c) = None"
  shows "tc_pending c' = tc_pending c"
  using assms by (auto simp: send_request_def Let_def split: sum.splits option.splits)

lemma send_all_Cons [simp]: "send_all ((t, p, tx) # qs) c = send_all qs (snd (send_request None t p tx c))"
  by (simp add: send_all_def)

lemma send_all_writer:
  "list_all (\<lambda>(t, p, tx). fits p) qs \<Longrightarrow>
   tc_writer (send_all qs c) =
     tc_writer c @ concat (map (\<lambda>(t, i, p). encode_frame t i p) (frames_from (tc_next_request_id c) qs)) \<and>
   tc_delivered (send_all qs c) = tc_delivered c"
proof (induction qs arbitrary: c)
  case (Cons q qs)
  obtain t p tx where "q = (t, p, tx)" by (cases q)
  with Cons show ?case by (simp add: send_request_ok)
qed (simp add: send_all_def)

lemma frames_from_fits:
  "list_all (\<lambda>(t, p, tx). fits p) qs \<Longrightarrow> list_all (\<lambda>(t, i, p). fits p) (frames_from n qs)"
  by (induction n qs rule: frames_from.induct) auto

lemma frames_from_nth:
  "i < length qs \<Longrightarrow> frames_from n qs ! i = (fst (qs ! i), n + of_nat i, fst (snd (qs ! i)))"
proof (induction n qs arbitrary: i rule: frames_from.induct)
  case (2 n t p tx qs)
  then show ?case by (cases i) (simp_all add: algebra_simps)
qed simp

lemma length_frames_from [simp]: "length (frames_from n qs) = length qs"
  by (induction n qs rule: frames_from.induct) simp_all

lemma of_nat_Suc_u64: "Suc i < 2 ^ 64 \<Longrightarrow> unat (of_nat (Suc i) :: u64) = Suc i"
  by (subst unat_of_nat) simp

lemma send_all_pending:
  assumes "list_all (\<lambda>(t, p, tx). fits p) qs" "unat (tc_next_request_id c) + length qs < 2 ^ 64"
  shows "tc_pending (send_all qs c) i =
    (if tc_next_request_id c \<le> i \<and> unat i < unat (tc_next_request_id c) + length qs
     then Some (snd (snd (qs ! (unat i - unat (tc_next_request_id c))))) else tc_pending c i)"
  using assms
proof (induction qs arbitrary: c)
  case (Cons q qs)
  obtain t p tx where q: "q = (t, p, tx)" by (cases q)
  let ?n = "tc_next_request_id c"
  have n: "unat (?n + 1) = Suc (unat ?n)"
    using Cons.prems(2) by (subst unat_word_ariths) simp
  show ?case
    using Cons.IH [of "snd (send_request None t p tx c)"] Cons.prems n
    by (auto simp: q send_request_ok word_le_nat_alt nth_Cons' word_unat_eq_iff Suc_diff_Suc not_less less_eq_Suc_le)
qed (auto simp: send_all_def word_le_nat_alt)

text \<open>What a new connection has sent and awaits.\<close>

lemma sent_frames:
  assumes "list_all (\<lambda>(t, p, tx). fits p) qs"
  shows "read_frames (tc_writer (send_all qs new_tcp_connection)) = (frames_from 1 qs, UnexpectedEof)"
  using send_all_writer [OF assms, of new_tcp_connection] frames.read_all_written [OF frames_from_fits [OF assms, of 1]]
  by (simp add: new_tcp_connection_def)

lemma sent_delivered:
  "list_all (\<lambda>(t, p, tx). fits p) qs \<Longrightarrow> tc_delivered (send_all qs new_tcp_connection) = []"
  using send_all_writer [of qs new_tcp_connection] by (simp add: new_tcp_connection_def)

lemma sent_pending:
  assumes "list_all (\<lambda>(t, p, tx). fits p) qs" "length qs < 2 ^ 64 - 1"
  shows "tc_pending (send_all qs new_tcp_connection) i =
    (if 1 \<le> unat i \<and> unat i \<le> length qs then Some (snd (snd (qs ! (unat i - 1)))) else None)"
  using send_all_pending [OF assms(1), of new_tcp_connection i] assms(2)
  by (auto simp: new_tcp_connection_def word_le_nat_alt)

section \<open>Reading\<close>

abbreviation frame_id :: "u8 \<times> u64 \<times> u8 list \<Rightarrow> u64" where
  "frame_id f \<equiv> fst (snd f)"

abbreviation frame_payload :: "u8 \<times> u64 \<times> u8 list \<Rightarrow> u8 list" where
  "frame_payload f \<equiv> snd (snd f)"

lemma reader_responses:
  assumes "distinct (map frame_id fs)" "set (map frame_id fs) \<subseteq> dom (tc_pending c)"
  shows "fold handle_response fs c =
    c\<lparr>tc_pending := tc_pending c |` (- set (map frame_id fs)),
      tc_delivered := tc_delivered c @ map (\<lambda>f. (the (tc_pending c (frame_id f)), frame_payload f)) fs\<rparr>"
  using assms
proof (induction fs arbitrary: c)
  case (Cons f fs)
  obtain t i p where f: "f = (t, i, p)" by (cases f)
  from Cons.prems have i: "i \<notin> set (map frame_id fs)" "distinct (map frame_id fs)" "set (map frame_id fs) \<subseteq> dom (tc_pending c)"
    and "i \<in> dom (tc_pending c)"
    by (simp_all add: f)
  then obtain tx where tx: "tc_pending c i = Some tx" by blast
  let ?c = "c\<lparr>tc_pending := (tc_pending c)(i := None), tc_delivered := tc_delivered c @ [(tx, p)]\<rparr>"
  have step: "handle_response f c = ?c" by (simp add: f handle_response_def tx)
  have eq: "map (\<lambda>f. (the (tc_pending ?c (frame_id f)), frame_payload f)) fs =
      map (\<lambda>f. (the (tc_pending c (frame_id f)), frame_payload f)) fs"
    by (rule map_cong) (use i(1) in force)+
  have res: "tc_pending ?c |` (- set (map frame_id fs)) = tc_pending c |` (- set (map frame_id (f # fs)))"
    by (rule ext) (simp add: f restrict_map_def)
  have "set (map frame_id fs) \<subseteq> dom (tc_pending ?c)" using i(1,3) by force
  note IH = Cons.IH [OF i(2) this, unfolded eq res]
  show ?case unfolding fold_simps step IH by (simp add: f tx)
qed (simp add: restrict_map_def)

lemma distinct_mset_subset:
  assumes "mset xs \<subseteq># mset ys" "distinct ys"
  shows "distinct xs"
proof -
  from assms(1) obtain Z where Z: "mset ys = mset xs + Z" by (auto simp: mset_subset_eq_exists_conv)
  obtain zs where zs: "mset zs = Z" using ex_mset by blast
  have "distinct (xs @ zs)"
    using mset_eq_imp_distinct_iff [of ys "xs @ zs"] assms(2) Z zs by simp
  then show ?thesis by simp
qed

text \<open>The responses that the server sends are for requests of this client, each at most once.\<close>

lemma responses_are_requested:
  assumes "fold_res (conn_step cp dw) evs k = Inr k'" "accepted_requests k = {#}"
    and "concat (map event_requests evs) = map (\<lambda>(t, i, p). (t, i)) (frames_from 1 qs)" "length qs < 2 ^ 64 - 1"
  shows "distinct (map rm_request_id (cn_responses k'))"
    "r \<in> set (cn_responses k') \<Longrightarrow> 1 \<le> unat (rm_request_id r) \<and> unat (rm_request_id r) \<le> length qs \<and>
       rm_rpc_type r = fst (qs ! (unat (rm_request_id r) - 1))"
proof -
  let ?ids = "map (\<lambda>(t, i, p). (t, i)) (frames_from 1 qs)"
  have nth: "?ids ! j = (fst (qs ! j), of_nat (Suc j))" if "j < length qs" for j
    using that by (simp add: frames_from_nth)
  have no: "unat (of_nat (Suc j) :: u64) = Suc j" if "j < length qs" for j
    by (rule of_nat_Suc_u64) (use that assms(4) in linarith)
  have "map snd ?ids = map (\<lambda>j. of_nat (Suc j)) [0 ..< length qs]"
    by (rule nth_equalityI) (simp_all add: frames_from_nth)
  moreover have "inj_on (\<lambda>j. of_nat (Suc j) :: u64) {0 ..< length qs}"
    by (rule inj_on_inverseI [of _ "\<lambda>w. unat w - 1"]) (simp only: no atLeastLessThan_iff diff_Suc_1)
  ultimately have dist: "distinct (map snd ?ids)" by (simp only: distinct_map set_upt distinct_upt simp_thms)
  have eq: "mset ?ids = mset (map (\<lambda>m. (rm_rpc_type m, rm_request_id m)) (cn_responses k')) +
      mset (map (\<lambda>(_, i). inflight_request i) (cn_inflight k'))"
    using requests.run_ledger [OF assms(1)] unfolding assms(2,3) accepted_requests_def [of k'] by simp
  have sub: "mset (map (\<lambda>m. (rm_rpc_type m, rm_request_id m)) (cn_responses k')) \<subseteq># mset ?ids"
    unfolding eq by (rule mset_subset_eq_add_left)
  have "mset (map rm_request_id (cn_responses k')) \<subseteq># mset (map snd ?ids)"
    using image_mset_subseteq_mono [OF sub, of snd] by (simp only: mset_map [symmetric] map_map comp_def snd_conv)
  then show "distinct (map rm_request_id (cn_responses k'))"
    by (rule distinct_mset_subset [OF _ dist])
  have "set (map (\<lambda>m. (rm_rpc_type m, rm_request_id m)) (cn_responses k')) \<subseteq> set ?ids"
    using set_mset_mono [OF sub] by (simp only: set_mset_mset)
  then have mem: "(rm_rpc_type r, rm_request_id r) \<in> set ?ids" if "r \<in> set (cn_responses k')"
    using that by (simp only: set_map) blast
  show "1 \<le> unat (rm_request_id r) \<and> unat (rm_request_id r) \<le> length qs \<and>
       rm_rpc_type r = fst (qs ! (unat (rm_request_id r) - 1))" if "r \<in> set (cn_responses k')"
  proof -
    from mem [OF that, unfolded in_set_conv_nth length_map length_frames_from]
    obtain j where j: "j < length qs" "?ids ! j = (rm_rpc_type r, rm_request_id r)" by blast
    with nth [OF j(1)] have "rm_rpc_type r = fst (qs ! j)" "rm_request_id r = of_nat (Suc j)" by (simp_all only: prod.inject)
    with no [OF j(1)] have "rm_rpc_type r = fst (qs ! j)" "unat (rm_request_id r) = Suc j" by (simp_all only:)
    with j(1) show ?thesis by simp
  qed
qed

section \<open>Properties\<close>



end
