(* ===== verification/Std_Text.thy ===== *)
theory Std_Text
  imports Kraft_Prelude
begin

text \<open>
  What the program uses of the text functions of the standard library: decimal numerals of
  \<open>format!\<close>, and \<open>str::parse\<close> for \<open>SocketAddr\<close>, which reads an IPv4 address with a port or a
  bracketed IPv6 address with an optional scope and a port. A reader takes the text and gives
  a value and the rest, or fails without consuming anything.
\<close>

section \<open>Decimal numerals\<close>

fun show_nat :: "nat \<Rightarrow> string" where
  "show_nat n = (if n < 10 then [] else show_nat (n div 10)) @ [char_of (48 + n mod 10)]"

declare show_nat.simps [simp del]

section \<open>Readers\<close>

type_synonym 'a reader = "string \<Rightarrow> ('a \<times> string) option"

text \<open>\<open>char::to_digit\<close> for the radix 10 or 16.\<close>

definition to_digit :: "nat \<Rightarrow> char \<Rightarrow> nat option" where
  "to_digit radix c =
     (let n = of_char c :: nat;
          d = (if 48 \<le> n \<and> n \<le> 57 then n - 48
               else if 97 \<le> n \<and> n \<le> 122 then n - 87
               else if 65 \<le> n \<and> n \<le> 90 then n - 55 else radix) in
      if d < radix then Some d else None)"

fun read_digits :: "nat \<Rightarrow> string \<Rightarrow> nat list \<times> string" where
  "read_digits radix [] = ([], [])"
| "read_digits radix (c # cs) =
     (case to_digit radix c of
        None \<Rightarrow> ([], c # cs)
      | Some d \<Rightarrow> (let (ds, rest) = read_digits radix cs in (d # ds, rest)))"

definition digits_value :: "nat \<Rightarrow> nat list \<Rightarrow> nat" where
  "digits_value radix ds = foldl (\<lambda>n d. n * radix + d) 0 ds"

text \<open>\<open>read_number\<close> with the largest value of its type.\<close>

definition read_number :: "nat \<Rightarrow> nat option \<Rightarrow> bool \<Rightarrow> nat \<Rightarrow> nat reader" where
  "read_number radix max_digits allow_zero_prefix bound s =
     (let (ds, rest) = read_digits radix s in
      if ds = [] \<or> (case max_digits of None \<Rightarrow> False | Some m \<Rightarrow> m < length ds) then None
      else if \<not> allow_zero_prefix \<and> hd s = CHR ''0'' \<and> 1 < length ds then None
      else if digits_value radix ds \<le> bound then Some (digits_value radix ds, rest) else None)"

definition read_given_char :: "char \<Rightarrow> string \<Rightarrow> string option" where
  "read_given_char target s = (case s of c # cs \<Rightarrow> if c = target then Some cs else None | [] \<Rightarrow> None)"

definition read_separator :: "char \<Rightarrow> nat \<Rightarrow> 'a reader \<Rightarrow> 'a reader" where
  "read_separator sep i inner s =
     (if i > 0 then Option.bind (read_given_char sep s) inner else inner s)"

definition read_octet :: "nat \<Rightarrow> nat reader" where
  "read_octet i = read_separator CHR ''.'' i (read_number 10 (Some 3) False 255)"

definition read_ipv4_addr :: "nat list reader" where
  "read_ipv4_addr s =
     Option.bind (read_octet 0 s) (\<lambda>(a, s1).
     Option.bind (read_octet 1 s1) (\<lambda>(b, s2).
     Option.bind (read_octet 2 s2) (\<lambda>(c, s3).
     map_option (\<lambda>(d, s4). ([a, b, c, d], s4)) (read_octet 3 s3))))"

text \<open>The groups of an IPv6 address from index \<open>i\<close>, and whether they end in an embedded IPv4 address.\<close>

function read_groups :: "nat \<Rightarrow> nat \<Rightarrow> string \<Rightarrow> nat list \<times> bool \<times> string" where
  "read_groups limit i s =
     (if i < limit then
        (case (if i < limit - 1 then read_separator CHR '':'' i read_ipv4_addr s else None) of
           Some (v4, rest) \<Rightarrow> ([v4 ! 0 * 256 + v4 ! 1, v4 ! 2 * 256 + v4 ! 3], True, rest)
         | None \<Rightarrow>
             (case read_separator CHR '':'' i (read_number 16 (Some 4) True 65535) s of
                None \<Rightarrow> ([], False, s)
              | Some (g, rest) \<Rightarrow> (let (gs, v4, rest') = read_groups limit (Suc i) rest in (g # gs, v4, rest'))))
      else ([], False, s))"
  by pat_completeness auto
termination
  by (relation "measure (\<lambda>(limit, i, s). limit - i)") auto

declare read_groups.simps [simp del]

definition read_ipv6_addr :: "nat list reader" where
  "read_ipv6_addr s =
     (let (head, head_ipv4, s1) = read_groups 8 0 s in
      if length head = 8 then Some (head, s1)
      else if head_ipv4 then None
      else
        Option.bind (read_given_char CHR '':'' s1) (\<lambda>s2.
        map_option (\<lambda>s3.
          let (tail, _, s4) = read_groups (8 - (length head + 1)) 0 s3 in
          (head @ replicate (8 - length head - length tail) 0 @ tail, s4))
        (read_given_char CHR '':'' s2)))"

definition read_port :: "nat reader" where
  "read_port s = Option.bind (read_given_char CHR '':'' s) (read_number 10 None True 65535)"

definition read_scope_id :: "nat reader" where
  "read_scope_id s = Option.bind (read_given_char CHR ''%'' s) (read_number 10 None True 4294967295)"

datatype SocketAddr = SocketAddr_V4 "nat list" nat | SocketAddr_V6 "nat list" nat nat

definition read_socket_addr_v4 :: "SocketAddr reader" where
  "read_socket_addr_v4 s =
     Option.bind (read_ipv4_addr s) (\<lambda>(ip, s1). map_option (\<lambda>(port, s2). (SocketAddr_V4 ip port, s2)) (read_port s1))"

definition read_socket_addr_v6 :: "SocketAddr reader" where
  "read_socket_addr_v6 s =
     Option.bind (read_given_char CHR ''['' s) (\<lambda>s1.
     Option.bind (read_ipv6_addr s1) (\<lambda>(ip, s2).
     (let (scope_id, s3) = (case read_scope_id s2 of Some r \<Rightarrow> r | None \<Rightarrow> (0, s2)) in
      Option.bind (read_given_char CHR '']'' s3) (\<lambda>s4.
      map_option (\<lambda>(port, s5). (SocketAddr_V6 ip scope_id port, s5)) (read_port s4)))))"

definition parse_socket_addr :: "string \<Rightarrow> SocketAddr option" where
  "parse_socket_addr s =
     (case (case read_socket_addr_v4 s of Some r \<Rightarrow> Some r | None \<Rightarrow> read_socket_addr_v6 s) of
        Some (a, []) \<Rightarrow> Some a
      | _ \<Rightarrow> None)"

abbreviation is_socket_addr :: "string \<Rightarrow> bool" where
  "is_socket_addr s \<equiv> parse_socket_addr s \<noteq> None"

text \<open>\<open>Display\<close> of the error of the parser.\<close>

definition addr_parse_error :: string where
  "addr_parse_error = ''invalid socket address syntax''"

section \<open>Printed numbers are read back\<close>

lemma to_digit_decimal [simp]: "d < 10 \<Longrightarrow> to_digit 10 (char_of (48 + d)) = Some d"
  by (simp add: to_digit_def)

text \<open>A rest that does not continue a decimal number.\<close>

definition no_digit :: "string \<Rightarrow> bool" where
  "no_digit s \<longleftrightarrow> (case s of [] \<Rightarrow> True | c # _ \<Rightarrow> to_digit 10 c = None)"

lemma read_digits_end: "no_digit s \<Longrightarrow> read_digits 10 s = ([], s)"
  by (cases s) (auto simp: no_digit_def)

fun digits :: "nat \<Rightarrow> nat list" where
  "digits n = (if n < 10 then [] else digits (n div 10)) @ [n mod 10]"

declare digits.simps [simp del]

lemma show_digits: "show_nat n = map (\<lambda>d. char_of (48 + d)) (digits n)"
  by (induction n rule: show_nat.induct) (subst show_nat.simps, subst digits.simps, simp)

lemma digits_lt: "d \<in> set (digits n) \<Longrightarrow> d < 10"
  by (induction n rule: digits.induct) (subst (asm) digits.simps, auto split: if_splits)

lemma digits_value: "digits_value 10 (digits n) = n"
  by (induction n rule: digits.induct) (subst digits.simps, auto simp: digits_value_def)

lemma digits_nonempty [simp]: "digits n \<noteq> []"
  by (subst digits.simps) simp

lemma read_digits_map: "list_all (\<lambda>d. d < 10) ds \<Longrightarrow> no_digit s \<Longrightarrow>
    read_digits 10 (map (\<lambda>d. char_of (48 + d)) ds @ s) = (ds, s)"
  by (induction ds) (simp_all add: read_digits_end)

lemma read_digits_show: "no_digit s \<Longrightarrow> read_digits 10 (show_nat n @ s) = (digits n, s)"
  unfolding show_digits by (rule read_digits_map) (auto simp: list_all_iff digits_lt)

lemma read_number_show:
  assumes "no_digit s"
  shows "read_number 10 None True bound (show_nat n @ s) = (if n \<le> bound then Some (n, s) else None)"
  using read_digits_show [OF assms] by (simp add: read_number_def digits_value)

lemma read_port_show: "read_port (CHR '':'' # show_nat n) = (if n \<le> 65535 then Some (n, []) else None)"
  using read_number_show [of "[]" 65535 n] by (simp add: read_port_def read_given_char_def no_digit_def)

text \<open>The address of a listener: the loopback address with a port parses exactly when the port is one.\<close>

lemma read_loopback: "read_ipv6_addr (''::1]'' @ s) = Some ([0, 0, 0, 0, 0, 0, 0, 1], CHR '']'' # s)"
proof -
  have head: "read_groups 8 0 (''::1]'' @ s) = ([], False, ''::1]'' @ s)"
    by (subst read_groups.simps)
       (simp add: read_separator_def read_ipv4_addr_def read_octet_def read_number_def to_digit_def)
  have one: "read_digits 10 (''1]'' @ s) = ([1], CHR '']'' # s)" "read_digits 16 (''1]'' @ s) = ([1], CHR '']'' # s)"
    by (simp_all add: to_digit_def)
  have rest: "read_groups 7 (Suc 0) (CHR '']'' # s) = ([], False, CHR '']'' # s)"
    by (subst read_groups.simps) (simp add: read_separator_def read_given_char_def)
  have "read_groups 7 0 (''1]'' @ s) = ([1], False, CHR '']'' # s)"
    by (subst read_groups.simps)
       (use one rest in \<open>simp add: read_separator_def read_ipv4_addr_def read_octet_def read_number_def read_given_char_def
          digits_value_def\<close>)
  with head show ?thesis by (simp add: read_ipv6_addr_def read_given_char_def numeral_eq_Suc)
qed

lemma parse_loopback:
  "parse_socket_addr (''[::1]:'' @ show_nat port) =
     (if port \<le> 65535 then Some (SocketAddr_V6 [0, 0, 0, 0, 0, 0, 0, 1] 0 port) else None)"
proof -
  have "read_socket_addr_v4 (''[::1]:'' @ show_nat port) = None"
    by (simp add: read_socket_addr_v4_def read_ipv4_addr_def read_octet_def read_separator_def read_number_def to_digit_def)
  then show ?thesis
    using read_loopback [of "CHR '':'' # show_nat port"] read_port_show [of port]
    by (simp add: parse_socket_addr_def read_socket_addr_v6_def read_given_char_def read_scope_id_def)
qed

text \<open>A printed IPv4 address and port is read back.\<close>

lemma digits_length: "n < 1000 \<Longrightarrow> length (digits n) \<le> 3"
  by (subst digits.simps, subst digits.simps, subst digits.simps) simp

lemma digits_hd: "10 \<le> n \<Longrightarrow> hd (digits n) \<noteq> 0"
proof (induction n rule: digits.induct)
  case (1 n)
  have eq: "hd (digits n) = hd (digits (n div 10))" using 1(2) by (subst digits.simps) simp
  show ?case
  proof (cases "n div 10 < 10")
    case True
    then have "hd (digits (n div 10)) = n div 10" by (subst digits.simps) simp
    with eq 1(2) show ?thesis by simp
  next
    case False
    with 1 eq show ?thesis by simp
  qed
qed

lemma hd_show: "hd (show_nat n @ s) = CHR ''0'' \<Longrightarrow> length (digits n) = 1"
proof (cases "n < 10")
  case True
  then show ?thesis by (subst digits.simps) simp
next
  case False
  assume "hd (show_nat n @ s) = CHR ''0''"
  then have "char_of (48 + hd (digits n)) = CHR ''0''" by (simp add: show_digits hd_map)
  then have "of_char (char_of (48 + hd (digits n))) = (of_char CHR ''0'' :: nat)" by (rule arg_cong)
  moreover have "hd (digits n) < 10" by (rule digits_lt [of _ n]) simp
  ultimately have "hd (digits n) = 0" by simp
  with digits_hd [of n] False show ?thesis by simp
qed

lemma read_octet_show:
  assumes "n \<le> 255" "no_digit s"
  shows "read_number 10 (Some 3) False 255 (show_nat n @ s) = Some (n, s)"
  using read_digits_show [OF assms(2), of n] hd_show [of n s] digits_length [of n] assms(1)
  by (auto simp: read_number_def digits_value)

lemma read_ipv4_show:
  assumes "a \<le> 255" "b \<le> 255" "c \<le> 255" "d \<le> 255" "no_digit s"
  shows "read_ipv4_addr (show_nat a @ CHR ''.'' # show_nat b @ CHR ''.'' # show_nat c @ CHR ''.'' # show_nat d @ s) =
    Some ([a, b, c, d], s)"
proof -
  have dot: "no_digit (CHR ''.'' # x)" for x by (simp add: no_digit_def to_digit_def)
  have octet: "read_octet (Suc i) (CHR ''.'' # show_nat n @ x) = Some (n, x)" if "n \<le> 255" "no_digit x" for i n x
    using read_octet_show [OF that] by (simp add: read_octet_def read_separator_def read_given_char_def)
  have "read_octet 0 (show_nat n @ x) = Some (n, x)" if "n \<le> 255" "no_digit x" for n x
    using read_octet_show [OF that] by (simp add: read_octet_def read_separator_def)
  then show ?thesis
    using assms octet [of _ _ 0] octet [of _ _ 1] octet [of _ _ 2] dot by (simp add: read_ipv4_addr_def numeral_eq_Suc)
qed

lemma parse_ipv4:
  assumes "a \<le> 255" "b \<le> 255" "c \<le> 255" "d \<le> 255" "port \<le> 65535"
  shows "parse_socket_addr (show_nat a @ CHR ''.'' # show_nat b @ CHR ''.'' # show_nat c @ CHR ''.'' # show_nat d @
    CHR '':'' # show_nat port) = Some (SocketAddr_V4 [a, b, c, d] port)"
  using read_ipv4_show [OF assms(1-4), of "CHR '':'' # show_nat port"] read_port_show [of port] assms(5)
  by (simp add: parse_socket_addr_def read_socket_addr_v4_def no_digit_def to_digit_def)

lemmas address_defs = parse_socket_addr_def read_socket_addr_v4_def read_socket_addr_v6_def read_ipv4_addr_def read_ipv6_addr_def
  read_octet_def read_separator_def read_given_char_def read_number_def read_port_def read_scope_id_def to_digit_def digits_value_def

text \<open>Addresses with a scope, and texts that are not addresses.\<close>

lemma sample_addresses:
  "parse_socket_addr ''[1::2%3]:80'' = Some (SocketAddr_V6 [1, 0, 0, 0, 0, 0, 0, 2] 3 80)"
  "\<not> is_socket_addr ''not-a-valid-endpoint''" "\<not> is_socket_addr ''127.0.0.1''" "\<not> is_socket_addr ''127.0.0.01:80''"
  by (simp_all add: address_defs read_groups.simps) (simp add: numeral_eq_Suc)

end
