(* ===== verification/App_Config.thy ===== *)
theory App_Config
  imports Std_Text
begin

text \<open>
  The configuration, its validation and its reading, \<open>config/config.rs\<close>. The \<open>config\<close> and
  \<open>serde\<close> crates merge the sources and deserialise the result; they are the argument \<open>load\<close>
  of \<open>read_config\<close>, with the list of sources as the code builds it. The environment variable
  and the existence of files are arguments. Warnings are log lines.
\<close>

section \<open>The configuration\<close>

record ClusterNode =
  cln_endpoint :: string
  cln_node_id :: u32

record AppConfig =
  cfg_persistence_dir :: string
  cfg_metrics_port :: u32
  cfg_node_id :: u32
  cfg_cluster_nodes :: "ClusterNode list"
  cfg_max_message_size_bytes :: usize
  cfg_min_batch_interval_ms :: u64
  cfg_max_batch_size :: u64
  cfg_enable_otel_tracing :: bool
  cfg_cluster_port :: u32
  cfg_tcp_datastore_port :: u32

record ConfigValidationError =
  cve_field :: string
  cve_message :: string

section \<open>Validation\<close>

definition config_error :: "string \<Rightarrow> string \<Rightarrow> ConfigValidationError" where
  "config_error field message = \<lparr> cve_field = field, cve_message = message \<rparr>"

text \<open>The character of a single quote, which HOL string literals cannot hold.\<close>

definition quote_char :: char where
  "quote_char = CHR 0x27"

text \<open>\<open>Display\<close> of an error.\<close>

definition fmt_config_error :: "ConfigValidationError \<Rightarrow> string" where
  "fmt_config_error e =
     ''Config validation error in '' @ [quote_char] @ cve_field e @ [quote_char] @ '': '' @ cve_message e"

definition MIN_MESSAGE_SIZE :: usize where
  "MIN_MESSAGE_SIZE = 1024"

definition MAX_MESSAGE_SIZE :: usize where
  "MAX_MESSAGE_SIZE = 64 * 1024 * 1024"

definition MAX_BATCH_SIZE_LIMIT :: u64 where
  "MAX_BATCH_SIZE_LIMIT = 10000"

definition MAX_BATCH_INTERVAL :: u64 where
  "MAX_BATCH_INTERVAL = 60000"

definition message_size_errors :: "AppConfig \<Rightarrow> ConfigValidationError list" where
  "message_size_errors cfg =
     (if cfg_max_message_size_bytes cfg < MIN_MESSAGE_SIZE
      then [config_error ''max_message_size_bytes''
              (''Must be at least '' @ show_nat MIN_MESSAGE_SIZE @ '' bytes, got '' @
               show_nat (cfg_max_message_size_bytes cfg))]
      else []) @
     (if cfg_max_message_size_bytes cfg > MAX_MESSAGE_SIZE
      then [config_error ''max_message_size_bytes''
              (''Must be at most '' @ show_nat MAX_MESSAGE_SIZE @ '' bytes, got '' @
               show_nat (cfg_max_message_size_bytes cfg))]
      else [])"

definition batch_errors :: "AppConfig \<Rightarrow> ConfigValidationError list" where
  "batch_errors cfg =
     (if cfg_max_batch_size cfg = 0
      then [config_error ''max_batch_size'' ''Must be greater than 0'']
      else []) @
     (if cfg_max_batch_size cfg > MAX_BATCH_SIZE_LIMIT
      then [config_error ''max_batch_size''
              (''Must be at most '' @ show_nat (unat MAX_BATCH_SIZE_LIMIT) @ '', got '' @
               show_nat (unat (cfg_max_batch_size cfg)))]
      else []) @
     (if cfg_min_batch_interval_ms cfg > MAX_BATCH_INTERVAL
      then [config_error ''min_batch_interval_ms''
              (''Must be at most '' @ show_nat (unat MAX_BATCH_INTERVAL) @ ''ms, got '' @
               show_nat (unat (cfg_min_batch_interval_ms cfg)))]
      else [])"

definition port_error :: "string \<Rightarrow> u32 \<Rightarrow> ConfigValidationError list" where
  "port_error field port =
     (if port > 65535 then [config_error field (''Invalid port number: '' @ show_nat (unat port))] else [])"

text \<open>The pass over the nodes with the ids seen so far, and the check of one endpoint.\<close>

fun duplicate_errors :: "u32 list \<Rightarrow> ClusterNode list \<Rightarrow> ConfigValidationError list" where
  "duplicate_errors seen_ids [] = []"
| "duplicate_errors seen_ids (node # nodes) =
     (if cln_node_id node \<in> set seen_ids
      then config_error ''cluster_nodes'' (''Duplicate node_id: '' @ show_nat (unat (cln_node_id node))) #
             duplicate_errors seen_ids nodes
      else duplicate_errors (cln_node_id node # seen_ids) nodes)"

definition endpoint_errors :: "ClusterNode \<Rightarrow> ConfigValidationError list" where
  "endpoint_errors node =
     (if cln_endpoint node = [] then
        [config_error ''cluster_nodes''
           (''Node '' @ show_nat (unat (cln_node_id node)) @ '' has empty endpoint'')]
      else if \<not> is_socket_addr (cln_endpoint node) then
        [config_error ''cluster_nodes''
           (''Node '' @ show_nat (unat (cln_node_id node)) @ '' has invalid endpoint '' @
            [quote_char] @ cln_endpoint node @ [quote_char] @ '': expected format '' @
            [quote_char] @ ''host:port'' @ [quote_char])]
      else [])"

definition validate_cluster_topology ::
  "AppConfig \<Rightarrow> ConfigValidationError list \<Rightarrow> ConfigValidationError list" where
  "validate_cluster_topology cfg errors =
     errors @ duplicate_errors [] (cfg_cluster_nodes cfg) @
     concat (map endpoint_errors (cfg_cluster_nodes cfg))"

definition validate :: "AppConfig \<Rightarrow> ConfigValidationError list + unit" where
  "validate cfg =
     (let errors =
        message_size_errors cfg @ batch_errors cfg @
        port_error ''metrics_port'' (cfg_metrics_port cfg) @
        port_error ''cluster_port'' (cfg_cluster_port cfg) @
        port_error ''tcp_datastore_port'' (cfg_tcp_datastore_port cfg);
      errors = validate_cluster_topology cfg errors in
      if errors = [] then Inr () else Inl errors)"

section \<open>What validation accepts\<close>

lemma duplicate_errors_Nil:
  "duplicate_errors seen nodes = [] \<longleftrightarrow>
     distinct (map cln_node_id nodes) \<and> set (map cln_node_id nodes) \<inter> set seen = {}"
  by (induction nodes arbitrary: seen) auto

text \<open>
  Every duplicate is reported once: the errors and the distinct ids together are the nodes.
\<close>

lemma duplicate_errors_length:
  "length (duplicate_errors seen nodes) + card (set (map cln_node_id nodes) - set seen) = length nodes"
proof (induction nodes arbitrary: seen)
  case (Cons n nodes)
  show ?case
  proof (cases "cln_node_id n \<in> set seen")
    case True
    then show ?thesis
      using Cons.IH [of seen] by (simp add: insert_Diff_if)
  next
    case False
    then have "set (map cln_node_id (n # nodes)) - set seen =
        insert (cln_node_id n) (set (map cln_node_id nodes) - set (cln_node_id n # seen))"
      by auto
    with False Cons.IH [of "cln_node_id n # seen"] show ?thesis
      by simp
  qed
qed simp

lemma endpoint_errors_Nil:
  "endpoint_errors node = [] \<longleftrightarrow> cln_endpoint node \<noteq> [] \<and> is_socket_addr (cln_endpoint node)"
  by (simp add: endpoint_errors_def)

lemma validate_topology_Nil:
  "validate_cluster_topology cfg errors = [] \<longleftrightarrow>
     errors = [] \<and> distinct (map cln_node_id (cfg_cluster_nodes cfg)) \<and>
     list_all (\<lambda>n. cln_endpoint n \<noteq> [] \<and> is_socket_addr (cln_endpoint n)) (cfg_cluster_nodes cfg)"
  by (simp add: validate_cluster_topology_def duplicate_errors_Nil endpoint_errors_Nil list_all_iff)

lemma message_size_errors_Nil:
  "message_size_errors cfg = [] \<longleftrightarrow>
     1024 \<le> cfg_max_message_size_bytes cfg \<and> cfg_max_message_size_bytes cfg \<le> 67108864"
  by (simp add: message_size_errors_def MIN_MESSAGE_SIZE_def MAX_MESSAGE_SIZE_def not_less)

lemma batch_errors_Nil:
  "batch_errors cfg = [] \<longleftrightarrow>
     0 < cfg_max_batch_size cfg \<and> cfg_max_batch_size cfg \<le> 10000 \<and> cfg_min_batch_interval_ms cfg \<le> 60000"
  unfolding batch_errors_def MAX_BATCH_SIZE_LIMIT_def MAX_BATCH_INTERVAL_def word_neq_0_conv [symmetric]
    not_le [symmetric]
  by simp

lemma port_error_Nil: "port_error field port = [] \<longleftrightarrow> port \<le> 65535"
  by (simp add: port_error_def flip: not_le)

lemmas validation_Nil = validate_topology_Nil message_size_errors_Nil batch_errors_Nil port_error_Nil

text \<open>The limits, as one predicate.\<close>

definition config_ok :: "AppConfig \<Rightarrow> bool" where
  "config_ok cfg \<longleftrightarrow>
     1024 \<le> cfg_max_message_size_bytes cfg \<and> cfg_max_message_size_bytes cfg \<le> 67108864 \<and>
     0 < cfg_max_batch_size cfg \<and> cfg_max_batch_size cfg \<le> 10000 \<and>
     cfg_min_batch_interval_ms cfg \<le> 60000 \<and>
     cfg_metrics_port cfg \<le> 65535 \<and> cfg_cluster_port cfg \<le> 65535 \<and> cfg_tcp_datastore_port cfg \<le> 65535 \<and>
     distinct (map cln_node_id (cfg_cluster_nodes cfg)) \<and>
     list_all (\<lambda>n. cln_endpoint n \<noteq> [] \<and> is_socket_addr (cln_endpoint n)) (cfg_cluster_nodes cfg)"

lemma validate_accepts: "validate cfg = Inr u \<longleftrightarrow> config_ok cfg"
  by (simp add: validate_def Let_def validation_Nil config_ok_def)

section \<open>Reading\<close>

definition show_bool :: "bool \<Rightarrow> string" where
  "show_bool b = (if b then ''true'' else ''false'')"

definition safe_display :: "AppConfig \<Rightarrow> string" where
  "safe_display cfg =
     ''AppConfig { node_id: '' @ show_nat (unat (cfg_node_id cfg)) @
     '', cluster_port: '' @ show_nat (unat (cfg_cluster_port cfg)) @
     '', metrics_port: '' @ show_nat (unat (cfg_metrics_port cfg)) @
     '', tcp_datastore_port: '' @ show_nat (unat (cfg_tcp_datastore_port cfg)) @
     '', cluster_nodes: '' @ show_nat (length (cfg_cluster_nodes cfg)) @
     '' nodes, max_message_size_bytes: '' @ show_nat (cfg_max_message_size_bytes cfg) @
     '', max_batch_size: '' @ show_nat (unat (cfg_max_batch_size cfg)) @
     '', enable_otel_tracing: '' @ show_bool (cfg_enable_otel_tracing cfg) @ '' }''"

text \<open>The log line shows neither the endpoints nor the directory.\<close>

lemma safe_display_hides:
  "length nodes = length (cfg_cluster_nodes cfg) \<Longrightarrow>
   safe_display (cfg\<lparr>cfg_cluster_nodes := nodes, cfg_persistence_dir := dir\<rparr>) = safe_display cfg"
  by (simp add: safe_display_def)

datatype config_source = Source_File string | Source_Environment string

definition search_locations :: "string option \<Rightarrow> string list" where
  "search_locations resource_dir =
     [case resource_dir of Some dir \<Rightarrow> dir | None \<Rightarrow> ''resources'', ''src/resources'', ''.'']"

definition config_sources :: "string option \<Rightarrow> (string \<Rightarrow> bool) \<Rightarrow> config_source list" where
  "config_sources resource_dir exists =
     map Source_File (filter exists (map (\<lambda>location. location @ ''/application.toml'') (search_locations resource_dir))) @
     map Source_File (filter exists (map (\<lambda>location. location @ ''/local.toml'') (search_locations resource_dir))) @
     [Source_Environment ''APP'']"

fun join_lines :: "string list \<Rightarrow> string" where
  "join_lines [] = []"
| "join_lines [x] = x"
| "join_lines (x # y # xs) = x @ [CHR 0x0A] @ ''  - '' @ join_lines (y # xs)"

definition read_config ::
  "string option \<Rightarrow> (string \<Rightarrow> bool) \<Rightarrow> (config_source list \<Rightarrow> string + AppConfig) \<Rightarrow> string + AppConfig" where
  "read_config resource_dir exists load =
     (case load (config_sources resource_dir exists) of
        Inl error \<Rightarrow> Inl error
      | Inr app_config \<Rightarrow>
          (case validate app_config of
             Inl validation_errors \<Rightarrow>
               Inl (''Configuration validation failed:'' @ [CHR 0x0A] @ ''  - '' @
                    join_lines (map fmt_config_error validation_errors))
           | Inr _ \<Rightarrow> Inr app_config))"

text \<open>Every local file is a later source than every application file, and the environment is the last.\<close>

lemma config_sources_order:
  "\<exists>defaults overrides. config_sources dir exists = map Source_File (defaults @ overrides) @ [Source_Environment ''APP''] \<and>
     list_all (\<lambda>f. exists f \<and> suffix ''/application.toml'' f) defaults \<and>
     list_all (\<lambda>f. exists f \<and> suffix ''/local.toml'' f) overrides"
  unfolding config_sources_def map_append append_assoc
  by (intro exI conjI, rule refl) (auto simp: list_all_iff suffix_def)

text \<open>
  C31: A configuration is accepted exactly when every limit holds. The server starts with the
  configuration that the sources give if and only if the message size, the batch size and
  the batch interval are in range, the three ports are port numbers, no two nodes of the
  cluster have the same id, and every endpoint parses as a socket address; otherwise reading
  fails, and with sources that can be loaded the text names the failure of the validation.
\<close>

theorem read_config_accepts_iff:
  "(read_config dir exists load = Inr cfg \<longleftrightarrow>
      load (config_sources dir exists) = Inr cfg \<and> config_ok cfg) \<and>
   (load (config_sources dir exists) = Inr cfg \<and> \<not> config_ok cfg \<longleftrightarrow>
      load (config_sources dir exists) = Inr cfg \<and>
      (\<exists>errors. errors \<noteq> [] \<and>
        read_config dir exists load = Inl (''Configuration validation failed:'' @ [CHR 0x0A] @ ''  - '' @
          join_lines (map fmt_config_error errors))))"
proof -
  have bad: "\<exists>errors. errors \<noteq> [] \<and> validate c = Inl errors" if "\<not> config_ok c" for c
    using that validate_accepts [of c] by (cases "validate c") (auto simp: validate_def Let_def split: if_splits)
  show ?thesis
  proof (cases "load (config_sources dir exists)")
    case (Inl e)
    then show ?thesis by (simp add: read_config_def)
  next
    case (Inr c)
    then show ?thesis
      using bad [of c] validate_accepts [of c] by (cases "config_ok c") (auto simp: read_config_def split: sum.splits)
  qed
qed

end
