(* ===== verification/Cluster_Transport.thy ===== *)
theory Cluster_Transport
  imports Quorum_Messages Frame_Codec Wire_Instance App_Config
begin

text \<open>
  The connections between nodes: \<open>transport/capnp/message_sender.rs\<close>,
  \<open>transport/capnp/message_receiver.rs\<close> and \<open>transport/cluster_stream_manager.rs\<close>. A
  stream is the list of bytes that arrive on it. The handlers of the incoming
  connections run concurrently; what one of them does with what it has read is one step
  on the shared maps. A channel is a number, and the store of the receiver says what is
  queued in it. Sockets and tasks are not modelled.
\<close>

section \<open>Length-prefixed messages\<close>

definition put_u32 :: "u32 \<Rightarrow> u8 list" where
  "put_u32 x = rev (put_u32_le x)"

definition u32_from_be_bytes :: "u8 list \<Rightarrow> u32" where
  "u32_from_be_bytes bs = u32_from_le_bytes (rev bs)"

definition MAX_MESSAGE_SIZE :: usize where
  "MAX_MESSAGE_SIZE = 64 * 1024 * 1024"

text \<open>The bytes of \<open>write_message\<close>; the length is cut to 32 bits.\<close>

definition write_message :: "OwnedQuorumMessage \<Rightarrow> u8 list" where
  "write_message msg = put_u32 (of_nat (length (message_bytes msg))) @ message_bytes msg"

definition read_message :: "capnp \<Rightarrow> u8 list \<Rightarrow> io_error + (OwnedQuorumMessage \<times> u8 list)" where
  "read_message cp reader =
     (case read_exact 4 reader of Inl e \<Rightarrow> Inl e | Inr (len_buf, r1) \<Rightarrow>
      let len = unat (u32_from_be_bytes len_buf) in
      if len > MAX_MESSAGE_SIZE then Inl InvalidData
      else
        case read_exact len r1 of Inl e \<Rightarrow> Inl e | Inr (bytes, r2) \<Rightarrow>
        case quorum_message_from_bytes cp bytes of None \<Rightarrow> Inl InvalidData | Some m \<Rightarrow> Inr (m, r2))"

text \<open>What a loop around \<open>read_message\<close> reads from a stream, and the error that ends it.\<close>

lemma read_message_shorter: "read_message cp bs = Inr (m, rest) \<Longrightarrow> length rest < length bs"
  by (auto simp: read_message_def read_exact_def Let_def split: if_splits sum.splits option.splits)

function read_messages :: "capnp \<Rightarrow> u8 list \<Rightarrow> OwnedQuorumMessage list \<times> io_error" where
  "read_messages cp reader =
     (case read_message cp reader of
        Inl e \<Rightarrow> ([], e)
      | Inr (m, rest) \<Rightarrow> (let (ms, e) = read_messages cp rest in (m # ms, e)))"
  by pat_completeness auto
termination
  by (relation "measure (\<lambda>(cp, bs). length bs)") (auto dest: read_message_shorter)

declare read_messages.simps [simp del]

section \<open>The sender\<close>

definition connect_message :: "wire \<Rightarrow> u32 \<Rightarrow> OwnedQuorumMessage" where
  "connect_message wr node_id = build_owned_message wr (ConnectRequest (Some \<lparr> rcq_node_id = node_id \<rparr>))"

text \<open>
  Writing to the socket: \<open>fails i\<close> is \<open>None\<close> when the \<open>i\<close>-th message is written and
  flushed, and \<open>Some k\<close> when this fails after \<open>k\<close> of its bytes.
\<close>

fun send_loop :: "(nat \<Rightarrow> nat option) \<Rightarrow> nat \<Rightarrow> OwnedQuorumMessage list \<Rightarrow> u8 list" where
  "send_loop fails i [] = []"
| "send_loop fails i (msg # msgs) =
     (case fails i of
        None \<Rightarrow> write_message msg @ send_loop fails (Suc i) msgs
      | Some k \<Rightarrow> take k (write_message msg))"

text \<open>
  \<open>MessageSender::run\<close> for the messages that its channel delivers: the answer to the
  caller, and the bytes on the stream.
\<close>

definition sender_run ::
  "wire \<Rightarrow> u32 \<Rightarrow> bool \<Rightarrow> bool \<Rightarrow> (nat \<Rightarrow> nat option) \<Rightarrow> OwnedQuorumMessage list \<Rightarrow> bool \<times> u8 list" where
  "sender_run wr node_id connected nodelay fails msgs =
     (if \<not> connected \<or> \<not> nodelay then (False, [])
      else if fails 0 \<noteq> None then (False, send_loop fails 0 [connect_message wr node_id])
      else (True, write_message (connect_message wr node_id) @ send_loop fails 1 msgs))"

section \<open>The receiver\<close>

datatype conn_phase = Connecting | Reading u32 nat | Closed

record MessageReceiver =
  inbound_queues :: "u32 \<rightharpoonup> nat"
  inbound_receivers :: "u32 \<rightharpoonup> nat"
  channels :: "nat \<Rightarrow> OwnedQuorumMessage list"
  next_channel :: nat
  conn_phases :: "nat \<Rightarrow> conn_phase"

definition new_message_receiver :: MessageReceiver where
  "new_message_receiver =
     \<lparr> inbound_queues = (\<lambda>_. None), inbound_receivers = (\<lambda>_. None), channels = (\<lambda>_. []), next_channel = 0,
       conn_phases = (\<lambda>_. Connecting) \<rparr>"

definition get_queue :: "u32 \<Rightarrow> MessageReceiver \<Rightarrow> nat option" where
  "get_queue node_id r = inbound_receivers r node_id"

text \<open>The peer's id in the first message.\<close>

definition connecting_node :: "capnp \<Rightarrow> wire \<Rightarrow> OwnedQuorumMessage \<Rightarrow> u32 option" where
  "connecting_node cp wr msg =
     (case quorum_with_message cp wr msg (\<lambda>p. case p of Some (ConnectRequest req) \<Rightarrow> map_option rcq_node_id req | _ \<Rightarrow> None) of
        None \<Rightarrow> None | Some n \<Rightarrow> n)"

definition open_queue :: "nat \<Rightarrow> u32 \<Rightarrow> MessageReceiver \<Rightarrow> MessageReceiver" where
  "open_queue c node_id r =
     (let ch = next_channel r in
      r\<lparr>inbound_queues := (inbound_queues r)(node_id \<mapsto> ch), inbound_receivers := (inbound_receivers r)(node_id \<mapsto> ch),
        channels := (channels r)(ch := []), next_channel := Suc ch,
        conn_phases := (conn_phases r)(c := Reading node_id ch)\<rparr>)"

definition close_queue :: "nat \<Rightarrow> u32 \<Rightarrow> MessageReceiver \<Rightarrow> MessageReceiver" where
  "close_queue c node_id r =
     r\<lparr>inbound_queues := (inbound_queues r)(node_id := None), inbound_receivers := (inbound_receivers r)(node_id := None),
       conn_phases := (conn_phases r)(c := Closed)\<rparr>"

text \<open>
  What the handler of connection \<open>c\<close> does with the next result of \<open>read_message\<close>.
  \<open>held ch\<close> says whether a quorum worker has a receiver of the channel; sending fails
  when nobody has one.
\<close>

definition handle_connection_step ::
  "capnp \<Rightarrow> wire \<Rightarrow> (nat \<Rightarrow> bool) \<Rightarrow> nat \<Rightarrow> io_error + OwnedQuorumMessage \<Rightarrow> MessageReceiver \<Rightarrow> MessageReceiver" where
  "handle_connection_step cp wr held c res r =
     (case conn_phases r c of
        Connecting \<Rightarrow>
          (case res of
             Inl e \<Rightarrow> r\<lparr>conn_phases := (conn_phases r)(c := Closed)\<rparr>
           | Inr msg \<Rightarrow>
               (case connecting_node cp wr msg of
                  None \<Rightarrow> r\<lparr>conn_phases := (conn_phases r)(c := Closed)\<rparr>
                | Some node_id \<Rightarrow> open_queue c node_id r))
      | Reading node_id ch \<Rightarrow>
          (case res of
             Inl e \<Rightarrow> close_queue c node_id r
           | Inr msg \<Rightarrow>
               (if held ch \<or> inbound_receivers r node_id = Some ch
                then r\<lparr>channels := (channels r)(ch := channels r ch @ [msg])\<rparr>
                else close_queue c node_id r))
      | Closed \<Rightarrow> r)"

text \<open>The handler of one connection, run on the messages of its stream.\<close>

definition receive_all ::
  "capnp \<Rightarrow> wire \<Rightarrow> (nat \<Rightarrow> bool) \<Rightarrow> nat \<Rightarrow> OwnedQuorumMessage list \<Rightarrow> MessageReceiver \<Rightarrow> MessageReceiver" where
  "receive_all cp wr held c ms r = fold (\<lambda>m. handle_connection_step cp wr held c (Inr m)) ms r"

definition handle_connection ::
  "capnp \<Rightarrow> wire \<Rightarrow> (nat \<Rightarrow> bool) \<Rightarrow> nat \<Rightarrow> u8 list \<Rightarrow> MessageReceiver \<Rightarrow> MessageReceiver" where
  "handle_connection cp wr held c reader r =
     (let (ms, e) = read_messages cp reader in
      handle_connection_step cp wr held c (Inl e) (receive_all cp wr held c ms r))"

section \<open>The stream manager\<close>

datatype ClusterConnectError = NoSuchNode u32 | InvalidEndpoint string | ConnectionFailed string

record ClusterStreamManager =
  csm_self_id :: u32
  csm_cluster_nodes :: "ClusterNode list"
  csm_listen_addr :: SocketAddr
  outbound_senders :: "u32 \<rightharpoonup> nat"
  csm_receiver :: MessageReceiver
  csm_next_sender :: nat

definition new_stream_manager :: "u32 \<Rightarrow> ClusterNode list \<Rightarrow> SocketAddr \<Rightarrow> ClusterStreamManager" where
  "new_stream_manager self_id cluster_nodes listen_addr =
     \<lparr> csm_self_id = self_id, csm_cluster_nodes = cluster_nodes, csm_listen_addr = listen_addr, outbound_senders = (\<lambda>_. None),
       csm_receiver = new_message_receiver, csm_next_sender = 0 \<rparr>"

text \<open>
  \<open>started\<close> is what the spawned sender reports, or the text of the error when it reports nothing.
\<close>

definition get_or_connect ::
  "(SocketAddr \<Rightarrow> string + bool) \<Rightarrow> u32 \<Rightarrow> ClusterStreamManager \<Rightarrow>
     (ClusterConnectError + nat) \<times> ClusterStreamManager" where
  "get_or_connect started node_id m =
     (case outbound_senders m node_id of
        Some tx \<Rightarrow> (Inr tx, m)
      | None \<Rightarrow>
          (case find (\<lambda>n. cln_node_id n = node_id) (csm_cluster_nodes m) of
             None \<Rightarrow> (Inl (NoSuchNode node_id), m)
           | Some node \<Rightarrow>
               (case parse_socket_addr (cln_endpoint node) of
                  None \<Rightarrow> (Inl (InvalidEndpoint (cln_endpoint node @ '': '' @ addr_parse_error)), m)
                | Some addr \<Rightarrow>
                    let tx = csm_next_sender m; m1 = m\<lparr>csm_next_sender := Suc tx\<rparr> in
                    (case started addr of
                       Inl e \<Rightarrow> (Inl (ConnectionFailed e), m1)
                     | Inr ok \<Rightarrow>
                         if ok then (Inr tx, m1\<lparr>outbound_senders := (outbound_senders m1)(node_id \<mapsto> tx)\<rparr>)
                         else (Inl (ConnectionFailed ''Err''), m1)))))"

text \<open>The end of the spawned task, and \<open>reset_connection\<close>.\<close>

definition sender_stopped :: "u32 \<Rightarrow> ClusterStreamManager \<Rightarrow> ClusterStreamManager" where
  "sender_stopped node_id m = m\<lparr>outbound_senders := (outbound_senders m)(node_id := None)\<rparr>"

definition reset_connection :: "u32 \<Rightarrow> ClusterStreamManager \<Rightarrow> ClusterStreamManager" where
  "reset_connection node_id m = m\<lparr>outbound_senders := (outbound_senders m)(node_id := None)\<rparr>"

definition get_inbound_queue :: "u32 \<Rightarrow> ClusterStreamManager \<Rightarrow> nat option" where
  "get_inbound_queue node_id m = get_queue node_id (csm_receiver m)"

definition has_outbound_connection :: "u32 \<Rightarrow> ClusterStreamManager \<Rightarrow> bool" where
  "has_outbound_connection node_id m \<longleftrightarrow> outbound_senders m node_id \<noteq> None"

definition has_inbound_connection :: "u32 \<Rightarrow> ClusterStreamManager \<Rightarrow> bool" where
  "has_inbound_connection node_id m \<longleftrightarrow> get_queue node_id (csm_receiver m) \<noteq> None"

section \<open>The codec\<close>

definition sendable :: "capnp \<Rightarrow> OwnedQuorumMessage \<Rightarrow> bool" where
  "sendable cp m \<longleftrightarrow> wire_fits cp m \<and> length (message_bytes m) \<le> MAX_MESSAGE_SIZE"

lemma u32_be_roundtrip [simp]: "u32_from_be_bytes (put_u32 x) = x"
  by (simp add: u32_from_be_bytes_def put_u32_def)

lemma length_put_u32 [simp]: "length (put_u32 x) = 4"
  by (simp add: put_u32_def)

lemma message_len_u32: "n \<le> MAX_MESSAGE_SIZE \<Longrightarrow> unat (of_nat n :: u32) = n"
  by (simp add: MAX_MESSAGE_SIZE_def unat_of_nat)

lemma read_write_message:
  assumes "sendable cp m"
  shows "read_message cp (write_message m @ rest) = Inr (m, rest)"
proof -
  have "quorum_message_from_bytes cp (message_bytes m) = Some m"
    using assms by (auto simp: sendable_def wire_fits_def quorum_message_from_bytes_def)
  then show ?thesis
    using assms by (simp add: read_message_def write_message_def sendable_def message_len_u32 Let_def)
qed

text \<open>A message that was cut off is not read.\<close>

lemma read_message_cut:
  assumes "sendable cp m" "k < length (write_message m)"
  shows "read_message cp (take k (write_message m)) = Inl UnexpectedEof"
proof (cases "k < 4")
  case True
  then show ?thesis by (simp add: read_message_def read_exact_def write_message_def)
next
  case False
  then have "take k (write_message m) = put_u32 (of_nat (length (message_bytes m))) @ take (k - 4) (message_bytes m)"
    by (simp add: write_message_def)
  moreover have "k - 4 < length (message_bytes m)"
    using assms(2) False by (simp add: write_message_def)
  ultimately show ?thesis
    using assms(1) by (simp add: read_message_def sendable_def message_len_u32 Let_def) (simp add: read_exact_def)
qed

interpretation messages: stream_codec write_message "read_message cp" "read_messages cp" "sendable cp" UnexpectedEof
proof (unfold_locales, goal_cases)
  case (1 m rest)
  then show ?case by (rule read_write_message)
next
  case 2
  show ?case by (simp add: read_message_def read_exact_def)
next
  case (3 bs)
  show ?case by (rule read_messages.simps)
qed

lemma read_messages_cut:
  assumes "sendable cp m"
  shows "read_messages cp (take k (write_message m)) = (if k < length (write_message m) then [] else [m], UnexpectedEof)"
  using assms messages.read_all_written [of cp "[m]"]
  by (cases "k < length (write_message m)") (simp_all add: messages.read_all_error read_message_cut)

text \<open>The peer reads the messages up to the first failed write.\<close>

lemma read_sent:
  "list_all (sendable cp) ms \<Longrightarrow>
   \<exists>n. read_messages cp (send_loop fails i ms) = (take n ms, UnexpectedEof) \<and> ((\<forall>j. fails j = None) \<longrightarrow> n = length ms)"
proof (induction ms arbitrary: i)
  case (Cons m ms)
  show ?case
  proof (cases "fails i")
    case None
    from Cons obtain n where "read_messages cp (send_loop fails (Suc i) ms) = (take n ms, UnexpectedEof)"
      "(\<forall>j. fails j = None) \<longrightarrow> n = length ms"
      by auto
    with Cons.prems None show ?thesis
      by (intro exI [of _ "Suc n"]) (simp add: messages.read_all_write)
  next
    case (Some k)
    with Cons.prems read_messages_cut [of cp m k] show ?thesis
      by (intro exI [of _ "if k < length (write_message m) then 0 else 1"]) auto
  qed
qed (simp add: messages.read_all_empty)

section \<open>Delivery\<close>

lemma connecting_node_message:
  assumes "wire_law cp wr" "sendable cp (connect_message wr node)"
  shows "connecting_node cp wr (connect_message wr node) = Some node"
  using assms
  by (auto simp: connecting_node_def connect_message_def sendable_def wire_law_def wire_fits_def quorum_with_message_def
      build_owned_message_def)

lemma receive_all_reading:
  assumes "conn_phases r c = Reading node ch" "inbound_receivers r node = Some ch"
  shows "receive_all cp wr held c ms r = r\<lparr>channels := (channels r)(ch := channels r ch @ ms)\<rparr>"
  using assms
  by (induction ms arbitrary: r) (simp_all add: receive_all_def handle_connection_step_def)


lemma sample_sendable:
  "sendable sample_capnp (connect_message sample_wire 1)"
  "sendable sample_capnp (build_vote_response_message sample_wire True 7 3)"
  unfolding sendable_def connect_message_def build_vote_response_message_def
  by (rule conjI, rule sample_wire_fits,
      simp add: build_owned_message_def sample_wire_def frame_def enc_words_def enc_nat_def MAX_MESSAGE_SIZE_def)+


text \<open>
  C32: A reconnection can lose its queue. When a node connects again before its old
  connection has been noticed as closed, the handler of the old connection removes the
  queue of the new one when it ends: the node has no inbound queue although its
  connection is open, and unless a quorum worker already holds the queue the next
  message closes this connection too.
\<close>

theorem stale_handler_drops_queue:
  assumes "conn_phases r c1 = Reading node ch1" "conn_phases r c2 = Connecting" "c1 \<noteq> c2"
    and "connecting_node cp wr m = Some node"
    and "r' = handle_connection_step cp wr held c1 (Inl e) (handle_connection_step cp wr held c2 (Inr m) r)"
  shows "conn_phases r' c2 = Reading node (next_channel r) \<and> get_queue node r' = None \<and>
    (\<not> held (next_channel r) \<longrightarrow> conn_phases (handle_connection_step cp wr held c2 (Inr m') r') c2 = Closed)"
  using assms
  by (simp add: handle_connection_step_def open_queue_def close_queue_def get_queue_def Let_def)

theorem stale_handler_drops_queue_witness:
  "let c = connect_message sample_wire 1; step = handle_connection_step sample_capnp sample_wire (\<lambda>_. False);
       r = step 0 (Inl UnexpectedEof) (step 1 (Inr c) (step 0 (Inr c) new_message_receiver)) in
   conn_phases r 1 = Reading 1 1 \<and> get_queue 1 r = None \<and> conn_phases (step 1 (Inr c) r) 1 = Closed"
proof -
  let ?r = "handle_connection_step sample_capnp sample_wire (\<lambda>_. False) 0 (Inr (connect_message sample_wire 1)) new_message_receiver"
  have n: "connecting_node sample_capnp sample_wire (connect_message sample_wire 1) = Some 1"
    by (rule connecting_node_message [OF sample_wire_law sample_sendable(1)])
  then have r: "?r = open_queue 0 1 new_message_receiver"
    by (simp add: handle_connection_step_def new_message_receiver_def)
  then have "conn_phases ?r 0 = Reading 1 0" "conn_phases ?r 1 = Connecting" "next_channel ?r = 1"
    by (simp_all add: open_queue_def new_message_receiver_def Let_def)
  with stale_handler_drops_queue [of ?r 0 1 0 1, OF _ _ _ n refl, of "\<lambda>_. False" UnexpectedEof "connect_message sample_wire 1"]
  show ?thesis by (simp add: Let_def)
qed

section \<open>Outbound connections\<close>

lemma get_or_connect_reuses:
  assumes "get_or_connect started node m = (Inr tx, m')"
  shows "has_outbound_connection node m' \<and> get_or_connect started' node m' = (Inr tx, m')"
  using assms
  by (auto simp: get_or_connect_def has_outbound_connection_def Let_def split: option.splits sum.splits if_splits)

lemma get_or_connect_error:
  assumes "get_or_connect started node m = (Inl e, m')"
  shows "outbound_senders m' = outbound_senders m \<and> \<not> has_outbound_connection node m'"
  using assms
  by (auto simp: get_or_connect_def has_outbound_connection_def Let_def split: option.splits sum.splits if_splits)

end
