(* ===== verification/Server_Startup.thy ===== *)
theory Server_Startup
  imports Durability Write_Proxy Query_Worker Cluster_Transport
begin

text \<open>
  How \<open>main.rs\<close> assembles a server from its configuration and its files:
  \<open>startup/queues.rs\<close>, \<open>startup/workers.rs\<close> and the body of \<open>main\<close> up to the spawning of
  the workers. A worker is the state that its \<open>new\<close> creates; the queues that two of them
  share are empty at this point. The metrics server is the port that it is given; spawning
  and tracing are not modelled.
\<close>

section \<open>Queues and workers\<close>

record AppQueues =
  aq_task_queue :: "(LocalRaftMessagePayload \<times> callback) list"
  aq_write_work_queue :: "WriteBatch list"
  aq_query_queue :: "QueryRequest list"
  aq_persistence_work :: "PersistenceTaskType list"
  aq_persistence_response_queue :: "PersistenceResponseType list"
  aq_quorum_work_queue :: "LocalQuorumWorkerTaskType list"
  aq_quorum_response_queue :: "LocalQuorumTaskResponseType list"

definition new_app_queues :: AppQueues where
  "new_app_queues =
     \<lparr> aq_task_queue = [], aq_write_work_queue = [], aq_query_queue = [], aq_persistence_work = [],
       aq_persistence_response_queue = [], aq_quorum_work_queue = [], aq_quorum_response_queue = [] \<rparr>"

text \<open>The workers and their task queues.\<close>

definition create_quorum_workers ::
  "ClusterNode list \<Rightarrow> u32 \<Rightarrow> usize \<Rightarrow> QuorumWorker list \<times> LocalQuorumWorkerTaskType list list" where
  "create_quorum_workers cluster_nodes node_id max_size =
     (map (\<lambda>node. new_quorum_worker node_id 0 (ucast (cln_node_id node)) max_size) cluster_nodes,
      map (\<lambda>_. []) cluster_nodes)"

definition create_write_proxy ::
  "AppQueues \<Rightarrow> u32 \<Rightarrow> u64 \<Rightarrow> u64 \<Rightarrow> LocalQuorumWorkerTaskType list list \<Rightarrow> WriteProxy" where
  "create_write_proxy queues node_id max_batch_size min_batch_interval_ms send_channels =
     new_write_proxy (aq_write_work_queue queues) max_batch_size node_id min_batch_interval_ms (length send_channels)"

text \<open>The listeners' address is the loopback address with the port, as text that is parsed.\<close>

definition listen_addr :: "u32 \<Rightarrow> SocketAddr result" where
  "listen_addr port =
     (case parse_socket_addr (''[::1]:'' @ show_nat (unat port)) of
        None \<Rightarrow> Inl ExpectFailed
      | Some addr \<Rightarrow> Inr addr)"

definition create_cluster_stream_manager :: "u32 \<Rightarrow> ClusterNode list \<Rightarrow> u32 \<Rightarrow> ClusterStreamManager result" where
  "create_cluster_stream_manager node_id cluster_nodes cluster_port =
     bind_res (listen_addr cluster_port) (\<lambda>capnp_addr. Inr (new_stream_manager node_id cluster_nodes capnp_addr))"

section \<open>The server\<close>

record Server =
  sv_node :: Executor
  sv_persistence :: PersistenceWorker
  sv_quorum_workers :: "QuorumWorker list"
  sv_write_proxy :: WriteProxy
  sv_query_worker :: QueryWorker
  sv_stream_manager :: ClusterStreamManager
  sv_metrics_port :: "16 word"
  sv_datastore :: "SocketAddr option"

datatype start_error =
    Invalid_Config string
  | Unreadable_Files
  | Start_Panic panic

definition cluster_nodes_without_self :: "AppConfig \<Rightarrow> ClusterNode list" where
  "cluster_nodes_without_self cfg = filter (\<lambda>n. cln_node_id n \<noteq> cfg_node_id cfg) (cfg_cluster_nodes cfg)"

definition start_server ::
  "string option \<Rightarrow> (string \<Rightarrow> bool) \<Rightarrow> (config_source list \<Rightarrow> string + AppConfig) \<Rightarrow>
     capnp \<Rightarrow> csv \<Rightarrow> env \<Rightarrow> (nat \<Rightarrow> bool) \<Rightarrow> (callback \<Rightarrow> bool) \<Rightarrow> u8 list \<Rightarrow> u8 list \<Rightarrow> start_error + Server" where
  "start_server resource_dir exists load cp cv ev bus_answers alive logf votesf =
     (case read_config resource_dir exists load of
        Inl error \<Rightarrow> Inl (Invalid_Config error)
      | Inr cfg \<Rightarrow>
          let nodes = cluster_nodes_without_self cfg in
          (case start_node cp cv ev bus_answers alive (length nodes) (length (cfg_cluster_nodes cfg)) (cfg_node_id cfg)
                  (cfg_max_message_size_bytes cfg) logf votesf of
             None \<Rightarrow> Inl Unreadable_Files
           | Some (node, persistence) \<Rightarrow>
               let (workers, send_channels) = create_quorum_workers nodes (cfg_node_id cfg) (cfg_max_message_size_bytes cfg) in
               (case create_cluster_stream_manager (cfg_node_id cfg) nodes (cfg_cluster_port cfg) of
                  Inl p \<Rightarrow> Inl (Start_Panic p)
                | Inr manager \<Rightarrow>
                    (case (if cfg_tcp_datastore_port cfg > 0
                           then map_sum id Some (listen_addr (cfg_tcp_datastore_port cfg))
                           else Inr None) of
                       Inl p \<Rightarrow> Inl (Start_Panic p)
                     | Inr datastore \<Rightarrow>
                         Inr \<lparr> sv_node = node, sv_persistence = persistence, sv_quorum_workers = workers,
                               sv_write_proxy = create_write_proxy new_app_queues (cfg_node_id cfg) (cfg_max_batch_size cfg)
                                                  (cfg_min_batch_interval_ms cfg) send_channels,
                               sv_query_worker = new_query_worker, sv_stream_manager = manager,
                               sv_metrics_port = ucast (cfg_metrics_port cfg), sv_datastore = datastore \<rparr>))))"

section \<open>Properties\<close>

lemma ucast_of_nat_u32: "n < 2 ^ 32 \<Longrightarrow> (ucast (of_nat n :: u32) :: u64) = of_nat n"
  by (subst of_nat_unat [symmetric], subst unat_of_nat) simp

lemma saturating_sub_of_nat:
  assumes "k \<le> n" "n < 2 ^ 32"
  shows "unat (saturating_sub (of_nat n :: u64) (of_nat k)) = n - k"
proof -
  have u: "unat (of_nat n :: u64) = n" "unat (of_nat k :: u64) = k"
    using assms by (simp_all add: unat_of_nat)
  then have "(of_nat k :: u64) \<le> of_nat n" using assms(1) by (simp add: word_le_nat_alt)
  with u show ?thesis by (simp add: saturating_sub_def unat_sub)
qed

text \<open>The leader's replication code and the write proxy number the workers in the same way.\<close>

lemma worker_indices_agree:
  assumes "1 \<le> self" "self < 2 ^ 32" "1 \<le> peer" "peer < 2 ^ 32" "peer \<noteq> self"
  shows "get_quorum_worker_index (of_nat peer) (of_nat self) = leader_quorum_worker_index (of_nat peer) (of_nat self)"
proof -
  have p: "unat (of_nat peer :: u32) = peer" "unat (of_nat self :: u32) = self"
    using assms by (subst unat_of_nat; simp)+
  have q: "unat (of_nat peer :: u64) = peer" "unat (of_nat self :: u64) = self"
    using assms by (subst unat_of_nat; simp)+
  have "(of_nat peer :: u64) \<noteq> 0" using q(1) assms(3) by auto
  moreover have "((of_nat peer :: u64) > ucast (of_nat self :: u32)) = (\<not> (of_nat peer :: u32) < of_nat self)"
    using p q assms(5) by (simp add: ucast_of_nat_u32 [OF assms(2)] word_less_nat_alt) linarith
  moreover have "unat (saturating_sub (of_nat peer :: u64) 1) = unat ((of_nat peer :: u32) - 1)"
    using saturating_sub_of_nat [of 1 peer] assms(3,4) p(1) by (simp add: unat_sub word_le_nat_alt)
  moreover have "unat (saturating_sub (of_nat peer :: u64) 2) = unat ((of_nat peer :: u32) - 2)" if "2 \<le> peer"
    using saturating_sub_of_nat [of 2 peer] assms(4) p(1) that by (simp add: unat_sub word_le_nat_alt)
  moreover have "2 \<le> peer" if "\<not> (of_nat peer :: u32) < of_nat self"
    using that p assms(1,5) by (simp add: word_less_nat_alt)
  ultimately show ?thesis
    by (simp add: get_quorum_worker_index_def leader_quorum_worker_index_def)
qed

text \<open>A validated configuration passes the start-up, and reading gives only validated ones.\<close>

lemma port_listens:
  "port \<le> 65535 \<Longrightarrow> listen_addr port = Inr (SocketAddr_V6 [0, 0, 0, 0, 0, 0, 0, 1] 0 (unat port))"
  using parse_loopback [of "unat port"] by (simp add: listen_addr_def word_le_nat_alt)

lemma metrics_port_kept: "port \<le> (65535 :: u32) \<Longrightarrow> unat (ucast port :: 16 word) = unat port"
  by (simp add: unsigned_ucast_eq word_le_nat_alt take_bit_nat_eq_self)

lemma read_config_okD: "read_config dir exists load = Inr cfg \<Longrightarrow> config_ok cfg"
  by (auto simp: read_config_def validate_accepts split: sum.splits)

lemma endpoints_parse:
  assumes "config_ok cfg" "outbound_senders m = (\<lambda>_. None)" "csm_cluster_nodes m = cluster_nodes_without_self cfg"
  shows "fst (get_or_connect started node m) \<noteq> Inl (InvalidEndpoint e)"
proof -
  have "parse_socket_addr (cln_endpoint n) \<noteq> None" if "n \<in> set (cluster_nodes_without_self cfg)" for n
    using that assms(1) by (auto simp: config_ok_def list_all_iff cluster_nodes_without_self_def)
  moreover have "n \<in> set (cluster_nodes_without_self cfg)"
    if "find (\<lambda>n. cln_node_id n = node) (cluster_nodes_without_self cfg) = Some n" for n
    using that by (auto simp: find_Some_iff)
  ultimately have "parse_socket_addr (cln_endpoint n) \<noteq> None"
    if "find (\<lambda>n. cln_node_id n = node) (cluster_nodes_without_self cfg) = Some n" for n
    using that by blast
  then show ?thesis
    by (cases "find (\<lambda>n. cln_node_id n = node) (cluster_nodes_without_self cfg)")
       (auto simp: assms(2,3) get_or_connect_def Let_def split: option.splits sum.splits)
qed

text \<open>What a started server consists of.\<close>

lemma start_server_InrD:
  assumes "start_server dir exists load cp cv ev ba alive logf votesf = Inr sv" "read_config dir exists load = Inr cfg"
  shows "start_node cp cv ev ba alive (length (cluster_nodes_without_self cfg)) (length (cfg_cluster_nodes cfg)) (cfg_node_id cfg)
       (cfg_max_message_size_bytes cfg) logf votesf = Some (sv_node sv, sv_persistence sv)"
    "sv_quorum_workers sv = map (\<lambda>node. new_quorum_worker (cfg_node_id cfg) 0 (ucast (cln_node_id node)) (cfg_max_message_size_bytes cfg))
       (cluster_nodes_without_self cfg)"
    "wp_quorum_worker_tasks (sv_write_proxy sv) = replicate (length (cluster_nodes_without_self cfg)) []"
    "wp_max_batch_size (sv_write_proxy sv) = cfg_max_batch_size cfg" "wp_self_id (sv_write_proxy sv) = cfg_node_id cfg"
    "sv_metrics_port sv = ucast (cfg_metrics_port cfg)"
    "outbound_senders (sv_stream_manager sv) = (\<lambda>_. None)"
    "csm_cluster_nodes (sv_stream_manager sv) = cluster_nodes_without_self cfg"
  using assms
  by (auto simp: start_server_def Let_def create_quorum_workers_def create_write_proxy_def new_write_proxy_def
      create_cluster_stream_manager_def new_stream_manager_def bind_res_def split: sum.splits option.splits prod.splits)

lemma start_server_listens:
  assumes "start_server dir exists load cp cv ev ba alive logf votesf = Inr sv" "read_config dir exists load = Inr cfg"
  shows "csm_listen_addr (sv_stream_manager sv) = SocketAddr_V6 [0, 0, 0, 0, 0, 0, 0, 1] 0 (unat (cfg_cluster_port cfg))"
  using assms read_config_okD [OF assms(2)]
  by (auto simp: start_server_def Let_def create_cluster_stream_manager_def new_stream_manager_def port_listens
      config_ok_def split: sum.splits option.splits prod.splits)

lemma start_node_state:
  assumes "start_node cp cv ev ba alive k n node sz logf votesf = Some (x, w)"
  shows "quorum_worker_tasks (shared_state x) = replicate k []" "quorum_size (shared_state x) = cluster_quorum_size n"
    "identity (shared_state x) = node"
  using assms
  by (auto simp: start_node_def Let_def new_executor_def create_shared_state_def split: Option.bind_splits)

lemma other_node_ids:
  assumes "map cln_node_id nodes = map of_nat [1 ..< Suc n]" "n < 2 ^ 32" "self \<le> n"
  shows "map cln_node_id (filter (\<lambda>x. cln_node_id x \<noteq> of_nat self) nodes) = map of_nat (filter (\<lambda>i. i \<noteq> self) [1 ..< Suc n])"
proof -
  have eq: "((of_nat i :: u32) \<noteq> of_nat self) = (i \<noteq> self)" if "i \<in> set [1 ..< Suc n]" for i
    using that assms(2,3) by (auto simp: word_unat_eq_iff unat_of_nat)
  have "map cln_node_id (filter (\<lambda>x. cln_node_id x \<noteq> of_nat self) nodes) = filter (\<lambda>i. i \<noteq> of_nat self) (map cln_node_id nodes)"
    by (simp add: filter_map comp_def)
  also have "\<dots> = map of_nat (filter (\<lambda>i. (of_nat i :: u32) \<noteq> of_nat self) [1 ..< Suc n])"
    by (simp only: assms(1) filter_map comp_def)
  also have "\<dots> = map of_nat (filter (\<lambda>i. i \<noteq> self) [1 ..< Suc n])"
    by (rule arg_cong [where f = "map of_nat"], rule filter_cong) (simp_all only: eq)
  finally show ?thesis .
qed

text \<open>Validation has excluded the panics of the start-up.\<close>

lemma start_server_no_panic: "start_server dir exists load cp cv ev ba alive logf votesf \<noteq> Inl (Start_Panic p)"
proof (cases "read_config dir exists load")
  case (Inr cfg)
  then show ?thesis
    using read_config_okD [OF Inr]
    by (auto simp: start_server_def Let_def create_cluster_stream_manager_def port_listens config_ok_def
        split: sum.splits option.splits prod.splits)
qed (simp add: start_server_def)

text \<open>
  C28: The start-up connects every component to the right worker. When a server starts with
  an accepted configuration whose nodes are numbered from 1, then for every other node the
  write proxy and the leader's replication code compute the same index, the quorum worker
  at this index is the one for that node, both have one task queue for each worker, the
  quorum size is that of the configured cluster, the proxy's batch limit is positive, the
  cluster listener has the loopback address with the configured port, the metrics server gets
  the configured port although it is narrowed to 16 bits, and no connection attempt can fail
  because of the text of an endpoint.
\<close>

theorem startup_wires_workers:
  assumes "start_server dir exists load cp cv ev ba alive logf votesf = Inr sv" "read_config dir exists load = Inr cfg"
    and "map cln_node_id (cfg_cluster_nodes cfg) = map of_nat [1 ..< Suc n]" "n < 2 ^ 32"
    and "cfg_node_id cfg = of_nat self" "1 \<le> self" "self \<le> n" "1 \<le> peer" "peer \<le> n" "peer \<noteq> self"
    and "i = leader_quorum_worker_index (of_nat peer) (wp_self_id (sv_write_proxy sv))"
  shows "get_quorum_worker_index (of_nat peer) (identity (shared_state (sv_node sv))) = i \<and>
    i < length (sv_quorum_workers sv) \<and> qw_member_id (sv_quorum_workers sv ! i) = of_nat peer \<and>
    length (quorum_worker_tasks (shared_state (sv_node sv))) = length (sv_quorum_workers sv) \<and>
    length (wp_quorum_worker_tasks (sv_write_proxy sv)) = length (sv_quorum_workers sv) \<and>
    quorum_size (shared_state (sv_node sv)) = cluster_quorum_size n \<and> 0 < wp_max_batch_size (sv_write_proxy sv) \<and>
    csm_listen_addr (sv_stream_manager sv) = SocketAddr_V6 [0, 0, 0, 0, 0, 0, 0, 1] 0 (unat (cfg_cluster_port cfg)) \<and>
    unat (sv_metrics_port sv) = unat (cfg_metrics_port cfg) \<and>
    fst (get_or_connect started node (sv_stream_manager sv)) \<noteq> Inl (InvalidEndpoint text)"
proof -
  note sv = start_server_InrD [OF assms(1,2)]
  note node = start_node_state [OF sv(1)]
  have ok: "config_ok cfg" by (rule read_config_okD [OF assms(2)])
  define others where "others = filter (\<lambda>i. i \<noteq> self) [1 ..< Suc n]"
  have ids: "map cln_node_id (cluster_nodes_without_self cfg) = map of_nat others"
    unfolding cluster_nodes_without_self_def assms(5) others_def by (rule other_node_ids [OF assms(3,4,7)])
  then have len: "length (cluster_nodes_without_self cfg) = length others" by (metis length_map)
  have i: "i < length others" "others ! i = peer"
    using leader_worker_index_correct [OF assms(6-10) assms(4) others_def] by (simp_all add: assms(5,11) sv(5))
  have "cln_node_id (cluster_nodes_without_self cfg ! i) = of_nat peer"
    using arg_cong [OF ids, of "\<lambda>xs. xs ! i"] i len by simp
  moreover have "(ucast (of_nat peer :: u32) :: u64) = of_nat peer"
    using assms(4,9) by (intro ucast_of_nat_u32) simp
  ultimately have "qw_member_id (sv_quorum_workers sv ! i) = of_nat peer"
    using i(1) len by (simp add: sv(2) new_quorum_worker_def)
  moreover have "get_quorum_worker_index (of_nat peer) (identity (shared_state (sv_node sv))) = i"
    using worker_indices_agree [of self peer] assms(4,6-10) by (simp add: node(3) assms(5,11) sv(5))
  moreover have "length (cfg_cluster_nodes cfg) = n"
    using arg_cong [OF assms(3), of length] by simp
  moreover have "0 < cfg_max_batch_size cfg" "unat (ucast (cfg_metrics_port cfg) :: 16 word) = unat (cfg_metrics_port cfg)"
    using ok metrics_port_kept by (simp_all add: config_ok_def)
  ultimately show ?thesis
    using i(1) len start_server_listens [OF assms(1,2)] endpoints_parse [OF ok sv(7,8)]
    by (simp add: sv(2-4,6) node(1,2))
qed

definition sample_config :: AppConfig where
  "sample_config =
     \<lparr> cfg_persistence_dir = ''out/'', cfg_metrics_port = 51051, cfg_node_id = 1,
       cfg_cluster_nodes = [\<lparr> cln_endpoint = ''[::1]:51151'', cln_node_id = 1 \<rparr>,
                            \<lparr> cln_endpoint = ''[::1]:51152'', cln_node_id = 2 \<rparr>,
                            \<lparr> cln_endpoint = ''[::1]:51153'', cln_node_id = 3 \<rparr>],
       cfg_max_message_size_bytes = 4096, cfg_min_batch_interval_ms = 2, cfg_max_batch_size = 512,
       cfg_enable_otel_tracing = False, cfg_cluster_port = 51151, cfg_tcp_datastore_port = 49011 \<rparr>"

lemma sample_config_simps:
  "cfg_node_id sample_config = 1" "cfg_max_message_size_bytes sample_config = 4096"
  "cfg_cluster_port sample_config = 51151" "cfg_tcp_datastore_port sample_config = 49011"
  "length (cfg_cluster_nodes sample_config) = 3" "length (cluster_nodes_without_self sample_config) = 2"
  "map cln_node_id (cfg_cluster_nodes sample_config) = map of_nat [1 ..< Suc 3]"
  by (simp_all add: sample_config_def cluster_nodes_without_self_def upt_rec)

text \<open>The configuration is in the file of the first location, whatever the environment holds.\<close>

definition sample_load :: "config_source list \<Rightarrow> string + AppConfig" where
  "sample_load sources =
     (if sources = [Source_File ''resources/application.toml'', Source_Environment ''APP''] then Inr sample_config
      else Inl ''missing field'')"

abbreviation sample_exists :: "string \<Rightarrow> bool" where
  "sample_exists f \<equiv> f = ''resources/application.toml''"

lemma sample_config_ok: "config_ok sample_config"
proof -
  have "show_nat 51151 = ''51151''" "show_nat 51152 = ''51152''" "show_nat 51153 = ''51153''" by (simp_all add: show_nat.simps char_of_def bit_0)
  then have "is_socket_addr ''[::1]:51151''" "is_socket_addr ''[::1]:51152''" "is_socket_addr ''[::1]:51153''"
    using parse_loopback [of 51151] parse_loopback [of 51152] parse_loopback [of 51153] by simp_all
  then show ?thesis by (simp add: config_ok_def sample_config_def)
qed

lemma sample_config_read: "read_config None sample_exists sample_load = Inr sample_config"
  using sample_config_ok validate_accepts [of sample_config "()"]
  by (simp add: read_config_def sample_load_def config_sources_def search_locations_def)

abbreviation sample_start :: "start_error + Server" where
  "sample_start \<equiv> start_server None sample_exists sample_load sample_capnp sample_csv sample_env (\<lambda>_. True) (\<lambda>_. True) [] []"

lemma sample_config_starts:
  obtains sv where "sample_start = Inr sv"
proof -
  have "log_ok sample_capnp []" by (simp add: log_ok_def)
  then obtain x w where "start_node sample_capnp sample_csv sample_env (\<lambda>_. True) (\<lambda>_. True) 2 3 1 4096
      (concat (map as_bytes [])) (concat (map (csv_write_row sample_csv) [])) = Some (x, w)"
    using start_node_recovers [OF sample_csv_law] by blast
  then have "start_node sample_capnp sample_csv sample_env (\<lambda>_. True) (\<lambda>_. True) 2 3 1 4096 [] [] = Some (x, w)" by simp
  then show ?thesis
    using that by (simp add: start_server_def sample_config_read Let_def create_quorum_workers_def
        create_cluster_stream_manager_def port_listens sample_config_simps)
qed

theorem startup_wires_workers_witness:
  "\<exists>sv. sample_start = Inr sv \<and>
     qw_member_id (sv_quorum_workers sv ! leader_quorum_worker_index 3 1) = 3 \<and>
     get_quorum_worker_index 3 1 = leader_quorum_worker_index 3 1 \<and> quorum_size (shared_state (sv_node sv)) = 2 \<and>
     csm_listen_addr (sv_stream_manager sv) = SocketAddr_V6 [0, 0, 0, 0, 0, 0, 0, 1] 0 51151"
proof -
  obtain sv where sv: "sample_start = Inr sv"
    by (rule sample_config_starts)
  have "cfg_node_id sample_config = of_nat 1" by (simp add: sample_config_simps)
  from startup_wires_workers [OF sv sample_config_read sample_config_simps(7) _ this, of 3, OF _ _ _ _ _ _ refl] sv
    start_server_InrD(5) [OF sv sample_config_read] start_node_state(3) [OF start_server_InrD(1) [OF sv sample_config_read]]
  show ?thesis by (simp add: cluster_quorum_size_def sample_config_simps)
qed

end
