(* ===== verification/Service_Errors.thy ===== *)
theory Service_Errors
  imports App_Config
begin

text \<open>
  The errors of \<open>service_utils/errors.rs\<close>, their texts, and the equality that the code
  defines for them, which compares the contents of one variant only.
\<close>

datatype ServiceError =
    ThrottlingError string
  | RaceConditionError
  | ConnectionError u32 string
  | ConnectionLost u32 string
  | TimeoutError string u64
  | MessageTooLarge usize usize
  | NotLeader "u32 option"
  | QuorumNotReached u32 u32
  | TermMismatch u64 u64
  | LogEntryRejected u64 string
  | PersistenceWriteError string
  | PersistenceReadError string
  | DataCorruption string
  | ConfigError string string
  | MissingConfig string
  | SerializationError string
  | DeserializationError string
  | ChannelSendError string
  | ChannelRecvError string
  | ChannelFull string
  | InternalError string
  | Cancelled string

definition quoted :: "string \<Rightarrow> string" where
  "quoted t = [quote_char] @ t @ [quote_char]"

fun fmt_service_error :: "ServiceError \<Rightarrow> string" where
  "fmt_service_error (ThrottlingError msg) = ''Throttling: '' @ msg"
| "fmt_service_error RaceConditionError = ''Race condition detected''"
| "fmt_service_error (ConnectionError node_id message) =
     ''Connection error to node '' @ show_nat (unat node_id) @ '': '' @ message"
| "fmt_service_error (ConnectionLost node_id message) =
     ''Connection lost to node '' @ show_nat (unat node_id) @ '': '' @ message"
| "fmt_service_error (TimeoutError operation timeout_ms) =
     ''Timeout after '' @ show_nat (unat timeout_ms) @ ''ms during: '' @ operation"
| "fmt_service_error (MessageTooLarge sz max_size) =
     ''Message size '' @ show_nat sz @ '' exceeds maximum '' @ show_nat max_size"
| "fmt_service_error (NotLeader leader_id) =
     (case leader_id of
        Some i \<Rightarrow> ''Not leader, current leader is node '' @ show_nat (unat i)
      | None \<Rightarrow> ''Not leader, leader unknown'')"
| "fmt_service_error (QuorumNotReached required achieved) =
     ''Quorum not reached: need '' @ show_nat (unat required) @ '', got '' @ show_nat (unat achieved)"
| "fmt_service_error (TermMismatch expected actual) =
     ''Term mismatch: expected '' @ show_nat (unat expected) @ '', got '' @ show_nat (unat actual)"
| "fmt_service_error (LogEntryRejected index reason) =
     ''Log entry at index '' @ show_nat (unat index) @ '' rejected: '' @ reason"
| "fmt_service_error (PersistenceWriteError message) = ''Persistence write error: '' @ message"
| "fmt_service_error (PersistenceReadError message) = ''Persistence read error: '' @ message"
| "fmt_service_error (DataCorruption message) = ''Data corruption: '' @ message"
| "fmt_service_error (ConfigError field message) = ''Config error in '' @ quoted field @ '': '' @ message"
| "fmt_service_error (MissingConfig field) = ''Missing required config: '' @ field"
| "fmt_service_error (SerializationError message) = ''Serialization error: '' @ message"
| "fmt_service_error (DeserializationError message) = ''Deserialization error: '' @ message"
| "fmt_service_error (ChannelSendError channel) = ''Channel send error on '' @ quoted channel"
| "fmt_service_error (ChannelRecvError channel) = ''Channel receive error on '' @ quoted channel"
| "fmt_service_error (ChannelFull channel) = ''Channel '' @ quoted channel @ '' is full''"
| "fmt_service_error (InternalError message) = ''Internal error: '' @ message"
| "fmt_service_error (Cancelled operation) = ''Operation cancelled: '' @ operation"

text \<open>\<open>mem::discriminant\<close>: the position of the variant.\<close>

fun discriminant :: "ServiceError \<Rightarrow> nat" where
  "discriminant (ThrottlingError _) = 0"
| "discriminant RaceConditionError = 1"
| "discriminant (ConnectionError _ _) = 2"
| "discriminant (ConnectionLost _ _) = 3"
| "discriminant (TimeoutError _ _) = 4"
| "discriminant (MessageTooLarge _ _) = 5"
| "discriminant (NotLeader _) = 6"
| "discriminant (QuorumNotReached _ _) = 7"
| "discriminant (TermMismatch _ _) = 8"
| "discriminant (LogEntryRejected _ _) = 9"
| "discriminant (PersistenceWriteError _) = 10"
| "discriminant (PersistenceReadError _) = 11"
| "discriminant (DataCorruption _) = 12"
| "discriminant (ConfigError _ _) = 13"
| "discriminant (MissingConfig _) = 14"
| "discriminant (SerializationError _) = 15"
| "discriminant (DeserializationError _) = 16"
| "discriminant (ChannelSendError _) = 17"
| "discriminant (ChannelRecvError _) = 18"
| "discriminant (ChannelFull _) = 19"
| "discriminant (InternalError _) = 20"
| "discriminant (Cancelled _) = 21"

definition service_error_eq :: "ServiceError \<Rightarrow> ServiceError \<Rightarrow> bool" where
  "service_error_eq a b =
     (case (a, b) of
        (ThrottlingError x, ThrottlingError y) \<Rightarrow> x = y
      | (RaceConditionError, RaceConditionError) \<Rightarrow> True
      | _ \<Rightarrow> discriminant a = discriminant b)"

definition map_channel_err :: "string \<Rightarrow> unit + 'a \<Rightarrow> ServiceError + 'a" where
  "map_channel_err channel_name r = (case r of Inl _ \<Rightarrow> Inl (ChannelSendError channel_name) | Inr x \<Rightarrow> Inr x)"

text \<open>
  What \<open>==\<close> looks at: the variant, and for throttling the text.
\<close>

definition eq_key :: "ServiceError \<Rightarrow> nat \<times> string" where
  "eq_key e = (discriminant e, case e of ThrottlingError t \<Rightarrow> t | _ \<Rightarrow> [])"

lemma service_error_eq_key: "service_error_eq a b \<longleftrightarrow> eq_key a = eq_key b"
  by (cases a; cases b) (simp_all add: service_error_eq_def eq_key_def)

text \<open>The equality is an equivalence, and coarser than the equality of the values.\<close>

lemma service_error_equiv: "equivp service_error_eq"
  by (rule equivpI) (auto simp: reflp_def symp_def transp_def service_error_eq_key)

lemma service_error_eq_coarse: "service_error_eq (TermMismatch 1 2) (TermMismatch 3 4)"
  by (simp add: service_error_eq_def)

end
