(* ===== verification/Task_Buffer.thy ===== *)
theory Task_Buffer
  imports Service_Errors Step_System
begin

text \<open>
  The buffer of \<open>runtime_core/task_buffer.rs\<close>. Several threads claim spots with a
  compare-and-exchange loop; the loop is modelled step by step, so that a schedule is a
  list of the threads' atomic operations. \<open>put_task\<close> and \<open>get_task\<close> have exclusive access.
\<close>

section \<open>The buffer\<close>

record 'a TaskBufferImpl =
  read_index :: u64
  write_index :: u64
  tasks :: "'a list"

definition new_task_buffer :: "'a TaskBufferImpl" where
  "new_task_buffer = \<lparr> read_index = 0, write_index = 0, tasks = [] \<rparr>"

definition peek_size :: "'a TaskBufferImpl \<Rightarrow> u64" where
  "peek_size b = write_index b - read_index b"

text \<open>\<open>Vec::insert\<close> at a position that is in range by the remainder.\<close>

definition put_task :: "'a \<Rightarrow> u64 \<Rightarrow> 'a TaskBufferImpl \<Rightarrow> 'a TaskBufferImpl result" where
  "put_task task spot b =
     (if tasks b = [] then Inl DivisionByZero
      else let i = unat spot mod length (tasks b) in
        Inr (b\<lparr>tasks := take i (tasks b) @ task # drop i (tasks b)\<rparr>))"

definition get_task :: "'a TaskBufferImpl \<Rightarrow> ('a \<times> 'a TaskBufferImpl) result" where
  "get_task b =
     (if tasks b = [] then Inl DivisionByZero
      else Inr (tasks b ! (unat (read_index b) mod length (tasks b)), b\<lparr>read_index := read_index b + 1\<rparr>))"

section \<open>Claiming a spot\<close>

definition MAX_RETRIES :: nat where
  "MAX_RETRIES = 100"

text \<open>
  Where a thread is in \<open>claim_spot\<close>: before the load of its \<open>n\<close>-th attempt, before the
  exchange with the index that it loaded, or returned.
\<close>

datatype claim_state =
    Claim_Load nat
  | Claim_Exchange nat u64
  | Claimed u64
  | Claim_Failed ServiceError

text \<open>
  One atomic operation of a thread on the write index. The weak exchange may fail
  although the index has not changed.
\<close>

fun claim_step :: "bool \<Rightarrow> u64 \<Rightarrow> claim_state \<Rightarrow> u64 \<times> claim_state" where
  "claim_step spurious w (Claim_Load n) =
     (w, if n \<ge> MAX_RETRIES then Claim_Failed RaceConditionError
         else if w = u64_max then Claim_Failed (ThrottlingError ''Write index overflow'')
         else Claim_Exchange n w)"
| "claim_step spurious w (Claim_Exchange n idx) =
     (if w = idx \<and> \<not> spurious then (idx + 1, Claimed idx) else (w, Claim_Load (Suc n)))"
| "claim_step spurious w s = (w, s)"

text \<open>A schedule: which thread moves, and whether its exchange fails spuriously.\<close>

fun claim_run :: "(nat \<times> bool) list \<Rightarrow> u64 \<times> (nat \<Rightarrow> claim_state) \<Rightarrow> u64 \<times> (nat \<Rightarrow> claim_state)" where
  "claim_run [] c = c"
| "claim_run ((t, spurious) # sched) (w, th) =
     (let (w', s) = claim_step spurious w (th t) in claim_run sched (w', th(t := s)))"

text \<open>A call without other threads and without spurious failures.\<close>

definition claim_spot :: "'a TaskBufferImpl \<Rightarrow> claim_state \<times> 'a TaskBufferImpl" where
  "claim_spot b =
     (let (w, th) = claim_run [(0, False), (0, False)] (write_index b, \<lambda>_. Claim_Load 0) in
      (th 0, b\<lparr>write_index := w\<rparr>))"

section \<open>Properties\<close>

definition spots :: "(nat \<Rightarrow> claim_state) \<Rightarrow> u64 set" where
  "spots th = {i. \<exists>t. th t = Claimed i}"

text \<open>
  The invariant of a run that started at \<open>w0\<close>: the claimed spots are those from \<open>w0\<close> up
  to the write index, no two threads have the same one, and a loaded index has a
  successor.
\<close>

definition claims_inv :: "u64 \<Rightarrow> u64 \<times> (nat \<Rightarrow> claim_state) \<Rightarrow> bool" where
  "claims_inv w0 = (\<lambda>(w, th).
     w0 \<le> w \<and> spots th = {w0..<w} \<and> inj_on th {t. \<exists>i. th t = Claimed i} \<and>
     (\<forall>t n i. th t = Claim_Exchange n i \<longrightarrow> i \<noteq> u64_max))"

lemma claims_inv_frame:
  assumes "claims_inv w0 (w, th)" "\<nexists>i. th t = Claimed i" "\<nexists>i. s = Claimed i"
    "\<forall>n i. s = Claim_Exchange n i \<longrightarrow> i \<noteq> u64_max"
  shows "claims_inv w0 (w, th(t := s))"
proof -
  have "spots (th(t := s)) = spots th" "{u. \<exists>i. (th(t := s)) u = Claimed i} = {u. \<exists>i. th u = Claimed i}"
    using assms(2,3) by (auto simp: spots_def split: if_splits)
  moreover have "inj_on (th(t := s)) {u. \<exists>i. th u = Claimed i}"
    using assms(1,2) unfolding claims_inv_def by (subst inj_on_cong [of _ _ th]) auto
  ultimately show ?thesis
    using assms by (auto simp: claims_inv_def)
qed

lemma claims_inv_claimed:
  assumes "claims_inv w0 (w, th)" "th t = Claim_Exchange n w"
  shows "claims_inv w0 (w + 1, th(t := Claimed w))"
proof -
  have w: "w \<noteq> u64_max" "w0 \<le> w" "spots th = {w0..<w}" "inj_on th {t. \<exists>i. th t = Claimed i}"
    using assms by (auto simp: claims_inv_def)
  then have Suc: "unat (w + 1) = Suc (unat w)" by (simp add: unat_inc)
  have "{w0..<w + 1} = insert w {w0..<w}"
    using w(2) by (auto simp: word_less_nat_alt word_le_nat_alt Suc less_Suc_eq word_unat_eq_iff)
  moreover have "spots (th(t := Claimed w)) = insert w (spots th)"
    using assms(2) by (force simp: spots_def)
  moreover have "inj_on (th(t := Claimed w)) {u. \<exists>i. (th(t := Claimed w)) u = Claimed i}"
  proof (rule inj_onI)
    fix u v assume uv: "u \<in> {u. \<exists>i. (th(t := Claimed w)) u = Claimed i}" "v \<in> {u. \<exists>i. (th(t := Claimed w)) u = Claimed i}"
      "(th(t := Claimed w)) u = (th(t := Claimed w)) v"
    have "th x \<noteq> Claimed w" for x using w(3) by (auto simp: spots_def)
    with uv w(4) show "u = v" by (auto simp: inj_on_def split: if_splits)
  qed
  moreover have "w0 \<le> w + 1" using w(2) by (simp add: word_le_nat_alt Suc)
  ultimately show ?thesis using assms w by (auto simp: claims_inv_def)
qed

lemma claim_step_inv:
  assumes "claims_inv w0 (w, th)" "claim_step spurious w (th t) = (w', s)"
  shows "claims_inv w0 (w', th(t := s))"
proof (cases "th t")
  case (Claim_Load n)
  with assms show ?thesis by (auto intro!: claims_inv_frame split: if_splits)
next
  case (Claim_Exchange n idx)
  show ?thesis
  proof (cases "w = idx \<and> \<not> spurious")
    case True
    with assms Claim_Exchange show ?thesis by (auto intro: claims_inv_claimed)
  next
    case False
    with assms Claim_Exchange have "w' = w" "s = Claim_Load (Suc n)" by auto
    with assms(1) Claim_Exchange show ?thesis by (auto intro!: claims_inv_frame)
  qed
qed (use assms in \<open>auto simp: fun_upd_idem\<close>)

text \<open>One move of a thread in the shared state, and the schedules as runs of such moves.\<close>

definition claim_move :: "nat \<times> bool \<Rightarrow> u64 \<times> (nat \<Rightarrow> claim_state) \<Rightarrow> (u64 \<times> (nat \<Rightarrow> claim_state)) result" where
  "claim_move = (\<lambda>(t, spurious) (w, th). let (w', s) = claim_step spurious w (th t) in Inr (w', th(t := s)))"

lemma claim_run_moves: "fold_res claim_move sched c = Inr (claim_run sched c)"
  by (induction sched c rule: claim_run.induct) (simp_all add: claim_move_def Let_def split_beta)

interpretation claims: step_system claim_move "\<lambda>_. True" "claims_inv w0"
  by unfold_locales (auto simp: claim_move_def Let_def split: prod.splits intro: claim_step_inv)

text \<open>
  C26: Every spot is claimed once. However the threads' loads and exchanges are
  interleaved, and whichever exchanges fail spuriously, the spots returned so far are
  exactly the indices from the initial to the current write index, without a gap, and no
  two threads have the same one; the index never wraps.
\<close>

theorem claimed_spots_unique:
  assumes "claim_run sched (w0, \<lambda>_. Claim_Load 0) = (w, th)"
  shows "{i. \<exists>t. th t = Claimed i} = {w0..<w} \<and> w0 \<le> w \<and>
    (\<forall>t u i. th t = Claimed i \<and> th u = Claimed i \<longrightarrow> t = u)"
proof -
  have "claims_inv w0 (w0, \<lambda>_. Claim_Load 0)" by (simp add: claims_inv_def spots_def)
  from claims.run_inv [OF _ this claim_run_moves, of sched] assms have "claims_inv w0 (w, th)"
    by (simp add: list_all_iff)
  then show ?thesis by (auto simp: claims_inv_def spots_def inj_on_def)
qed

theorem claimed_spots_unique_witness:
  "\<exists>th. claim_run [(0, False), (1, False), (1, False), (0, False), (0, False), (0, False)] (5, \<lambda>_. Claim_Load 0) = (7, th) \<and>
     th 1 = Claimed 5 \<and> th 0 = Claimed 6 \<and> {i. \<exists>t. th t = Claimed i} = {5..<7}"
proof -
  let ?sched = "[(0, False), (1, False), (1, False), (0, False), (0, False), (0, False)] :: (nat \<times> bool) list"
  obtain th where th: "claim_run ?sched (5, \<lambda>_. Claim_Load 0) = (7, th)" "th 1 = Claimed 5" "th 0 = Claimed 6"
    by (simp add: MAX_RETRIES_def)
  with claimed_spots_unique [OF th(1)] show ?thesis by blast
qed

text \<open>
  The buffer never holds a task: it starts empty, and storing into or reading from the
  empty buffer divides by its length.
\<close>

lemma put_task_panics: "put_task task spot new_task_buffer = Inl DivisionByZero"
  by (simp add: put_task_def new_task_buffer_def)

lemma get_task_panics: "get_task (new_task_buffer :: 'a TaskBufferImpl) = Inl DivisionByZero"
  by (simp add: get_task_def new_task_buffer_def)

text \<open>A buffer with tasks grows at every call; the spot does not name a fixed place.\<close>

lemma put_task_grows:
  "put_task task spot b = Inr b' \<Longrightarrow> length (tasks b') = Suc (length (tasks b)) \<and> task \<in> set (tasks b')"
  by (auto simp: put_task_def Let_def split: if_splits)

text \<open>An uncontended call takes the next spot, unless the index is at its maximum.\<close>

lemma claim_spot_result:
  "claim_spot b =
     (if write_index b = u64_max then (Claim_Failed (ThrottlingError ''Write index overflow''), b)
      else (Claimed (write_index b), b\<lparr>write_index := write_index b + 1\<rparr>))"
  by (simp add: claim_spot_def MAX_RETRIES_def)

end
