(* ===== verification/Spec2Isabelle.thy ===== *)
theory Spec2Isabelle
  imports Worker_Contract Election_Safety Tcp_Client Server_Startup Task_Buffer
begin

text \<open>
  \<^bold>\<open>Kraft, a replicated key-value store on Raft.\<close> File names are relative to \<open>src/src\<close>.

  \<^bold>\<open>The program.\<close> A node runs a state machine (\<open>raft\<close>) that owns the replication log, the
  votes and the commit index and is in one of three roles; a persistence worker
  (\<open>persistence/worker.rs\<close>) that writes log entries and votes to two files and reports what
  is written; one quorum worker per other node (\<open>quorum\<close>) that turns tasks of the state
  machine into messages and received messages into requests; query workers
  (\<open>query/worker.rs\<close>) that receive committed entries from a bus, keep the key-value map and
  answer gets; a write proxy (\<open>transport/write_proxy\<close>) that combines the batches of clients
  and hands them to the state machine or to the leader's quorum worker; and the servers for
  clients (\<open>transport/datastore\<close>) and for other nodes (\<open>transport/capnp\<close>,
  \<open>transport/cluster_stream_manager.rs\<close>). \<open>main.rs\<close> and \<open>startup\<close> recover the state from the
  files and connect the parts by queues.

  \<^bold>\<open>How code becomes definitions.\<close> \<open>u64\<close>, \<open>u32\<close> and \<open>u8\<close> are words of that width, so that
  additions wrap as in a release build; \<open>usize\<close> is a natural number. A struct is a record
  and an enum a datatype with the same names where HOL allows them. A function that may
  panic returns \<open>'a result\<close>, a sum whose left values are the kinds of panic (\<open>unwrap\<close> on a
  dead receiver, an index out of range, a division by zero). Shared mutable state is passed
  explicitly. A oneshot channel is a number and the state lists what was sent on it. A queue
  between two workers is a list in the state of each; what one takes from the other is an
  argument of the property that connects them. The clock and the random election timeout
  are the argument \<open>env\<close>. Log lines, spans and metrics are left out.

  \<^bold>\<open>Parameters.\<close> The generated Cap'n Proto code is the record \<open>capnp\<close> (log entries, write
  batches; laws \<open>capnp_law\<close> and \<open>write_batch_law\<close>), \<open>wire\<close> (messages between nodes; \<open>wire_law\<close>)
  and \<open>datastore_wire\<close>, \<open>client_wire\<close> (the client protocol; \<open>client_law\<close>); the \<open>csv\<close> crate is
  the record \<open>csv\<close> with \<open>csv_law\<close>. The laws are round trips: what a builder wrote can be
  read back, whatever follows, and a proper prefix cannot. Every law holds of a concrete
  codec (\<open>Capnp_Instance\<close>, \<open>Wire_Instance\<close>, \<open>sample_csv\<close>), which the concrete runs use.

  \<^bold>\<open>The theories.\<close>
  \<^item> Foundations: \<open>Kraft_Prelude\<close> (types, panics, loops, words); \<open>Stream_Codec\<close> (the contract
    of a codec on a byte stream, interpreted for the client frames and for the messages
    between nodes); \<open>Step_System\<close> (contracts of components driven by events: an invariant,
    and a ledger in which each event is entered once; interpreted for client connections,
    the inbound messages of a quorum worker and the task buffer).
  \<^item> Messages: \<open>Capnp_Messages\<close> (\<open>transport/capnp/internal_message.rs\<close>), \<open>Quorum_Messages\<close>
    (\<open>transport/capnp/owned_message.rs\<close>, with \<open>String::from_utf8_lossy\<close>), and their instances.
  \<^item> The state machine: \<open>Raft_State\<close> (the shared state, the vote check and the broadcast
    operations of \<open>raft/raft_sm.rs\<close>, the task types of \<open>quorum/types.rs\<close>), \<open>Follower\<close>,
    \<open>Candidate\<close>, \<open>Leader\<close> (the directories of the same names), \<open>Raft_Executor\<close> (\<open>accept\<close>,
    \<open>time_step\<close>, the loop of \<open>raft/state_machine_worker.rs\<close>), \<open>Startup_State\<close>
    (\<open>startup/state.rs\<close>).
  \<^item> Its invariants: \<open>Broadcast\<close> (what is on the bus), \<open>Write_Ahead\<close> (the tasks account for
    every change), \<open>Log_Consistency\<close> (the shape of the log), \<open>Vote_Safety\<close> (votes stay, and
    new rows are for new terms). \<open>Raft_Protocol\<close> states them as the contract of the trait
    \<open>RaftProtocol\<close>, a locale that is interpreted for the three roles and for the dispatch of
    the executor; \<open>Node_Runs\<close> carries the contract along runs (the inductive relation
    \<open>node_steps\<close>), and \<open>Node_Safety\<close> has the properties of runs.
  \<^item> Durability: \<open>Persistence\<close> (\<open>persistence/worker.rs\<close>; the locale \<open>log_store\<close> is what the
    state machine relies on), \<open>Recovery\<close> (\<open>startup/recovery.rs\<close>), \<open>Durability\<close> (run, passes
    of the worker, restart), \<open>Node_Lifetime\<close> (any interleaving of steps, tasks, crashes and
    restarts).
  \<^item> Elections and commits: \<open>Tally\<close> and \<open>Commit_Tally\<close> (what a candidate and a leader count
    never exceeds the responses delivered to them), \<open>Quorum_Runs\<close> (elections and commits of
    runs), \<open>Vote_Desk\<close> and \<open>Vote_Days\<close> (the identifiers of messages; a vote is granted only
    when it is in the votes file), \<open>Election_Safety\<close> (at most one leader of a term).
  \<^item> Replication: \<open>Quorum_Worker\<close> (\<open>quorum/quorum_worker\<close>), \<open>Replication_Channel\<close> (two
    workers and two state machines), \<open>Worker_Contract\<close>, \<open>Cluster_Transport\<close>
    (\<open>message_sender.rs\<close>, \<open>message_receiver.rs\<close>, \<open>cluster_stream_manager.rs\<close>).
  \<^item> Clients: \<open>Query_Worker\<close>, \<open>Read_Path\<close>, \<open>Write_Proxy\<close>, \<open>Write_Path\<close>, \<open>Frame_Codec\<close>
    (\<open>transport/datastore/codec.rs\<close>), \<open>Datastore\<close> (\<open>connection.rs\<close>), \<open>Tcp_Client\<close>
    (\<open>tcp_client.rs\<close>).
  \<^item> Start-up: \<open>Std_Text\<close> (numerals and socket addresses of the standard library),
    \<open>App_Config\<close> (\<open>config/config.rs\<close>), \<open>Server_Startup\<close> (\<open>main.rs\<close>, \<open>startup\<close>),
    \<open>Service_Errors\<close>, \<open>Task_Buffer\<close> (\<open>runtime_core/task_buffer.rs\<close>). \<open>Sample_Runs\<close> has the
    nodes of the concrete runs.

  \<^bold>\<open>What is shown.\<close> Along every run of a node the write-ahead queue accounts for the log and
  the votes, votes stay and the log keeps its shape; from this, a restart after the worker's
  passes recovers the memory, a crash loses only entries that were not reported, and
  recorded votes survive any life. A node grants a vote only when the vote is in its file, and
  becomes leader, commits and answers clients only on a quorum of responses that were
  delivered to it. So a cluster of odd size has at most one leader of a term, through any
  crashes and restarts. A backfill replicates the log; a client's writes are what
  the replay of the log puts; a get returns the value of the committed log. Codecs, framing
  and pipelining are round trips; the components on the way neither lose nor duplicate
  requests. The last properties are about behaviour that departs from the intention of the
  code: the follower that drops votes, the candidate whose term is set back, quorums of even
  clusters, the entry that a full bus skips, the parked entry that is overwritten, the
  backfill that never ends, the payload that is not kept, the failed write that is reported
  as a success, and the queue that a stale connection removes.

  \<^bold>\<open>What is assumed.\<close> \<open>votes_promise\<close>: term counters are not at the end of their range, and
  a recognised leader's term is not older than the terms the node has taken part in (the
  property about the old leader shows that this is needed). \<open>log_promise\<close>: requests carry
  entries that agree with their data (kept by the sending worker, \<open>Replication_Channel\<close>),
  truncation points lie in the log, and a leader is initialised before it accepts a write.
  \<open>day_promise\<close> and \<open>relayed\<close>, for granted votes and election safety: callbacks are not used
  twice, the identifiers of messages do not run out, and a vote response answers, with its
  term, a request that the node has sent since its start (\<open>Worker_Contract\<close> shows that the
  workers keep the identifier, the term and the answer; the code itself does not check the
  term, and identifiers start at 0 again after a restart, so that a late response could be
  counted in another election). Files are smaller than \<open>2 ^ 64\<close> bytes, logs shorter than
  \<open>2 ^ 64\<close> entries.

  \<^bold>\<open>Bounds and fuel.\<close> All functions are total. The loop over the log file has as much fuel
  as there are bytes, which is enough because a readable entry is not empty; running out
  would be \<^const>\<open>None\<close>. The retries of the bus and of the task buffer have the bounds of the
  code (100).

  \<^bold>\<open>Not modelled.\<close> Sockets, accept loops, the spawning and waking of tasks and the
  capacities of channels (I/O and scheduling of the runtime; what they can do to the state
  is covered by interleavings where it matters); tracing, metrics and their server (no
  effect on the state); merging and deserialising of configuration files (third-party crates);
  the load tests of the client and their percentiles (floating point and wall-clock time);
  I/O errors of the files, on which the worker panics, and the loss of data that the
  operating system has accepted (the code never synchronises the files).
\<close>

end
